(* ===== verification/Prelude.thy ===== *)
theory Prelude
  imports Complex_Main "HOL-Library.Word" "HOL-Library.Sublist" "HOL-Library.AList" "HOL-Library.Multiset"
begin

text \<open>
  Shared vocabulary of the development: the collections of proof hints, the fixed-width
  integer types, text as lists of bytes (case folding, substring search, splitting, the
  decimal and debug renderings the code stores or hashes), double-precision arithmetic as
  correctly rounded rationals, and association lists standing for hash maps.
\<close>

section \<open>Collections\<close>

named_theorems op_defs \<open>definitions of operations, unfolded together by the component proofs\<close>
named_theorems inv_intros \<open>introduction rules for component invariants\<close>
named_theorems map_rules \<open>look-up after an update or a deletion of an association list\<close>

section \<open>Machine integers\<close>

type_synonym u8 = "8 word"
type_synonym u16 = "16 word"
type_synonym u32 = "32 word"
type_synonym u64 = "64 word"

text \<open>\<open>i64\<close> values are unbounded integers here; where an operation saturates, the bounds are written out.\<close>

type_synonym i64 = int

definition i64_max :: i64 where
  "i64_max = 2 ^ 63 - 1"

definition i64_min :: i64 where
  "i64_min = - (2 ^ 63)"

definition sat_i64 :: "int \<Rightarrow> i64" where
  "sat_i64 x = max i64_min (min i64_max x)"

lemma sat_i64_mono: "x \<le> y \<Longrightarrow> sat_i64 x \<le> sat_i64 y"
  by (simp add: sat_i64_def max_def min_def)

lemma sat_i64_id: "i64_min \<le> x \<Longrightarrow> x \<le> i64_max \<Longrightarrow> sat_i64 x = x"
  by (simp add: sat_i64_def)

section \<open>Text\<close>

definition to_lower_char :: "char \<Rightarrow> char" where
  "to_lower_char c =
     (let n = (of_char c :: nat) in if 65 \<le> n \<and> n \<le> 90 then char_of (n + 32) else c)"

definition to_lower :: "string \<Rightarrow> string" where
  "to_lower s = map to_lower_char s"

text \<open>\<open>contains s p\<close> is the code's \<open>s.contains(p)\<close>: \<open>p\<close> occurs as a contiguous part of \<open>s\<close>.\<close>

definition contains :: "string \<Rightarrow> string \<Rightarrow> bool" where
  "contains s p \<longleftrightarrow> sublist p s"

definition starts_with :: "string \<Rightarrow> string \<Rightarrow> bool" where
  "starts_with s p \<longleftrightarrow> prefix p s"

lemma contains_trans: "contains s p \<Longrightarrow> contains p q \<Longrightarrow> contains s q"
  unfolding contains_def by (rule sublist_order.order_trans)

lemma contains_refl [simp]: "contains s s"
  by (simp add: contains_def)

lemma length_to_lower [simp]: "length (to_lower s) = length s"
  by (simp add: to_lower_def)

fun join :: "string \<Rightarrow> string list \<Rightarrow> string" where
  "join sep [] = []"
| "join sep [x] = x"
| "join sep (x # y # ys) = x @ sep @ join sep (y # ys)"

text \<open>\<open>split_on c s\<close> is \<open>s.split(c)\<close>: one piece more than there are separators.\<close>

fun split_on :: "char \<Rightarrow> string \<Rightarrow> string list" where
  "split_on c [] = [[]]"
| "split_on c (x # xs) =
     (if x = c then [] # split_on c xs
      else (case split_on c xs of [] \<Rightarrow> [[x]] | p # ps \<Rightarrow> (x # p) # ps))"

lemma split_on_nonempty [simp]: "split_on c s \<noteq> []"
  by (induction s) (auto split: list.splits)

lemma split_on_absent: "c \<notin> set s \<Longrightarrow> split_on c s = [s]"
  by (induction s) auto

lemma split_on_pieces: "p \<in> set (split_on c s) \<Longrightarrow> c \<notin> set p"
  by (induction s arbitrary: p) (auto split: if_splits list.splits)

lemma split_on_append: "c \<notin> set s \<Longrightarrow> split_on c (s @ c # t) = s # split_on c t"
  by (induction s) auto

lemma split_on_join:
  "xs \<noteq> [] \<Longrightarrow> \<forall>x \<in> set xs. c \<notin> set x \<Longrightarrow> split_on c (join [c] xs) = xs"
  by (induction "[c]" xs rule: join.induct) (auto simp: split_on_absent split_on_append)

definition ascii_alnum :: "char \<Rightarrow> bool" where
  "ascii_alnum c \<longleftrightarrow>
     (let n = (of_char c :: nat) in
        (48 \<le> n \<and> n \<le> 57) \<or> (65 \<le> n \<and> n \<le> 90) \<or> (97 \<le> n \<and> n \<le> 122))"

definition ascii_space :: "char \<Rightarrow> bool" where
  "ascii_space c \<longleftrightarrow> (let n = (of_char c :: nat) in n = 32 \<or> (9 \<le> n \<and> n \<le> 13))"

text \<open>\<open>s.split_whitespace()\<close>: the maximal runs of other characters.\<close>

fun split_ws_acc :: "string \<Rightarrow> string \<Rightarrow> string list" where
  "split_ws_acc acc [] = (if acc = [] then [] else [rev acc])"
| "split_ws_acc acc (c # cs) =
     (if ascii_space c
      then (if acc = [] then split_ws_acc [] cs else rev acc # split_ws_acc [] cs)
      else split_ws_acc (c # acc) cs)"

definition split_whitespace :: "string \<Rightarrow> string list" where
  "split_whitespace s = split_ws_acc [] s"

section \<open>Numbers as text\<close>

definition digit_char :: "nat \<Rightarrow> char" where
  "digit_char d = char_of (48 + d)"

function show_digits :: "int \<Rightarrow> string" where
  "show_digits i =
     (if i < 10 then [digit_char (nat i)] else show_digits (i div 10) @ [digit_char (nat (i mod 10))])"
  by pat_completeness auto
termination
  by (relation "measure nat") auto

declare show_digits.simps [simp del]

definition show_nat :: "nat \<Rightarrow> string" where
  "show_nat n = show_digits (int n)"

definition show_u64 :: "u64 \<Rightarrow> string" where
  "show_u64 w = show_digits (uint w)"

definition show_int :: "int \<Rightarrow> string" where
  "show_int i = (if i < 0 then ''-'' @ show_digits (- i) else show_digits i)"

definition digit_value :: "char \<Rightarrow> nat option" where
  "digit_value c = (let n = (of_char c :: nat) in if 48 \<le> n \<and> n \<le> 57 then Some (n - 48) else None)"

fun parse_digits :: "nat \<Rightarrow> string \<Rightarrow> nat option" where
  "parse_digits acc [] = Some acc"
| "parse_digits acc (c # cs) =
     (case digit_value c of None \<Rightarrow> None | Some d \<Rightarrow> parse_digits (10 * acc + d) cs)"

text \<open>
  \<open>s.parse::<uN>()\<close>: an optional plus sign, at least one digit, and a value below the
  type's bound.
\<close>

definition parse_unsigned :: "nat \<Rightarrow> string \<Rightarrow> nat option" where
  "parse_unsigned bound s =
     (let ds = (case s of c # cs \<Rightarrow> if c = CHR ''+'' then cs else s | [] \<Rightarrow> []) in
      if ds = [] then None
      else (case parse_digits 0 ds of
              None \<Rightarrow> None
            | Some n \<Rightarrow> if n < bound then Some n else None))"

lemma digit_value_digit_char [simp]: "d < 10 \<Longrightarrow> digit_value (digit_char d) = Some d"
  by (simp add: digit_value_def digit_char_def Let_def)

lemma parse_digits_append:
  "parse_digits acc (xs @ ys) =
     (case parse_digits acc xs of None \<Rightarrow> None | Some a \<Rightarrow> parse_digits a ys)"
  by (induction xs arbitrary: acc) (auto split: option.splits)

lemma parse_digits_show_digits: "0 \<le> i \<Longrightarrow> parse_digits 0 (show_digits i) = Some (nat i)"
proof (induction i rule: show_digits.induct)
  case (1 i)
  show ?case
  proof (cases "i < 10")
    case True
    with "1.prems" show ?thesis by (simp add: show_digits.simps[of i] nat_less_iff)
  next
    case False
    have "nat (i mod 10) < 10" by (simp add: nat_less_iff)
    moreover have "10 * nat (i div 10) + nat (i mod 10) = nat i"
      using False by (simp add: nat_div_distrib nat_mod_distrib)
    ultimately show ?thesis
      using False "1.IH" by (simp add: show_digits.simps[of i] parse_digits_append)
  qed
qed

lemma parse_digits_show_nat: "parse_digits 0 (show_nat n) = Some n"
  by (simp add: show_nat_def parse_digits_show_digits)

lemma show_nat_inj: "show_nat m = show_nat n \<Longrightarrow> m = n"
  by (metis option.inject parse_digits_show_nat)

lemma show_digits_digits: "0 \<le> i \<Longrightarrow> c \<in> set (show_digits i) \<Longrightarrow> digit_value c \<noteq> None"
proof (induction i rule: show_digits.induct)
  case (1 i)
  have "digit_value (digit_char (nat (i mod 10))) \<noteq> None" by (simp add: nat_less_iff)
  moreover have "i < 10 \<Longrightarrow> digit_value (digit_char (nat i)) \<noteq> None"
    using "1.prems" by (simp add: nat_less_iff)
  ultimately show ?case
    using "1.IH" "1.prems" by (auto simp: show_digits.simps[of i] not_less split: if_splits)
qed

lemma show_digits_no_minus: "0 \<le> i \<Longrightarrow> show_digits i \<noteq> CHR ''-'' # s"
  using parse_digits_show_digits[of i] by (auto simp: digit_value_def)

lemma show_digits_inj: "0 \<le> i \<Longrightarrow> 0 \<le> j \<Longrightarrow> show_digits i = show_digits j \<Longrightarrow> i = j"
  by (metis int_nat_eq option.inject parse_digits_show_digits)

lemma show_int_inj: "show_int a = show_int b \<Longrightarrow> a = b"
  using show_digits_no_minus[of a] show_digits_no_minus[of b] show_digits_inj[of a b]
    show_digits_inj[of "- a" "- b"]
  by (auto simp: show_int_def split: if_splits dest: sym)

lemma show_digits_nonempty [simp]: "show_digits i \<noteq> []"
  by (subst show_digits.simps) simp

section \<open>Debug rendering\<close>

text \<open>
  \<open>{:?}\<close> of a string: quoted, with the escapes the standard library uses for ASCII text.
  Bytes from 128 up stand for printable characters and are left alone.
\<close>

definition hex_digit :: "nat \<Rightarrow> char" where
  "hex_digit d = (if d < 10 then char_of (48 + d) else char_of (87 + d))"

definition debug_char :: "char \<Rightarrow> string" where
  "debug_char c =
     (let n = (of_char c :: nat) in
      if n = 34 then [CHR 0x5C, CHR 0x22]
      else if n = 92 then [CHR 0x5C, CHR 0x5C]
      else if n = 0 then [CHR 0x5C, CHR ''0'']
      else if n = 9 then [CHR 0x5C, CHR ''t'']
      else if n = 10 then [CHR 0x5C, CHR ''n'']
      else if n = 13 then [CHR 0x5C, CHR ''r'']
      else if n < 32 \<or> n = 127
      then [CHR 0x5C] @ ''u{'' @ (if n < 16 then [] else [hex_digit (n div 16)])
             @ [hex_digit (n mod 16)] @ ''}''
      else [c])"

definition debug_str :: "string \<Rightarrow> string" where
  "debug_str s = [CHR 0x22] @ concat (map debug_char s) @ [CHR 0x22]"

definition debug_opt :: "('a \<Rightarrow> string) \<Rightarrow> 'a option \<Rightarrow> string" where
  "debug_opt f x = (case x of None \<Rightarrow> ''None'' | Some a \<Rightarrow> ''Some('' @ f a @ '')'')"

definition debug_list :: "('a \<Rightarrow> string) \<Rightarrow> 'a list \<Rightarrow> string" where
  "debug_list f xs = ''['' @ join '', '' (map f xs) @ '']''"

definition show_bool :: "bool \<Rightarrow> string" where
  "show_bool b = (if b then ''true'' else ''false'')"

subsection \<open>The debug rendering is a prefix code\<close>

lemma of_hex_digit: "a < 16 \<Longrightarrow> (of_char (hex_digit a) :: nat) = (if a < 10 then 48 + a else 87 + a)"
  by (simp add: hex_digit_def)

lemma hex_digit_inj: "a < 16 \<Longrightarrow> b < 16 \<Longrightarrow> hex_digit a = hex_digit b \<Longrightarrow> a = b"
  by (drule arg_cong[where f = "of_char :: char \<Rightarrow> nat"]) (auto simp: of_hex_digit split: if_splits)

lemma hex_digit_brace: "a < 16 \<Longrightarrow> hex_digit a \<noteq> CHR ''}''"
  by (auto dest!: arg_cong[where f = "of_char :: char \<Rightarrow> nat"] simp: of_hex_digit split: if_splits)

lemma of_char_less: "(of_char c :: nat) < 256"
  by (metis of_char_mod_256 mod_less_divisor zero_less_numeral)

definition hex_escape :: "nat \<Rightarrow> string" where
  "hex_escape n = (if n < 16 then [] else [hex_digit (n div 16)]) @ [hex_digit (n mod 16)] @ ''}''"

lemma hex_escape_prefix_free:
  assumes "m < 256" "n < 256" "hex_escape m @ x = hex_escape n @ y"
  shows "m = n \<and> x = y"
proof -
  have d: "m div 16 < 16" "n div 16 < 16" "m mod 16 < 16" "n mod 16 < 16"
    using assms(1,2) by auto
  note b = hex_digit_brace[OF d(1)] hex_digit_brace[OF d(2)] hex_digit_brace[OF d(3)] hex_digit_brace[OF d(4)]
  note i = hex_digit_inj[OF d(1,2)] hex_digit_inj[OF d(3,4)]
  have "m div 16 = n div 16 \<and> m mod 16 = n mod 16 \<and> x = y"
  proof (cases "m < 16"; cases "n < 16")
    assume "m < 16" "n < 16" then show ?thesis using assms(3) i by (simp add: hex_escape_def)
  next
    assume "m < 16" "\<not> n < 16" then show ?thesis using assms(3) b by (simp add: hex_escape_def)
  next
    assume "\<not> m < 16" "n < 16" then show ?thesis using assms(3) b by (simp add: hex_escape_def)
  next
    assume "\<not> m < 16" "\<not> n < 16" then show ?thesis using assms(3) i by (simp add: hex_escape_def)
  qed
  then show ?thesis by (metis div_mult_mod_eq)
qed

text \<open>The character a one-letter escape stands for.\<close>

definition short_escape :: "char \<Rightarrow> nat option" where
  "short_escape e =
     (if e = CHR 0x22 then Some 34 else if e = CHR 0x5C then Some 92 else if e = CHR ''0'' then Some 0
      else if e = CHR ''t'' then Some 9 else if e = CHR ''n'' then Some 10
      else if e = CHR ''r'' then Some 13 else None)"

lemma debug_char_cases:
  obtains "debug_char c = [c]" "c \<noteq> CHR 0x22" "c \<noteq> CHR 0x5C"
  | e where "debug_char c = [CHR 0x5C, e]" "short_escape e = Some (of_char c)"
  | "debug_char c = CHR 0x5C # CHR ''u'' # CHR ''{'' # hex_escape (of_char c)"
proof -
  define n where "n = (of_char c :: nat)"
  have q: "c = CHR 0x22 \<longleftrightarrow> n = 34" "c = CHR 0x5C \<longleftrightarrow> n = 92"
    using of_char_eq_iff[of c "CHR 0x22", where ?'a = nat] of_char_eq_iff[of c "CHR 0x5C", where ?'a = nat]
    by (auto simp: n_def)
  show thesis
  proof (cases "n \<in> {34, 92, 0, 9, 10, 13}")
    case True
    then show thesis
      by (intro that(2)[of "if n = 34 then CHR 0x22 else if n = 92 then CHR 0x5C else if n = 0 then CHR ''0''
              else if n = 9 then CHR ''t'' else if n = 10 then CHR ''n'' else CHR ''r''"])
        (auto simp: debug_char_def short_escape_def n_def Let_def)
  next
    case False
    show thesis
    proof (cases "n < 32 \<or> n = 127")
      case True
      with False show thesis by (intro that(3)) (auto simp: debug_char_def hex_escape_def n_def Let_def)
    next
      case F: False
      then show thesis using False q by (intro that(1)) (auto simp: debug_char_def n_def Let_def)
    qed
  qed
qed

lemma debug_char_prefix_free:
  assumes "debug_char c @ x = debug_char d @ y"
  shows "c = d \<and> x = y"
proof -
  have u: "short_escape (CHR ''u'') = None" by (simp add: short_escape_def)
  have eq: "(of_char c :: nat) = of_char d \<Longrightarrow> c = d" by simp
  note h = hex_escape_prefix_free[OF of_char_less[of c] of_char_less[of d], of x y]
  show ?thesis
    by (rule debug_char_cases[of c]; rule debug_char_cases[of d]) (use assms u eq h in auto)
qed

lemma debug_char_not_quote: "debug_char c @ x \<noteq> CHR 0x22 # y"
  by (rule debug_char_cases[of c]) auto

lemma debug_str_body_prefix_free:
  "concat (map debug_char a) @ CHR 0x22 # x = concat (map debug_char b) @ CHR 0x22 # y \<Longrightarrow>
   a = b \<and> x = y"
proof (induction a arbitrary: b)
  case Nil
  then show ?case by (cases b) (auto dest: debug_char_not_quote[THEN notE, OF sym])
next
  case (Cons c a)
  show ?case
  proof (cases b)
    case Nil
    then show ?thesis using Cons.prems debug_char_not_quote by auto
  next
    case b: (Cons d b')
    then show ?thesis
      using Cons.prems Cons.IH[of b'] debug_char_prefix_free[of c _ d] by simp
  qed
qed

lemma debug_str_prefix_free: "debug_str a @ x = debug_str b @ y \<Longrightarrow> a = b \<and> x = y"
  using debug_str_body_prefix_free[of a x b y] by (simp add: debug_str_def)
definition show_word :: "'a::len word \<Rightarrow> string" where
  "show_word w = show_digits (uint w)"

text \<open>
  A rendering is \<open>terminated\<close> by a character when what follows the first occurrence after it can
  be told apart from it: two texts that agree render the same value and go on the same.
\<close>

definition terminated :: "char \<Rightarrow> ('a \<Rightarrow> string) \<Rightarrow> bool" where
  "terminated t f \<longleftrightarrow> (\<forall>a b x y. f a @ t # x = f b @ t # y \<longrightarrow> a = b \<and> x = y)"

lemma terminatedD: "terminated t f \<Longrightarrow> f a @ t # x = f b @ t # y \<Longrightarrow> a = b \<and> x = y"
  by (auto simp: terminated_def)

lemma split_first:
  "t \<notin> set a \<Longrightarrow> t \<notin> set b \<Longrightarrow> a @ t # x = b @ t # y \<Longrightarrow> a = b \<and> x = y"
proof (induction a arbitrary: b)
  case Nil
  then show ?case by (cases b) auto
next
  case (Cons c a)
  then show ?case by (cases b) auto
qed

lemma terminated_absent: "(\<And>a. t \<notin> set (f a)) \<Longrightarrow> inj f \<Longrightarrow> terminated t f"
  unfolding terminated_def by (metis injD split_first)

lemma terminated_debug_str: "terminated t debug_str"
  unfolding terminated_def using debug_str_prefix_free by blast

lemma terminated_debug_opt:
  assumes "terminated (CHR '')'') f"
  shows "terminated t (debug_opt f)"
  unfolding terminated_def
proof (intro allI impI)
  fix a b x y
  assume "debug_opt f a @ t # x = debug_opt f b @ t # y"
  then show "a = b \<and> x = y"
    using terminatedD[OF assms, of "the a" "t # x" "the b" "t # y"]
    by (cases a; cases b) (simp_all add: debug_opt_def)
qed

lemma terminated_show_word:
  assumes "digit_value t = None"
  shows "terminated t (show_word :: 'a::len word \<Rightarrow> string)"
proof (rule terminated_absent)
  show "inj (show_word :: 'a word \<Rightarrow> string)" by (rule injI) (simp add: show_word_def, metis show_digits_inj uint_ge_0 word_uint_eq_iff)
next
  show "t \<notin> set (show_word a)" for a :: "'a word"
    using assms show_digits_digits[of "uint a" t] by (auto simp: show_word_def)
qed

lemma terminated_show_bool: "t \<notin> {CHR ''t'', CHR ''r'', CHR ''u'', CHR ''e'', CHR ''f'', CHR ''a'', CHR ''l'', CHR ''s''} \<Longrightarrow> terminated t show_bool"
  by (intro terminated_absent injI) (auto simp: show_bool_def split: if_splits)

section \<open>Double precision\<close>

text \<open>
  A finite \<open>f64\<close> is the rational it denotes. \<open>f64_round\<close> rounds a rational to 53
  significant bits, ties to even; the magnitudes met here (byte counts, core counts,
  fractions near one) neither overflow nor reach the subnormal range, and no operation
  of the code yields a NaN or an infinity from finite operands.
\<close>

type_synonym f64 = rat

function int_bits :: "int \<Rightarrow> int" where
  "int_bits i = (if i \<le> 0 then 0 else 1 + int_bits (i div 2))"
  by pat_completeness auto
termination
  by (relation "measure nat") auto

declare int_bits.simps [simp del]

definition pow2 :: "int \<Rightarrow> rat" where
  "pow2 e = (if 0 \<le> e then 2 ^ nat e else 1 / 2 ^ nat (- e))"

definition round_half_even :: "rat \<Rightarrow> int" where
  "round_half_even x =
     (let f = \<lfloor>x\<rfloor>; d = x - of_int f in
      if d < 1 / 2 then f else if d > 1 / 2 then f + 1 else if even f then f else f + 1)"

definition f64_round :: "rat \<Rightarrow> f64" where
  "f64_round x =
     (if x = 0 then 0
      else (let (p, q) = quotient_of \<bar>x\<bar>;
                e0 = int_bits p - int_bits q - 53;
                e = (if \<bar>x\<bar> / pow2 e0 \<ge> 2 ^ 53 then e0 + 1 else e0)
            in sgn x * of_int (round_half_even (\<bar>x\<bar> / pow2 e)) * pow2 e))"

definition f64_of_u64 :: "u64 \<Rightarrow> f64" where
  "f64_of_u64 w = f64_round (of_int (uint w))"

definition f64_sub :: "f64 \<Rightarrow> f64 \<Rightarrow> f64" where
  "f64_sub a b = f64_round (a - b)"

definition f64_mul :: "f64 \<Rightarrow> f64 \<Rightarrow> f64" where
  "f64_mul a b = f64_round (a * b)"

definition f64_div :: "f64 \<Rightarrow> f64 \<Rightarrow> f64" where
  "f64_div a b = f64_round (a / b)"

text \<open>\<open>x as u64\<close>: towards zero, saturating at both ends.\<close>

definition u64_of_f64 :: "f64 \<Rightarrow> u64" where
  "u64_of_f64 x = (if x \<le> 0 then 0 else if 2 ^ 64 \<le> x then - 1 else word_of_int \<lfloor>x\<rfloor>)"

text \<open>\<open>{:.N}\<close>: the exact value rounded to \<open>n\<close> decimals, ties to even.\<close>

definition show_fixed :: "nat \<Rightarrow> f64 \<Rightarrow> string" where
  "show_fixed n x =
     (let k = round_half_even (\<bar>x\<bar> * 10 ^ n);
          whole = show_digits (k div 10 ^ n);
          frac = show_digits (k mod 10 ^ n)
      in (if x < 0 then ''-'' else []) @ whole
         @ (if n = 0 then [] else ''.'' @ replicate (n - length frac) (CHR ''0'') @ frac))"

text \<open>\<open>u32::try_from(i).unwrap_or(0)\<close> and \<open>u64::try_from(i).unwrap_or(0)\<close>\<close>

definition u32_of_i64 :: "i64 \<Rightarrow> u32" where
  "u32_of_i64 i = (if 0 \<le> i \<and> i < 2 ^ 32 then of_int i else 0)"

definition u64_or_zero :: "i64 \<Rightarrow> u64" where
  "u64_or_zero i = (if 0 \<le> i then of_int i else 0)"

section \<open>Characters\<close>

text \<open>A string is its UTF-8 bytes. A byte that continues a character starts no slice.\<close>

definition continues_char :: "char \<Rightarrow> bool" where
  "continues_char c \<longleftrightarrow> 128 \<le> (of_char c :: nat) \<and> (of_char c :: nat) < 192"

section \<open>Hash maps as association lists\<close>

text \<open>
  A \<open>HashMap\<close> is an association list with distinct keys: insertion is
  \<^const>\<open>AList.update\<close>, removal \<^const>\<open>AList.delete\<close>, look-up \<^const>\<open>map_of\<close>.
\<close>

definition keys_distinct :: "('k \<times> 'v) list \<Rightarrow> bool" where
  "keys_distinct m \<longleftrightarrow> distinct (map fst m)"

definition or_default :: "'v \<Rightarrow> 'v option \<Rightarrow> 'v" where
  "or_default d x = (case x of None \<Rightarrow> d | Some v \<Rightarrow> v)"

lemma or_default_simps [simp]: "or_default d None = d" "or_default d (Some v) = v"
  by (simp_all add: or_default_def)

lemma map_of_update [map_rules, simp]: "map_of (AList.update k v m) = (map_of m)(k \<mapsto> v)"
  by (rule update_conv')

lemma map_of_delete [map_rules, simp]: "map_of (AList.delete k m) = (map_of m)(k := None)"
  by (rule delete_conv')

lemma keys_distinct_Nil [simp]: "keys_distinct []"
  by (simp add: keys_distinct_def)

lemma keys_distinct_update [inv_intros]: "keys_distinct m \<Longrightarrow> keys_distinct (AList.update k v m)"
  by (simp add: keys_distinct_def distinct_update)

lemma keys_distinct_delete [inv_intros]: "keys_distinct m \<Longrightarrow> keys_distinct (AList.delete k m)"
  by (simp add: keys_distinct_def distinct_delete)

lemma update_fresh: "map_of m k = None \<Longrightarrow> AList.update k v m = m @ [(k, v)]"
  by (induction m) auto

lemma length_update_fresh: "map_of m k = None \<Longrightarrow> length (AList.update k v m) = Suc (length m)"
  by (simp add: update_fresh)

lemma filter_update_fresh:
  "map_of m k = None \<Longrightarrow> filter P (AList.update k v m) = filter P m @ (if P (k, v) then [(k, v)] else [])"
  by (simp add: update_fresh)

lemma delete_filter: "AList.delete k m = filter (\<lambda>x. fst x \<noteq> k) m"
  by (simp add: AList.delete_eq case_prod_unfold eq_commute)

section \<open>Results\<close>

text \<open>A fallible function returns \<open>error + 'a\<close>; \<open>bindR\<close> is the code's \<open>?\<close>.\<close>

definition bindR :: "'e + 'a \<Rightarrow> ('a \<Rightarrow> 'e + 'b) \<Rightarrow> 'e + 'b" where
  "bindR r f = (case r of Inl e \<Rightarrow> Inl e | Inr a \<Rightarrow> f a)"

lemma bindR_simps [simp]: "bindR (Inl e) f = Inl e" "bindR (Inr a) f = f a"
  by (simp_all add: bindR_def)

lemma bindR_Inr_iff: "bindR r f = Inr b \<longleftrightarrow> (\<exists>a. r = Inr a \<and> f a = Inr b)"
  by (cases r) auto

lemma find_SomeD: "List.find P xs = Some x \<Longrightarrow> x \<in> set xs \<and> P x"
  by (induction xs) (auto split: if_splits)

section \<open>Canonical spellings\<close>

text \<open>
  Several enumerations are persisted under a canonical spelling and read back by a parser.
  The interface is the pair of functions; the laws say that the parser accepts exactly the
  canonical spellings.
\<close>

locale canonical_spelling =
  fixes as_str :: "'e \<Rightarrow> string"
    and parse :: "string \<Rightarrow> 'e option"
  assumes parse_as_str: "parse (as_str e) = Some e"
    and as_str_parse: "parse s = Some e \<Longrightarrow> as_str e = s"
begin

lemma as_str_inj: "as_str a = as_str b \<longleftrightarrow> a = b"
  by (metis option.inject parse_as_str)

lemma parse_eq_Some: "parse s = Some e \<longleftrightarrow> s = as_str e"
  using parse_as_str as_str_parse by auto

lemma parse_eq_None: "parse s = None \<longleftrightarrow> s \<notin> range as_str"
proof
  assume "parse s = None"
  then show "s \<notin> range as_str" by (auto simp: parse_as_str)
next
  assume "s \<notin> range as_str"
  then show "parse s = None" by (cases "parse s") (auto dest: as_str_parse)
qed

end

end
