(* ===== verification/Paths.thy ===== *)
theory Paths
  imports Prelude
begin

text \<open>
  \<open>crates/transcodarr-core/src/paths.rs\<close> and the errors of \<open>crates/transcodarr-core/src/lib.rs\<close>.
  A path is the list of its components, which is what the language's own path equality
  compares; \<open>path_new\<close> reads the components off a string and \<open>path_display\<close> writes them back.
  The lemmas say that the derived output never names its input and that the trash path stays
  inside the trash directory and separates different originals.
\<close>

datatype core_error =
    UnknownPreset string string
  | InvalidPath string
  | MalformedProbe string

fun show_core_error :: "core_error \<Rightarrow> string" where
  "show_core_error (UnknownPreset name valid) = ''unknown preset '' @ [CHR 0x27] @ name @ [CHR 0x27] @ ''; valid presets are: '' @ valid"
| "show_core_error (InvalidPath s) = ''invalid path: '' @ s"
| "show_core_error (MalformedProbe s) = ''malformed ffprobe output: '' @ s"

section \<open>Paths of the standard library\<close>

datatype component = RootDir | CurDir | ParentDir | Normal string

type_synonym path = "component list"

definition component_of :: "string \<Rightarrow> component" where
  "component_of s = (if s = ''..'' then ParentDir else Normal s)"

definition path_new :: "string \<Rightarrow> path" where
  "path_new s =
     (let parts = split_on (CHR ''/'') s;
          body = map component_of (filter (\<lambda>p. p \<noteq> [] \<and> p \<noteq> ''.'') parts)
      in (if starts_with s ''/'' then [RootDir]
          else if hd parts = ''.'' then [CurDir] else []) @ body)"

fun component_str :: "component \<Rightarrow> string" where
  "component_str RootDir = ''''"
| "component_str CurDir = ''.''"
| "component_str ParentDir = ''..''"
| "component_str (Normal s) = s"

definition path_display :: "path \<Rightarrow> string" where
  "path_display p =
     (case p of RootDir # [] \<Rightarrow> ''/'' | _ \<Rightarrow> join ''/'' (map component_str p))"

definition is_absolute :: "path \<Rightarrow> bool" where
  "is_absolute p \<longleftrightarrow> (case p of RootDir # _ \<Rightarrow> True | _ \<Rightarrow> False)"

definition path_join :: "path \<Rightarrow> path \<Rightarrow> path" where
  "path_join a b =
     (if is_absolute b then b
      else if a = [] then b
      else a @ (case b of CurDir # r \<Rightarrow> r | _ \<Rightarrow> b))"

fun normal_name :: "component \<Rightarrow> string option" where
  "normal_name (Normal s) = Some s"
| "normal_name _ = None"

definition file_name :: "path \<Rightarrow> string option" where
  "file_name p = (if p = [] then None else normal_name (last p))"

definition parent :: "path \<Rightarrow> path option" where
  "parent p = (if p = [] \<or> last p = RootDir then None else Some (butlast p))"

text \<open>The part before and after the last dot; \<open>None\<close> when there is no dot.\<close>

fun split_last_dot :: "string \<Rightarrow> (string \<times> string) option" where
  "split_last_dot [] = None"
| "split_last_dot (c # cs) =
     (case split_last_dot cs of
        Some (b, a) \<Rightarrow> Some (c # b, a)
      | None \<Rightarrow> if c = CHR ''.'' then Some ([], cs) else None)"

definition name_extension :: "string \<Rightarrow> string option" where
  "name_extension n =
     (case split_last_dot n of Some (b, a) \<Rightarrow> if b = [] then None else Some a | None \<Rightarrow> None)"

definition name_stem :: "string \<Rightarrow> string" where
  "name_stem n =
     (case split_last_dot n of Some (b, a) \<Rightarrow> if b = [] then n else b | None \<Rightarrow> n)"

definition extension :: "path \<Rightarrow> string option" where
  "extension p = (case file_name p of None \<Rightarrow> None | Some n \<Rightarrow> name_extension n)"

definition file_stem :: "path \<Rightarrow> string option" where
  "file_stem p = (case file_name p of None \<Rightarrow> None | Some n \<Rightarrow> Some (name_stem n))"

definition strip_prefix :: "path \<Rightarrow> path \<Rightarrow> path option" where
  "strip_prefix p base = (if prefix base p then Some (drop (length base) p) else None)"

definition set_extension :: "path \<Rightarrow> string \<Rightarrow> path" where
  "set_extension p ext =
     (case file_name p of
        None \<Rightarrow> p
      | Some n \<Rightarrow> butlast p @ [Normal (name_stem n @ (if ext = [] then [] else CHR ''.'' # ext))])"

text \<open>\<open>s.rfind(needle)\<close>: the position of the last occurrence.\<close>

fun rfind :: "string \<Rightarrow> string \<Rightarrow> nat option" where
  "rfind [] needle = (if needle = [] then Some 0 else None)"
| "rfind (c # cs) needle =
     (case rfind cs needle of
        Some i \<Rightarrow> Some (Suc i)
      | None \<Rightarrow> if prefix needle (c # cs) then Some 0 else None)"

section \<open>Output-path derivation\<close>

definition strict_stem :: "path \<Rightarrow> string" where
  "strict_stem p =
     (case (file_name p, extension p) of
        (Some name, Some ext) \<Rightarrow>
          (if ext \<noteq> [] then
             (case rfind name (CHR ''.'' # ext) of
                Some pos \<Rightarrow> if pos > 0 then take pos name else name
              | None \<Rightarrow> name)
           else name)
      | _ \<Rightarrow> (case file_stem p of Some s \<Rightarrow> s | None \<Rightarrow> ''output''))"

definition paths_equivalent :: "path \<Rightarrow> path \<Rightarrow> bool" where
  "paths_equivalent a b \<longleftrightarrow> a = b"

definition is_normal :: "component \<Rightarrow> bool" where
  "is_normal c \<longleftrightarrow> (case c of Normal _ \<Rightarrow> True | _ \<Rightarrow> False)"

definition trash_path_for :: "path \<Rightarrow> path \<Rightarrow> path \<Rightarrow> path" where
  "trash_path_for trash_dir library_root final_path =
     (let relative =
            (case (case strip_prefix final_path library_root of
                     Some r \<Rightarrow> if r \<noteq> [] then Some r else None
                   | None \<Rightarrow> None) of
               Some r \<Rightarrow> r
             | None \<Rightarrow> (case file_name final_path of
                         Some n \<Rightarrow> [Normal n]
                       | None \<Rightarrow> [Normal ''recovered'']));
          safe = filter is_normal relative
      in path_join trash_dir (if safe = [] then [Normal ''recovered''] else safe))"

definition suffixed_output :: "path \<Rightarrow> string \<Rightarrow> path" where
  "suffixed_output input_path out_ext =
     (let par = (case parent input_path of Some q \<Rightarrow> q | None \<Rightarrow> path_new ''.'');
          stem = strict_stem input_path
      in path_join par [Normal (stem @ ''_transcoded.'' @ out_ext)])"

definition resolve_output_path ::
    "path \<Rightarrow> path option \<Rightarrow> string \<Rightarrow> path \<Rightarrow> core_error + path" where
  "resolve_output_path input output_opt default_ext base_dir =
     (if file_name input = None then Inl (InvalidPath (path_display input))
      else (case output_opt of
              Some out \<Rightarrow>
                (let out_abs = (if is_absolute out then out else path_join base_dir out) in
                 if paths_equivalent input out_abs
                 then Inr (suffixed_output input default_ext)
                 else Inr out_abs)
            | None \<Rightarrow> Inr (suffixed_output input default_ext)))"

definition plan_output_path :: "path \<Rightarrow> path \<Rightarrow> path \<Rightarrow> string \<Rightarrow> core_error + path" where
  "plan_output_path input in_root out_root ext =
     (if paths_equivalent in_root out_root then Inr (suffixed_output input ext)
      else (case strip_prefix input in_root of
              None \<Rightarrow> Inl (InvalidPath (path_display input @ '' is not under '' @ path_display in_root))
            | Some rel \<Rightarrow> Inr (set_extension (path_join out_root rel) ext)))"

section \<open>Lemmas on names\<close>

lemma split_last_dot_None_iff: "split_last_dot n = None \<longleftrightarrow> CHR ''.'' \<notin> set n"
  by (induction n) (auto split: option.splits)

lemma split_last_dot_Some:
  "split_last_dot n = Some (b, a) \<Longrightarrow> n = b @ CHR ''.'' # a \<and> CHR ''.'' \<notin> set a"
proof (induction n arbitrary: b)
  case (Cons c cs)
  then show ?case
    using split_last_dot_None_iff[of cs]
    by (cases "split_last_dot cs") (auto split: if_splits prod.splits)
qed simp

lemma rfind_None: "needle \<noteq> [] \<Longrightarrow> hd needle \<notin> set s \<Longrightarrow> rfind s needle = None"
proof (induction s)
  case (Cons c cs)
  then show ?case by (cases needle) auto
qed simp

lemma rfind_last:
  assumes "d \<notin> set a"
  shows "rfind (b @ d # a) (d # a) = Some (length b)"
  using assms by (induction b) (simp_all add: rfind_None)

lemma strict_stem_dotted:
  assumes "file_name p = Some n" "split_last_dot n = Some (b, a)" "b \<noteq> []" "a \<noteq> []"
  shows "strict_stem p = b"
proof -
  have n: "n = b @ CHR ''.'' # a" and a: "CHR ''.'' \<notin> set a"
    using split_last_dot_Some[OF assms(2)] by auto
  have "extension p = Some a" using assms by (simp add: extension_def name_extension_def)
  then show ?thesis
    using assms rfind_last[OF a, of b] by (simp add: strict_stem_def n)
qed

lemma strict_stem_cases:
  assumes "file_name p = Some n"
  shows "strict_stem p = (if \<exists>b. b \<noteq> [] \<and> split_last_dot n = Some (b, []) then n else name_stem n)"
proof (cases "split_last_dot n")
  case None
  then have "extension p = None" using assms by (simp add: extension_def name_extension_def)
  then show ?thesis using assms None by (simp add: strict_stem_def file_stem_def)
next
  case (Some x)
  obtain b a where x: "x = (b, a)" by (cases x)
  show ?thesis
  proof (cases "b = []")
    case True
    then have "extension p = None" using assms Some x by (simp add: extension_def name_extension_def)
    then show ?thesis using assms Some x True by (simp add: strict_stem_def file_stem_def)
  next
    case False
    then have e: "extension p = Some a" using assms Some x by (simp add: extension_def name_extension_def)
    show ?thesis
    proof (cases "a = []")
      case True
      then show ?thesis using assms Some x e False by (simp add: strict_stem_def)
    next
      case F: False
      then show ?thesis
        using strict_stem_dotted[OF assms] Some x False by (simp add: name_stem_def)
    qed
  qed
qed

lemma ends_in_dot_iff:
  "(\<exists>b. b \<noteq> [] \<and> split_last_dot n = Some (b, [])) \<longleftrightarrow> (\<exists>b. b \<noteq> [] \<and> n = b @ ''.'')"
proof
  assume "\<exists>b. b \<noteq> [] \<and> n = b @ ''.''"
  then obtain b where b: "b \<noteq> []" "n = b @ ''.''" by blast
  then obtain b' a where s: "split_last_dot n = Some (b', a)"
    using split_last_dot_None_iff[of n] by (cases "split_last_dot n") auto
  have n: "n = b' @ CHR ''.'' # a" "CHR ''.'' \<notin> set a" using split_last_dot_Some[OF s] by auto
  then have "a = []" using b by (cases a rule: rev_cases) auto
  then show "\<exists>b. b \<noteq> [] \<and> split_last_dot n = Some (b, [])" using s b n by auto
qed (use split_last_dot_Some in auto)

lemma stem_suffixed_neq:
  assumes "file_name p = Some n"
  shows "strict_stem p @ ''_transcoded.'' @ e \<noteq> n"
proof (cases "\<exists>b a. b \<noteq> [] \<and> a \<noteq> [] \<and> split_last_dot n = Some (b, a)")
  case True
  then obtain b a where ba: "b \<noteq> []" "a \<noteq> []" "split_last_dot n = Some (b, a)" by blast
  have "strict_stem p = b" using strict_stem_dotted[OF assms ba(3,1,2)] .
  moreover have "n = b @ CHR ''.'' # a" using split_last_dot_Some[OF ba(3)] by simp
  ultimately show ?thesis by simp
next
  case False
  then have "strict_stem p = n"
    by (auto simp: strict_stem_cases[OF assms] name_stem_def split: option.splits)
  then show ?thesis by simp
qed

section \<open>Lemmas on paths\<close>

lemma file_name_Some: "file_name p = Some n \<longleftrightarrow> (\<exists>q. p = q @ [Normal n])"
proof
  assume "file_name p = Some n"
  then have "p \<noteq> []" "last p = Normal n"
    by (auto simp: file_name_def split: if_splits) (cases "last p"; simp)
  then show "\<exists>q. p = q @ [Normal n]" by (metis append_butlast_last_id)
qed (auto simp: file_name_def)

lemma parent_snoc [simp]: "parent (q @ [Normal n]) = Some q"
  by (simp add: parent_def)

lemma path_join_Normal [simp]: "path_join q (Normal n # r) = q @ Normal n # r"
  by (simp add: path_join_def is_absolute_def)

lemma suffixed_output_snoc:
  "suffixed_output (q @ [Normal n]) e = q @ [Normal (strict_stem (q @ [Normal n]) @ ''_transcoded.'' @ e)]"
  by (simp add: suffixed_output_def)

lemma suffixed_output_neq:
  assumes "file_name p = Some n"
  shows "suffixed_output p e \<noteq> p"
proof -
  obtain q where p: "p = q @ [Normal n]" using assms file_name_Some by auto
  show ?thesis
    using stem_suffixed_neq[OF assms, of e] by (simp add: p suffixed_output_snoc)
qed

lemma safe_part_absolute: "list_all is_normal r \<Longrightarrow> path_join d r = d @ r"
  by (cases r) (auto simp: path_join_def is_absolute_def is_normal_def split: component.splits)

lemma trash_path_shape:
  "\<exists>r. r \<noteq> [] \<and> list_all is_normal r \<and> trash_path_for d lib p = d @ r"
proof -
  define f where "f = (\<lambda>rel :: path. let safe = filter is_normal rel in if safe = [] then [Normal ''recovered''] else safe)"
  have f: "f rel \<noteq> [] \<and> list_all is_normal (f rel)" for rel
    by (auto simp: f_def Let_def list_all_iff is_normal_def)
  have "\<exists>rel. trash_path_for d lib p = path_join d (f rel)"
    by (simp only: trash_path_for_def f_def Let_def) blast
  then show ?thesis using f safe_part_absolute by metis
qed

lemma trash_path_under:
  assumes "r \<noteq> []" "list_all is_normal r"
  shows "trash_path_for d lib (lib @ r) = d @ r"
  using assms
  by (simp add: trash_path_for_def strip_prefix_def Let_def safe_part_absolute list_all_iff
      filter_id_conv[THEN iffD2])

section \<open>Properties\<close>

text \<open>
  The name a job's output is derived from: for a path with a file name, \<open>strict_stem\<close> is
  the standard library's \<open>file_stem\<close>, except where the name ends in a dot, where the whole
  name is kept.
\<close>

lemma strict_stem_vs_file_stem:
  "file_name p = Some n \<Longrightarrow>
   Some (strict_stem p) =
     (if (\<exists>b. b \<noteq> [] \<and> n = b @ ''.'') then Some n else file_stem p)"
  by (simp add: strict_stem_cases ends_in_dot_iff file_stem_def) blast

lemma strict_stem_vs_file_stem_witness:
  "strict_stem [Normal ''Ep 1.11.mkv''] = ''Ep 1.11''"
proof -
  have "Some (strict_stem [Normal ''Ep 1.11.mkv'']) = Some ''Ep 1.11''"
    by (subst strict_stem_vs_file_stem[of _ "''Ep 1.11.mkv''"])
      (simp_all add: file_name_def file_stem_def name_stem_def append_eq_Cons_conv)
  then show ?thesis by simp
qed

text \<open>
  C7. Overwriting the source in place is never the outcome: whatever output the user asks for,
  or none, a successful \<open>resolve_output_path\<close> gives a path different from the input.
\<close>

theorem resolve_output_path_safe:
  "resolve_output_path input out_opt ext base = Inr out \<Longrightarrow> out \<noteq> input"
  using suffixed_output_neq
  by (auto simp: resolve_output_path_def paths_equivalent_def Let_def
      split: if_splits option.splits)

lemma resolve_output_path_safe_witness:
  "suffixed_output [RootDir, Normal ''a.mkv''] ''mkv'' \<noteq> [RootDir, Normal ''a.mkv'']"
  by (rule resolve_output_path_safe[where out_opt = None and ext = "''mkv''" and base = "[]"])
    (simp add: resolve_output_path_def file_name_def)

text \<open>
  C8. A retained original stays inside the trash directory, whatever the path of the file: the
  trash path is the directory followed by at least one ordinary component. Two different files
  under one library root get different trash paths, even when they share a file name.
\<close>

theorem trash_path_contained_and_injective:
  "(\<exists>r. r \<noteq> [] \<and> list_all is_normal r \<and> trash_path_for d lib p = d @ r)
   \<and> (a \<noteq> [] \<longrightarrow> b \<noteq> [] \<longrightarrow> list_all is_normal a \<longrightarrow> list_all is_normal b \<longrightarrow> a \<noteq> b \<longrightarrow>
        trash_path_for d lib (lib @ a) \<noteq> trash_path_for d lib (lib @ b))"
  by (simp add: trash_path_shape trash_path_under)

lemma trash_path_contained_and_injective_witness:
  "trash_path_for [RootDir, Normal ''trash''] [RootDir, Normal ''tv'']
     [RootDir, Normal ''tv'', Normal ''A'', Normal ''S01E01.mkv'']
   \<noteq> trash_path_for [RootDir, Normal ''trash''] [RootDir, Normal ''tv'']
     [RootDir, Normal ''tv'', Normal ''B'', Normal ''S01E01.mkv'']"
  using trash_path_contained_and_injective[of "[RootDir, Normal ''trash'']" "[RootDir, Normal ''tv'']" "[]"
      "[Normal ''A'', Normal ''S01E01.mkv'']" "[Normal ''B'', Normal ''S01E01.mkv'']"]
  by (simp add: is_normal_def)

end
