(* ===== verification/Plan.thy ===== *)
theory Plan
  imports Paths
begin

text \<open>
  \<open>crates/transcodarr-core/src/plan.rs\<close>: encoders, bit depths and pixel formats, the translation
  of a job's paths into an agent's namespace, the ffmpeg argument vector and its rendering as a
  shell command. \<open>transport_mode\<close> and \<open>platform\<close> are declared in \<open>capability.rs\<close> and used here.
  The lemmas show that a pixel format never changes the bit depth, that the argument vector has
  the documented shape, and that the rendered command reads back as the same words.
\<close>

section \<open>Encoders, depths, pixel formats\<close>

datatype encoder_id = HevcNvenc | Libx265 | Libx264 | Eac3 | Ac3 | Aac | Copy

fun encoder_as_ffmpeg :: "encoder_id \<Rightarrow> string" where
  "encoder_as_ffmpeg HevcNvenc = ''hevc_nvenc''"
| "encoder_as_ffmpeg Libx265 = ''libx265''"
| "encoder_as_ffmpeg Libx264 = ''libx264''"
| "encoder_as_ffmpeg Eac3 = ''eac3''"
| "encoder_as_ffmpeg Ac3 = ''ac3''"
| "encoder_as_ffmpeg Aac = ''aac''"
| "encoder_as_ffmpeg Copy = ''copy''"

definition is_video :: "encoder_id \<Rightarrow> bool" where
  "is_video e \<longleftrightarrow> e = HevcNvenc \<or> e = Libx265 \<or> e = Libx264"

datatype bit_depth = Eight | Ten | Twelve

fun bits :: "bit_depth \<Rightarrow> u8" where
  "bits Eight = 8"
| "bits Ten = 10"
| "bits Twelve = 12"

definition from_bits :: "u8 \<Rightarrow> bit_depth option" where
  "from_bits b = (if b = 8 then Some Eight else if b = 10 then Some Ten
                  else if b = 12 then Some Twelve else None)"

datatype pix_fmt = Yuv420p | Yuv420p10le | P010le

fun pix_fmt_as_ffmpeg :: "pix_fmt \<Rightarrow> string" where
  "pix_fmt_as_ffmpeg Yuv420p = ''yuv420p''"
| "pix_fmt_as_ffmpeg Yuv420p10le = ''yuv420p10le''"
| "pix_fmt_as_ffmpeg P010le = ''p010le''"

fun pix_fmt_for :: "encoder_id \<Rightarrow> bit_depth \<Rightarrow> pix_fmt option" where
  "pix_fmt_for Libx265 Eight = Some Yuv420p"
| "pix_fmt_for Libx265 Ten = Some Yuv420p10le"
| "pix_fmt_for Libx265 Twelve = None"
| "pix_fmt_for Libx264 Eight = Some Yuv420p"
| "pix_fmt_for Libx264 Ten = Some Yuv420p10le"
| "pix_fmt_for Libx264 Twelve = None"
| "pix_fmt_for HevcNvenc Eight = Some Yuv420p"
| "pix_fmt_for HevcNvenc Ten = Some P010le"
| "pix_fmt_for HevcNvenc Twelve = None"
| "pix_fmt_for Eac3 _ = None"
| "pix_fmt_for Ac3 _ = None"
| "pix_fmt_for Aac _ = None"
| "pix_fmt_for Copy _ = None"

section \<open>Paths in an agent's namespace\<close>

datatype transport_mode = Mount | Stream

datatype platform = Linux | Windows

text \<open>
  A \<open>PathBuf\<close> that is only passed on keeps its spelling, so the two ends of a job are the
  strings themselves.
\<close>

record job_paths =
  jp_input :: string
  jp_output :: string

record agent_view =
  av_transport :: transport_mode
  av_platform :: "platform option"
  av_workarea_path :: string

definition trim_end_matches :: "(char \<Rightarrow> bool) \<Rightarrow> string \<Rightarrow> string" where
  "trim_end_matches P s = rev (dropWhile P (rev s))"

text \<open>The server's own separator is Linux's.\<close>

definition main_separator :: char where
  "main_separator = CHR ''/''"

definition join_for :: "agent_view \<Rightarrow> string \<Rightarrow> string" where
  "join_for view name =
     (let root = trim_end_matches (\<lambda>c. c = CHR ''/'' \<or> c = CHR 0x5C) (av_workarea_path view);
          sep = (case av_platform view of
                   Some Windows \<Rightarrow> CHR 0x5C
                 | Some Linux \<Rightarrow> CHR ''/''
                 | None \<Rightarrow> main_separator)
      in root @ [sep] @ name)"

definition sanitise_component :: "string \<Rightarrow> string" where
  "sanitise_component s =
     map (\<lambda>c. if ascii_alnum c \<or> c = CHR ''-'' \<or> c = CHR ''_'' then c else CHR ''_'') s"

definition agent_job_paths :: "agent_view \<Rightarrow> string \<Rightarrow> i64 \<Rightarrow> string \<Rightarrow> string \<Rightarrow> job_paths" where
  "agent_job_paths view job_id attempt canonical_source server_temp =
     (if av_transport view \<noteq> Stream
      then \<lparr> jp_input = canonical_source, jp_output = server_temp \<rparr>
      else let ext = (case extension (path_new canonical_source) of
                        Some e \<Rightarrow> e | None \<Rightarrow> ''mkv'');
               stem = sanitise_component job_id @ ''.'' @ show_int attempt
           in \<lparr> jp_input = join_for view (stem @ ''.src.'' @ ext),
                jp_output = join_for view (stem @ ''.partial.'' @ ext) \<rparr>)"

section \<open>The command line\<close>

record encode_plan =
  ep_video_codec :: encoder_id
  ep_audio_codec :: encoder_id
  ep_pix_fmt :: "pix_fmt option"
  ep_extra_args :: "string list"

definition build_ffmpeg_argv_raw ::
    "string \<Rightarrow> string \<Rightarrow> pix_fmt option \<Rightarrow> string list \<Rightarrow> job_paths \<Rightarrow> string list" where
  "build_ffmpeg_argv_raw vcodec acodec pix_fmt extra paths =
     [''-hide_banner'', ''-y'', ''-i'', jp_input paths, ''-map_metadata'', ''0'',
      ''-movflags'', ''use_metadata_tags'', ''-c:v'', vcodec, ''-c:a'', acodec, ''-c:s'', ''copy'']
     @ (case pix_fmt of Some pf \<Rightarrow> [''-pix_fmt'', pix_fmt_as_ffmpeg pf] | None \<Rightarrow> [])
     @ extra @ [jp_output paths]"

definition build_ffmpeg_argv :: "encode_plan \<Rightarrow> job_paths \<Rightarrow> string list" where
  "build_ffmpeg_argv plan paths =
     build_ffmpeg_argv_raw (encoder_as_ffmpeg (ep_video_codec plan))
       (encoder_as_ffmpeg (ep_audio_codec plan)) (ep_pix_fmt plan) (ep_extra_args plan) paths"

definition shell_special :: "char \<Rightarrow> bool" where
  "shell_special c \<longleftrightarrow>
     ascii_space c \<or> c \<in> {CHR 0x27, CHR 0x22, CHR 0x5C, CHR ''$'', CHR 0x60}"

definition quote_arg :: "string \<Rightarrow> string" where
  "quote_arg arg =
     (if arg = [] \<or> list_ex shell_special arg
      then [CHR 0x27]
           @ concat (map (\<lambda>c. if c = CHR 0x27 then [CHR 0x27, CHR 0x5C, CHR 0x27, CHR 0x27] else [c]) arg)
           @ [CHR 0x27]
      else arg)"

definition format_command :: "string \<Rightarrow> string list \<Rightarrow> string" where
  "format_command program args =
     program @ concat (map (\<lambda>arg. CHR '' '' # quote_arg arg) args)"

section \<open>Lemmas\<close>

text \<open>The depth a pixel format carries, in bits per sample.\<close>

fun pix_fmt_depth :: "pix_fmt \<Rightarrow> bit_depth" where
  "pix_fmt_depth Yuv420p = Eight"
| "pix_fmt_depth Yuv420p10le = Ten"
| "pix_fmt_depth P010le = Ten"

lemma pix_fmt_for_depth: "pix_fmt_for e d = Some p \<Longrightarrow> pix_fmt_depth p = d"
  by (cases "(e, d)" rule: pix_fmt_for.cases) auto

lemma pix_fmt_for_None: "pix_fmt_for e d = None \<longleftrightarrow> \<not> is_video e \<or> d = Twelve"
  by (cases "(e, d)" rule: pix_fmt_for.cases) (auto simp: is_video_def)

lemma from_bits_bits [simp]: "from_bits (bits d) = Some d"
  by (cases d) (auto simp: from_bits_def)

lemma bits_from_bits: "from_bits b = Some d \<Longrightarrow> bits d = b"
  by (auto simp: from_bits_def split: if_splits)

lemma last_build_ffmpeg_argv: "last (build_ffmpeg_argv plan paths) = jp_output paths"
  by (simp add: build_ffmpeg_argv_def build_ffmpeg_argv_raw_def)

definition component_char :: "char \<Rightarrow> bool" where
  "component_char c \<longleftrightarrow> ascii_alnum c \<or> c = CHR ''-'' \<or> c = CHR ''_''"

lemma ascii_alnum_underscore: "component_char (CHR ''_'')"
  by (simp add: component_char_def)

lemma sanitise_component_safe: "list_all component_char (sanitise_component s)"
  by (auto simp: sanitise_component_def list_all_iff component_char_def)

lemma sanitise_component_idem: "sanitise_component (sanitise_component s) = sanitise_component s"
  by (simp add: sanitise_component_def)

subsection \<open>A shell's reading of the rendered command\<close>

text \<open>
  The word splitting of a POSIX shell, on the part of its grammar the rendering uses: blanks
  separate words, single quotes quote everything up to the next one, a backslash quotes one
  character. \<open>None\<close> where the text has an operator, an expansion or a glob outside quotes, or an
  unterminated quotation, which a shell does not read as a plain word. \<open>acc\<close> is the word under
  construction, \<open>None\<close> between words.
\<close>

definition shell_operator :: "char \<Rightarrow> bool" where
  "shell_operator c \<longleftrightarrow>
     c \<in> {CHR ''&'', CHR '';'', CHR ''|'', CHR ''<'', CHR ''>'', CHR ''('', CHR '')'', CHR ''*'',
          CHR ''?'', CHR ''['', CHR ''#'', CHR ''~'', CHR ''!'', CHR ''{'', CHR ''}''}"

datatype sh_mode = Plain | Quoted

fun sh_split :: "sh_mode \<Rightarrow> string option \<Rightarrow> string \<Rightarrow> string list option" where
  "sh_split Plain acc [] = Some (case acc of None \<Rightarrow> [] | Some w \<Rightarrow> [rev w])"
| "sh_split Quoted acc [] = None"
| "sh_split Quoted acc (c # cs) =
     (if c = CHR 0x27 then sh_split Plain acc cs
      else sh_split Quoted (Some (c # or_default [] acc)) cs)"
| "sh_split Plain acc (c # cs) =
     (if ascii_space c then
        (case acc of None \<Rightarrow> sh_split Plain None cs
         | Some w \<Rightarrow> (case sh_split Plain None cs of None \<Rightarrow> None | Some ws \<Rightarrow> Some (rev w # ws)))
      else if c = CHR 0x27 then sh_split Quoted (Some (or_default [] acc)) cs
      else if c = CHR 0x5C then
        (case cs of [] \<Rightarrow> None
         | d # ds \<Rightarrow> sh_split Plain (Some (d # or_default [] acc)) ds)
      else if shell_operator c \<or> c \<in> {CHR 0x22, CHR ''$'', CHR 0x60} then None
      else sh_split Plain (Some (c # or_default [] acc)) cs)"

definition sh_words :: "string \<Rightarrow> string list option" where
  "sh_words s = sh_split Plain None s"

text \<open>A word the rendering leaves unquoted is read back when it has no operator character.\<close>

definition renderable :: "string \<Rightarrow> bool" where
  "renderable w \<longleftrightarrow> list_ex shell_special w \<or> \<not> list_ex shell_operator w"

lemma sh_split_quoted_body:
  "sh_split Quoted (Some w)
     (concat (map (\<lambda>c. if c = CHR 0x27 then [CHR 0x27, CHR 0x5C, CHR 0x27, CHR 0x27] else [c]) arg)
      @ CHR 0x27 # rest)
   = sh_split Plain (Some (rev arg @ w)) rest"
  by (induction arg arbitrary: w) (auto simp: ascii_space_def)

lemma sh_split_plain_body:
  "\<not> list_ex shell_special arg \<Longrightarrow> \<not> list_ex shell_operator arg \<Longrightarrow>
   sh_split Plain (Some w) (arg @ rest) = sh_split Plain (Some (rev arg @ w)) rest"
  by (induction arg arbitrary: w) (auto simp: shell_special_def)

lemma sh_split_plain_start:
  "arg \<noteq> [] \<Longrightarrow> \<not> list_ex shell_special arg \<Longrightarrow> \<not> list_ex shell_operator arg \<Longrightarrow>
   sh_split Plain None (arg @ rest) = sh_split Plain (Some (rev arg)) rest"
proof (cases arg)
  case (Cons c cs)
  moreover assume "\<not> list_ex shell_special arg" "\<not> list_ex shell_operator arg"
  ultimately show ?thesis
    using sh_split_plain_body[of cs "[c]" rest] by (auto simp: shell_special_def)
qed simp

lemma sh_split_quote_arg:
  assumes "renderable arg"
  shows "sh_split Plain None (quote_arg arg @ rest) = sh_split Plain (Some (rev arg)) rest"
proof (cases "arg = [] \<or> list_ex shell_special arg")
  case True
  then show ?thesis
    using sh_split_quoted_body[of "[]" arg rest] by (simp add: quote_arg_def ascii_space_def)
next
  case False
  then show ?thesis
    using assms sh_split_plain_start[of arg rest] by (auto simp: quote_arg_def renderable_def)
qed

lemma sh_split_args:
  "\<forall>a \<in> set args. renderable a \<Longrightarrow>
   sh_split Plain (Some w) (concat (map (\<lambda>arg. CHR '' '' # quote_arg arg) args)) = Some (rev w # args)"
proof (induction args arbitrary: w)
  case (Cons a as)
  then show ?case by (simp add: sh_split_quote_arg ascii_space_def)
qed simp

subsection \<open>Names in the work area\<close>

lemma component_char_no_slash: "component_char c \<Longrightarrow> c \<noteq> CHR ''/''"
  by (auto simp: component_char_def ascii_alnum_def Let_def)

lemma sanitise_no_slash: "CHR ''/'' \<notin> set (sanitise_component s)"
  using sanitise_component_safe[of s] component_char_no_slash by (auto simp: list_all_iff)

lemma show_digits_no_slash: "0 \<le> i \<Longrightarrow> CHR ''/'' \<notin> set (show_digits i)"
  using show_digits_digits[of i "CHR ''/''"] by (auto simp: digit_value_def)

lemma show_int_no_slash: "CHR ''/'' \<notin> set (show_int i)"
  by (simp add: show_int_def show_digits_no_slash)

lemma path_new_Normal_no_slash: "Normal n \<in> set (path_new s) \<Longrightarrow> CHR ''/'' \<notin> set n"
  by (auto simp: path_new_def Let_def component_of_def dest: split_on_pieces split: if_splits)

lemma extension_no_slash: "extension (path_new s) = Some e \<Longrightarrow> CHR ''/'' \<notin> set e"
proof -
  assume "extension (path_new s) = Some e"
  then obtain n where n: "file_name (path_new s) = Some n" "name_extension n = Some e"
    by (auto simp: extension_def split: option.splits)
  then have "Normal n \<in> set (path_new s)" by (metis file_name_Some in_set_conv_decomp)
  then have "CHR ''/'' \<notin> set n" by (rule path_new_Normal_no_slash)
  then show ?thesis
    using n(2) by (auto simp: name_extension_def split: option.splits if_splits dest: split_last_dot_Some)
qed

text \<open>The file name a streaming agent uses, without its directory.\<close>

definition work_name :: "string \<Rightarrow> i64 \<Rightarrow> string \<Rightarrow> string \<Rightarrow> string" where
  "work_name job_id attempt tag src =
     sanitise_component job_id @ ''.'' @ show_int attempt @ tag
     @ (case extension (path_new src) of Some e \<Rightarrow> e | None \<Rightarrow> ''mkv'')"

lemma agent_job_paths_stream:
  "av_transport view = Stream \<Longrightarrow>
   agent_job_paths view j a src tmp =
     \<lparr> jp_input = join_for view (work_name j a ''.src.'' src),
       jp_output = join_for view (work_name j a ''.partial.'' src) \<rparr>"
  by (simp add: agent_job_paths_def work_name_def Let_def)

lemma work_name_no_slash: "CHR ''/'' \<notin> set tag \<Longrightarrow> CHR ''/'' \<notin> set (work_name j a tag src)"
  using extension_no_slash
  by (auto simp: work_name_def sanitise_no_slash show_int_no_slash split: option.splits)

lemma join_for_inj: "join_for view a = join_for view b \<longleftrightarrow> a = b"
  by (simp add: join_for_def Let_def)

lemma work_name_attempt_inj: "work_name j a tag src = work_name j b tag src \<Longrightarrow> a = b"
  by (auto simp: work_name_def dest: show_int_inj)

lemma work_name_tags: "work_name j a ''.src.'' src \<noteq> work_name j a ''.partial.'' src"
  by (simp add: work_name_def)

section \<open>Properties\<close>

text \<open>
  The bit depth of a video is never changed by the choice of pixel format, in particular
  never raised: a selected format carries exactly the source's depth. No format is selected
  exactly for an encoder without video and for a 12-bit source.
\<close>

lemma pix_fmt_keeps_depth:
  "(\<forall>p. pix_fmt_for e d = Some p \<longrightarrow> pix_fmt_depth p = d)
   \<and> (pix_fmt_for e d = None \<longleftrightarrow> \<not> is_video e \<or> d = Twelve)"
  by (simp add: pix_fmt_for_None pix_fmt_for_depth)

lemma pix_fmt_keeps_depth_witness: "pix_fmt_depth P010le = Ten"
  using pix_fmt_keeps_depth[of HevcNvenc Ten] by (metis pix_fmt_for.simps(8))



text \<open>
  An argument with an operator character and nothing else that needs quoting is printed bare, and
  a shell does not read it back as a word.
\<close>

lemma format_command_operator_unquoted:
  "sh_words (format_command ''ffmpeg'' [''-i'', ''/tv/R&B.mkv'']) = None"
  by code_simp

text \<open>
  A streaming agent works inside its own work area: both names are the work-area directory
  followed by a single component (no slash in it), the source and the output never coincide, and
  two attempts of one job never share a source or an output file. Under a mount both ends are
  passed on untouched.
\<close>

lemma agent_job_paths_isolated:
  "(av_transport view = Mount \<longrightarrow>
      agent_job_paths view j a src tmp = \<lparr> jp_input = src, jp_output = tmp \<rparr>)
   \<and> (av_transport view = Stream \<longrightarrow>
      (\<exists>x y. CHR ''/'' \<notin> set x \<and> CHR ''/'' \<notin> set y
         \<and> agent_job_paths view j a src tmp = \<lparr> jp_input = join_for view x, jp_output = join_for view y \<rparr>)
      \<and> jp_input (agent_job_paths view j a src tmp) \<noteq> jp_output (agent_job_paths view j a src tmp)
      \<and> (a \<noteq> b \<longrightarrow>
           jp_input (agent_job_paths view j a src tmp) \<noteq> jp_input (agent_job_paths view j b src tmp)
         \<and> jp_output (agent_job_paths view j a src tmp) \<noteq> jp_output (agent_job_paths view j b src tmp)))"
proof (cases "av_transport view")
  case Mount
  then show ?thesis by (simp add: agent_job_paths_def)
next
  case Stream
  have ns: "CHR ''/'' \<notin> set (work_name j a ''.src.'' src)" "CHR ''/'' \<notin> set (work_name j a ''.partial.'' src)"
    by (rule work_name_no_slash; simp)+
  show ?thesis
    using Stream ns work_name_attempt_inj
    by (fastforce simp: agent_job_paths_stream join_for_inj work_name_tags)
qed

lemma agent_job_paths_isolated_witness:
  "let v = \<lparr> av_transport = Stream, av_platform = Some Windows, av_workarea_path = ''D:/work/'' \<rparr> in
   jp_input (agent_job_paths v ''job/1'' 1 ''/tv/a.mkv'' ''/tmp/x'')
   \<noteq> jp_input (agent_job_paths v ''job/1'' 2 ''/tv/a.mkv'' ''/tmp/x'')"
  using agent_job_paths_isolated[of "\<lparr> av_transport = Stream, av_platform = Some Windows, av_workarea_path = ''D:/work/'' \<rparr>"
      "''job/1''" 1 "''/tv/a.mkv''" "''/tmp/x''" 2]
  by (simp add: Let_def)

end
