(* ===== verification/Probe.thy ===== *)
theory Probe
  imports Plan
begin

text \<open>
  \<open>crates/transcodarr-core/src/probe.rs\<close>: the typed form of ffprobe's report and its conversion
  from the wire shape. Deserialising the JSON text itself is done by a library, so
  \<open>parse_ffprobe_json\<close> takes the deserialiser as an argument; everything after it is the code's
  own conversion, including the standard library's reading of decimal numbers.
\<close>

section \<open>Data\<close>

datatype stream_kind = SK_Video | SK_Audio | SK_Subtitle | SK_Other

record stream_info =
  si_index :: u32
  si_kind :: stream_kind
  si_codec :: string
  si_profile :: "string option"
  si_pix_fmt :: "string option"
  si_width :: "u32 option"
  si_height :: "u32 option"
  si_bit_depth :: "u8 option"
  si_channels :: "u16 option"
  si_channel_layout :: "string option"
  si_bit_rate_bps :: "u64 option"
  si_language :: "string option"
  si_title :: "string option"
  si_is_default :: bool
  si_is_forced :: bool

record media_probe =
  mp_container :: string
  mp_duration_us :: "u64 option"
  mp_bit_rate_bps :: "u64 option"
  mp_size_bytes :: "u64 option"
  mp_streams :: "stream_info list"

definition streams_of :: "stream_kind \<Rightarrow> media_probe \<Rightarrow> stream_info list" where
  "streams_of k p = filter (\<lambda>s. si_kind s = k) (mp_streams p)"

definition primary_video :: "media_probe \<Rightarrow> stream_info option" where
  "primary_video p = (case streams_of SK_Video p of [] \<Rightarrow> None | s # _ \<Rightarrow> Some s)"

definition audio_count :: "media_probe \<Rightarrow> nat" where
  "audio_count p = length (streams_of SK_Audio p)"

definition subtitle_count :: "media_probe \<Rightarrow> nat" where
  "subtitle_count p = length (streams_of SK_Subtitle p)"

definition bit_depth_of :: "string option \<Rightarrow> u8 option \<Rightarrow> bit_depth" where
  "bit_depth_of pix bits_per_raw_sample =
     (case bits_per_raw_sample of
        Some b \<Rightarrow> if b \<le> 8 then Eight else if b \<le> 10 then Ten else Twelve
      | None \<Rightarrow>
          (case pix of
             Some p \<Rightarrow> if contains p ''12'' then Twelve
                       else if contains p ''10'' \<or> contains p ''p010'' then Ten else Eight
           | None \<Rightarrow> Eight))"

section \<open>Wire shapes\<close>

record raw_format =
  rf_format_name :: string
  rf_duration :: "string option"
  rf_bit_rate :: "string option"
  rf_size :: "string option"

record raw_stream =
  rs_index :: u32
  rs_codec_type :: "string option"
  rs_codec_name :: string
  rs_profile :: "string option"
  rs_pix_fmt :: "string option"
  rs_width :: "u32 option"
  rs_height :: "u32 option"
  rs_bits_per_raw_sample :: "string option"
  rs_channels :: "u16 option"
  rs_channel_layout :: "string option"
  rs_bit_rate :: "string option"
  rs_tag_language :: "string option"
  rs_tag_title :: "string option"
  rs_disposition_default :: u8
  rs_disposition_forced :: u8

record raw_probe =
  rp_format :: raw_format
  rp_streams :: "raw_stream list"

definition parse_num :: "nat \<Rightarrow> string option \<Rightarrow> nat option" where
  "parse_num bound s = (case s of None \<Rightarrow> None | Some v \<Rightarrow> parse_unsigned bound v)"

definition parse_u8 :: "string option \<Rightarrow> u8 option" where
  "parse_u8 s = map_option of_nat (parse_num 256 s)"

definition parse_u64 :: "string option \<Rightarrow> u64 option" where
  "parse_u64 s = map_option of_nat (parse_num 18446744073709551616 s)"

subsection \<open>Decimal numbers\<close>

text \<open>
  \<open>d.parse::<f64>()\<close>: an optional sign, then \<open>inf\<close>, \<open>infinity\<close> or \<open>nan\<close> in any case, or digits
  with an optional point and an optional exponent, at least one digit around the point.
\<close>

datatype float_value = Finite f64 | Infinite bool | NotANumber

fun take_digits :: "int \<Rightarrow> nat \<Rightarrow> string \<Rightarrow> int \<times> nat \<times> string" where
  "take_digits acc n [] = (acc, n, [])"
| "take_digits acc n (c # cs) =
     (case digit_value c of
        Some d \<Rightarrow> take_digits (10 * acc + int d) (Suc n) cs
      | None \<Rightarrow> (acc, n, c # cs))"

definition split_sign :: "string \<Rightarrow> bool \<times> string" where
  "split_sign s =
     (case s of
        c # cs \<Rightarrow> if c = CHR ''-'' then (True, cs) else if c = CHR ''+'' then (False, cs) else (False, s)
      | [] \<Rightarrow> (False, s))"

definition pow10 :: "int \<Rightarrow> rat" where
  "pow10 e = (if 0 \<le> e then 10 ^ nat e else 1 / 10 ^ nat (- e))"

definition parse_exponent :: "string \<Rightarrow> int option" where
  "parse_exponent s =
     (case s of
        [] \<Rightarrow> Some 0
      | c # cs \<Rightarrow>
          if c = CHR ''e'' \<or> c = CHR ''E'' then
            (let (neg, ds) = split_sign cs; (v, n, rest) = take_digits 0 0 ds in
             if n = 0 \<or> rest \<noteq> [] then None else Some (if neg then - v else v))
          else None)"

definition f64_overflow :: rat where
  "f64_overflow = 2 ^ 1024 - 2 ^ 970"

definition parse_f64 :: "string \<Rightarrow> float_value option" where
  "parse_f64 s =
     (let (neg, body) = split_sign s; l = to_lower body in
      if l = ''inf'' \<or> l = ''infinity'' then Some (Infinite neg)
      else if l = ''nan'' then Some NotANumber
      else
        let (whole, wn, rest) = take_digits 0 0 body;
            (mant, dn, rest2) =
              (case rest of
                 c # cs \<Rightarrow> if c = CHR ''.'' then take_digits whole 0 cs else (whole, 0, rest)
               | [] \<Rightarrow> (whole, 0, []))
        in if wn + dn = 0 then None
           else (case parse_exponent rest2 of
                   None \<Rightarrow> None
                 | Some e \<Rightarrow>
                     (let v = of_int mant * pow10 (e - int dn) in
                      if f64_overflow \<le> v then Some (Infinite neg)
                      else Some (Finite (if neg then - f64_round v else f64_round v)))))"

text \<open>\<open>(secs * 1_000_000.0).round() as u64\<close>: half away from zero, then the saturating cast.\<close>

definition round_half_away :: "f64 \<Rightarrow> f64" where
  "round_half_away x = (if 0 \<le> x then of_int \<lfloor>x + 1 / 2\<rfloor> else - of_int \<lfloor>- x + 1 / 2\<rfloor>)"

fun micros_of :: "float_value \<Rightarrow> u64" where
  "micros_of (Finite secs) = u64_of_f64 (round_half_away (f64_mul secs 1000000))"
| "micros_of (Infinite neg) = (if neg then 0 else - 1)"
| "micros_of NotANumber = 0"

subsection \<open>The conversion\<close>

definition kind_of_codec_type :: "string option \<Rightarrow> stream_kind" where
  "kind_of_codec_type t =
     (if t = Some ''video'' then SK_Video else if t = Some ''audio'' then SK_Audio
      else if t = Some ''subtitle'' then SK_Subtitle else SK_Other)"

definition stream_of_raw :: "raw_stream \<Rightarrow> stream_info" where
  "stream_of_raw s =
     \<lparr> si_index = rs_index s,
       si_kind = kind_of_codec_type (rs_codec_type s),
       si_codec = rs_codec_name s,
       si_profile = rs_profile s,
       si_pix_fmt = rs_pix_fmt s,
       si_width = rs_width s,
       si_height = rs_height s,
       si_bit_depth = parse_u8 (rs_bits_per_raw_sample s),
       si_channels = rs_channels s,
       si_channel_layout = rs_channel_layout s,
       si_bit_rate_bps = parse_u64 (rs_bit_rate s),
       si_language = rs_tag_language s,
       si_title = rs_tag_title s,
       si_is_default = (rs_disposition_default s = 1),
       si_is_forced = (rs_disposition_forced s = 1) \<rparr>"

definition parse_ffprobe_json ::
    "(string \<Rightarrow> string + raw_probe) \<Rightarrow> string \<Rightarrow> core_error + media_probe" where
  "parse_ffprobe_json from_json raw =
     (case from_json raw of
        Inl e \<Rightarrow> Inl (MalformedProbe e)
      | Inr p \<Rightarrow>
          Inr \<lparr> mp_container = rf_format_name (rp_format p),
                mp_duration_us =
                  map_option micros_of (Option.bind (rf_duration (rp_format p)) parse_f64),
                mp_bit_rate_bps = parse_u64 (rf_bit_rate (rp_format p)),
                mp_size_bytes = parse_u64 (rf_size (rp_format p)),
                mp_streams = map stream_of_raw (rp_streams p) \<rparr>)"

section \<open>Lemmas\<close>

lemma primary_video_in: "primary_video p = Some s \<Longrightarrow> s \<in> set (mp_streams p) \<and> si_kind s = SK_Video"
proof -
  assume "primary_video p = Some s"
  then have "s \<in> set (streams_of SK_Video p)"
    by (auto simp: primary_video_def split: list.splits)
  then show ?thesis by (simp add: streams_of_def)
qed

lemma primary_video_None: "primary_video p = None \<longleftrightarrow> (\<forall>s \<in> set (mp_streams p). si_kind s \<noteq> SK_Video)"
proof -
  have "primary_video p = None \<longleftrightarrow> streams_of SK_Video p = []"
    by (simp add: primary_video_def split: list.splits)
  then show ?thesis by (simp add: streams_of_def filter_empty_conv)
qed

lemma bit_depth_of_eight:
  "bit_depth_of (Some p) None = Eight \<longleftrightarrow> \<not> contains p ''12'' \<and> \<not> contains p ''10''"
proof -
  have "contains p ''p010'' \<Longrightarrow> contains p ''10''"
    by (rule contains_trans[where p = "''p010''"]) (simp_all add: contains_def, code_simp)
  then show ?thesis by (auto simp: bit_depth_of_def)
qed

text \<open>
  A missing or unreadable field never fails the parse: only the deserialiser does.
\<close>

lemma parse_ffprobe_json_error:
  "(\<exists>e. parse_ffprobe_json from_json raw = Inl e) \<longleftrightarrow> (\<exists>e. from_json raw = Inl e)"
  by (auto simp: parse_ffprobe_json_def split: sum.splits)

lemma parse_ffprobe_json_streams:
  "parse_ffprobe_json from_json raw = Inr m \<Longrightarrow> from_json raw = Inr p \<Longrightarrow>
   length (mp_streams m) = length (rp_streams p)"
  by (auto simp: parse_ffprobe_json_def)

end
