(* ===== verification/Facts.thy ===== *)
theory Facts
  imports Probe
begin

text \<open>
  \<open>crates/transcodarr-core/src/facts.rs\<close>: size buckets, the facts a decision may use, how they are
  derived from a probe, and the content signature. The hash of the signature is a library's and is
  an argument here. The lemmas show that the buckets are canonical spellings ordered by the
  thresholds, and that the signed text determines every signed fact.
\<close>

section \<open>Size buckets\<close>

datatype size_bucket = Small | Medium | Large

fun size_bucket_as_str :: "size_bucket \<Rightarrow> string" where
  "size_bucket_as_str Small = ''Small''"
| "size_bucket_as_str Medium = ''Medium''"
| "size_bucket_as_str Large = ''Large''"

definition size_bucket_parse :: "string \<Rightarrow> size_bucket option" where
  "size_bucket_parse s =
     (if s = ''Small'' then Some Small else if s = ''Medium'' then Some Medium
      else if s = ''Large'' then Some Large else None)"

interpretation size_bucket_spelling: canonical_spelling size_bucket_as_str size_bucket_parse
proof
  show "size_bucket_parse (size_bucket_as_str e) = Some e" for e
    by (cases e) (auto simp: size_bucket_parse_def)
  show "size_bucket_parse s = Some e \<Longrightarrow> size_bucket_as_str e = s" for s e
    by (auto simp: size_bucket_parse_def split: if_splits)
qed

record size_thresholds =
  st_small_max_bytes :: u64
  st_medium_max_bytes :: u64

definition default_size_thresholds :: size_thresholds where
  "default_size_thresholds =
     \<lparr> st_small_max_bytes = 4 * 1024 * 1024 * 1024, st_medium_max_bytes = 20 * 1024 * 1024 * 1024 \<rparr>"

definition size_bucket_for :: "u64 \<Rightarrow> size_thresholds \<Rightarrow> size_bucket" where
  "size_bucket_for bytes t =
     (if bytes < st_small_max_bytes t then Small
      else if bytes < st_medium_max_bytes t then Medium else Large)"

section \<open>Facts\<close>

record file_facts =
  ff_container :: string
  ff_duration_us :: "u64 option"
  ff_size_bytes :: u64
  ff_bit_rate_bps :: "u64 option"
  ff_video_codec :: "string option"
  ff_video_profile :: "string option"
  ff_video_bit_depth :: "bit_depth option"
  ff_video_pix_fmt :: "string option"
  ff_width :: "u32 option"
  ff_height :: "u32 option"
  ff_is_hdr :: bool
  ff_is_dovi :: bool
  ff_dovi_profile :: "u8 option"
  ff_has_object_audio :: bool
  ff_audio_codecs :: "string list"
  ff_audio_track_count :: nat
  ff_subtitle_track_count :: nat

definition audio_needing_conversion :: "string list" where
  "audio_needing_conversion =
     [''truehd'', ''dts'', ''flac'', ''pcm'', ''mlp'', ''opus'', ''pcm_s16le'', ''pcm_s24le'']"

definition hdr_transfers :: "string list" where
  "hdr_transfers = [''smpte2084'', ''arib-std-b67'']"

definition is_hdr_of :: "stream_info option \<Rightarrow> bool" where
  "is_hdr_of video \<longleftrightarrow>
     (case Option.bind video si_profile of
        Some p \<Rightarrow> list_ex (\<lambda>t. contains (to_lower p) t) hdr_transfers | None \<Rightarrow> False)
   \<or> (case Option.bind video si_pix_fmt of
        Some p \<Rightarrow> list_ex (\<lambda>t. contains p t) hdr_transfers | None \<Rightarrow> False)"

fun find_map :: "('a \<Rightarrow> 'b option) \<Rightarrow> 'a list \<Rightarrow> 'b option" where
  "find_map f [] = None"
| "find_map f (x # xs) = (case f x of Some y \<Rightarrow> Some y | None \<Rightarrow> find_map f xs)"

definition dovi_profile_of :: "stream_info option \<Rightarrow> u8 option" where
  "dovi_profile_of video =
     (case Option.bind video si_profile of
        None \<Rightarrow> None
      | Some p \<Rightarrow>
          (let lp = to_lower p in
           if contains lp ''dvhe'' \<or> contains lp ''dolby vision'' \<or> contains lp ''dvh1''
           then (case find_map (\<lambda>tok. parse_u8 (Some tok)) (split_whitespace lp) of
                   Some n \<Rightarrow> Some n | None \<Rightarrow> Some 0)
           else None))"

definition has_object_audio_of :: "media_probe \<Rightarrow> bool" where
  "has_object_audio_of probe =
     list_ex (\<lambda>s. let t = to_lower (or_default [] (si_title s)) in
                contains t ''atmos'' \<or> contains t ''dts:x'' \<or> contains t ''dts-x'')
       (streams_of SK_Audio probe)"

definition derive_facts :: "media_probe \<Rightarrow> u64 \<Rightarrow> file_facts" where
  "derive_facts probe size_bytes =
     (let video = primary_video probe;
          audio_codecs = map (\<lambda>s. to_lower (si_codec s)) (streams_of SK_Audio probe);
          dovi_profile = dovi_profile_of video
      in \<lparr> ff_container = mp_container probe,
           ff_duration_us = mp_duration_us probe,
           ff_size_bytes = size_bytes,
           ff_bit_rate_bps = mp_bit_rate_bps probe,
           ff_video_codec = map_option (\<lambda>v. to_lower (si_codec v)) video,
           ff_video_profile = Option.bind video si_profile,
           ff_video_bit_depth = map_option (\<lambda>v. bit_depth_of (si_pix_fmt v) (si_bit_depth v)) video,
           ff_video_pix_fmt = Option.bind video si_pix_fmt,
           ff_width = Option.bind video si_width,
           ff_height = Option.bind video si_height,
           ff_is_hdr = is_hdr_of video,
           ff_is_dovi = (dovi_profile \<noteq> None),
           ff_dovi_profile = dovi_profile,
           ff_has_object_audio = has_object_audio_of probe,
           ff_audio_codecs = audio_codecs,
           ff_audio_track_count = length audio_codecs,
           ff_subtitle_track_count = subtitle_count probe \<rparr>)"

section \<open>The content signature\<close>

fun debug_bit_depth :: "bit_depth \<Rightarrow> string" where
  "debug_bit_depth Eight = ''Eight''"
| "debug_bit_depth Ten = ''Ten''"
| "debug_bit_depth Twelve = ''Twelve''"

definition sig_material :: "file_facts \<Rightarrow> string" where
  "sig_material f =
     ff_container f @ ''|''
     @ debug_opt debug_str (ff_video_codec f) @ ''|''
     @ debug_opt debug_str (ff_video_profile f) @ ''|''
     @ debug_opt debug_bit_depth (ff_video_bit_depth f) @ ''|''
     @ debug_opt show_word (ff_width f) @ ''|''
     @ debug_opt show_word (ff_height f) @ ''|''
     @ show_bool (ff_is_hdr f) @ ''|''
     @ show_bool (ff_is_dovi f) @ ''|''
     @ debug_opt show_word (ff_dovi_profile f) @ ''|''
     @ join '','' (ff_audio_codecs f) @ ''|''
     @ show_nat (ff_subtitle_track_count f)"

definition content_sig :: "(string \<Rightarrow> string) \<Rightarrow> file_facts \<Rightarrow> string" where
  "content_sig hash f = hash (sig_material f)"

section \<open>Questions a decision asks\<close>

definition needs_audio_conversion :: "file_facts \<Rightarrow> bool" where
  "needs_audio_conversion f =
     list_ex (\<lambda>c. list_ex (\<lambda>n. contains c n) audio_needing_conversion) (ff_audio_codecs f)"

definition video_is_encodable :: "file_facts \<Rightarrow> bool" where
  "video_is_encodable f \<longleftrightarrow> \<not> ff_is_hdr f \<and> \<not> ff_is_dovi f"

definition is_excluded :: "file_facts \<Rightarrow> bool" where
  "is_excluded f \<longleftrightarrow> ff_has_object_audio f \<or> ff_dovi_profile f = Some 7 \<or> ff_dovi_profile f = Some 0"

section \<open>Lemmas\<close>

lemma size_bucket_for_mono:
  assumes "a \<le> b" "st_small_max_bytes t \<le> st_medium_max_bytes t"
  shows "size_bucket_for b t = Small \<Longrightarrow> size_bucket_for a t = Small"
    and "size_bucket_for a t = Large \<Longrightarrow> size_bucket_for b t = Large"
  using assms by (auto simp: size_bucket_for_def split: if_splits)

lemma derive_facts_dovi [simp]:
  "ff_is_dovi (derive_facts p n) \<longleftrightarrow> ff_dovi_profile (derive_facts p n) \<noteq> None"
  by (simp add: derive_facts_def Let_def)

lemma derive_facts_counts:
  "ff_audio_track_count (derive_facts p n) = length (ff_audio_codecs (derive_facts p n))"
  by (simp add: derive_facts_def Let_def)

text \<open>A Dolby Vision stream whose profile number cannot be read is excluded.\<close>

lemma unknown_dovi_excluded:
  "primary_video p = Some v \<Longrightarrow> si_profile v = Some prof \<Longrightarrow>
   contains (to_lower prof) ''dvhe'' \<Longrightarrow>
   find_map (\<lambda>tok. parse_u8 (Some tok)) (split_whitespace (to_lower prof)) = None \<Longrightarrow>
   is_excluded (derive_facts p n)"
  by (simp add: derive_facts_def is_excluded_def dovi_profile_of_def Let_def)

subsection \<open>The signed text determines the signed facts\<close>

text \<open>Facts whose container and codec names do not use the separators of the signed text.\<close>

definition sig_plain :: "file_facts \<Rightarrow> bool" where
  "sig_plain f \<longleftrightarrow>
     CHR ''|'' \<notin> set (ff_container f)
   \<and> (\<forall>c \<in> set (ff_audio_codecs f). c \<noteq> [] \<and> CHR '','' \<notin> set c \<and> CHR ''|'' \<notin> set c)"

text \<open>The facts that are signed.\<close>

definition same_signed_facts :: "file_facts \<Rightarrow> file_facts \<Rightarrow> bool" where
  "same_signed_facts f g \<longleftrightarrow>
     ff_container f = ff_container g \<and> ff_video_codec f = ff_video_codec g
   \<and> ff_video_profile f = ff_video_profile g \<and> ff_video_bit_depth f = ff_video_bit_depth g
   \<and> ff_width f = ff_width g \<and> ff_height f = ff_height g
   \<and> ff_is_hdr f = ff_is_hdr g \<and> ff_is_dovi f = ff_is_dovi g
   \<and> ff_dovi_profile f = ff_dovi_profile g \<and> ff_audio_codecs f = ff_audio_codecs g
   \<and> ff_subtitle_track_count f = ff_subtitle_track_count g"

lemma terminated_debug_bit_depth: "terminated (CHR '')'') debug_bit_depth"
proof (rule terminated_absent)
  show "CHR '')'' \<notin> set (debug_bit_depth d)" for d by (cases d) auto
  show "inj debug_bit_depth"
  proof (rule injI)
    fix a b assume "debug_bit_depth a = debug_bit_depth b"
    then show "a = b" by (cases a; cases b) auto
  qed
qed

lemma terminated_field:
  "terminated (CHR ''|'') (debug_opt debug_str)"
  "terminated (CHR ''|'') (debug_opt debug_bit_depth)"
  "terminated (CHR ''|'') (debug_opt (show_word :: 'a::len word \<Rightarrow> string))"
  "terminated (CHR ''|'') show_bool"
     apply (rule terminated_debug_opt terminated_debug_str)+
    apply (rule terminated_debug_opt terminated_debug_bit_depth)+
   apply (rule terminated_debug_opt terminated_show_word)+
   apply (simp add: digit_value_def)
  apply (rule terminated_show_bool)
  apply simp
  done

lemma set_join: "c \<in> set (join sep xs) \<Longrightarrow> c \<in> set sep \<or> (\<exists>x \<in> set xs. c \<in> set x)"
  by (induction sep xs rule: join.induct) auto

lemma join_eq_Nil: "[] \<notin> set xs \<Longrightarrow> join sep xs = [] \<longleftrightarrow> xs = []"
  by (cases "(sep, xs)" rule: join.cases) auto

lemma join_inj:
  assumes "\<forall>c \<in> set xs. c \<noteq> [] \<and> t \<notin> set c" "\<forall>c \<in> set ys. c \<noteq> [] \<and> t \<notin> set c"
    and "join [t] xs = join [t] ys"
  shows "xs = ys"
proof (cases "xs = [] \<or> ys = []")
  case True
  then show ?thesis using assms join_eq_Nil[of xs "[t]"] join_eq_Nil[of ys "[t]"] by auto
next
  case False
  then show ?thesis using assms by (metis split_on_join)
qed

lemma join_codecs_no_bar: "sig_plain f \<Longrightarrow> CHR ''|'' \<notin> set (join '','' (ff_audio_codecs f))"
  by (auto simp: sig_plain_def dest: set_join)

lemma sig_material_determines:
  assumes "sig_plain f" "sig_plain g" "sig_material f = sig_material g"
  shows "same_signed_facts f g"
proof -
  have c: "CHR ''|'' \<notin> set (ff_container f)" "CHR ''|'' \<notin> set (ff_container g)"
    using assms(1,2) by (auto simp: sig_plain_def)
  note s = assms(3)[unfolded sig_material_def, simplified]
  note r1 = split_first[OF c s]
  note r2 = terminatedD[OF terminated_field(1) r1[THEN conjunct2]]
  note r3 = terminatedD[OF terminated_field(1) r2[THEN conjunct2]]
  note r4 = terminatedD[OF terminated_field(2) r3[THEN conjunct2]]
  note r5 = terminatedD[OF terminated_field(3) r4[THEN conjunct2]]
  note r6 = terminatedD[OF terminated_field(3) r5[THEN conjunct2]]
  note r7 = terminatedD[OF terminated_field(4) r6[THEN conjunct2]]
  note r8 = terminatedD[OF terminated_field(4) r7[THEN conjunct2]]
  note r9 = terminatedD[OF terminated_field(3) r8[THEN conjunct2]]
  note r10 = split_first[OF join_codecs_no_bar[OF assms(1)] join_codecs_no_bar[OF assms(2)] r9[THEN conjunct2]]
  note j = r10[THEN conjunct1] and n = r10[THEN conjunct2]
  have "ff_audio_codecs f = ff_audio_codecs g"
    using assms(1,2) by (intro join_inj[OF _ _ j]) (auto simp: sig_plain_def)
  then show ?thesis using r1 r2 r3 r4 r5 r6 r7 r8 r9 show_nat_inj[OF n] by (simp add: same_signed_facts_def)
qed

section \<open>Properties\<close>

text \<open>
  A stale plan cannot pass for a current one: with a collision-free hash, two files share a
  content signature exactly when they agree on every signed fact (container, video codec, profile,
  depth, dimensions, HDR, Dolby Vision, audio codecs in order, subtitle count), provided the
  container and the codec names do not contain the separators of the signed text. Size, bit rate,
  duration and object audio play no part.
\<close>

lemma content_sig_iff_same_facts:
  assumes "inj hash" "sig_plain f" "sig_plain g"
  shows "content_sig hash f = content_sig hash g \<longleftrightarrow> same_signed_facts f g"
proof
  assume "content_sig hash f = content_sig hash g"
  then have "sig_material f = sig_material g" using assms(1) by (simp add: content_sig_def inj_eq)
  then show "same_signed_facts f g" using assms by (intro sig_material_determines)
next
  assume "same_signed_facts f g"
  then show "content_sig hash f = content_sig hash g"
    by (simp add: content_sig_def sig_material_def same_signed_facts_def)
qed

definition sample_facts :: file_facts where
  "sample_facts =
     \<lparr> ff_container = ''matroska,webm'', ff_duration_us = Some 1000000, ff_size_bytes = 5000,
       ff_bit_rate_bps = None, ff_video_codec = Some ''hevc'', ff_video_profile = Some ''Main 10'',
       ff_video_bit_depth = Some Ten, ff_video_pix_fmt = Some ''yuv420p10le'',
       ff_width = Some 1920, ff_height = Some 1080, ff_is_hdr = False, ff_is_dovi = False,
       ff_dovi_profile = None, ff_has_object_audio = False, ff_audio_codecs = [''truehd'', ''aac''],
       ff_audio_track_count = 2, ff_subtitle_track_count = 3 \<rparr>"

lemma content_sig_iff_same_facts_witness:
  "content_sig (\<lambda>s. s) sample_facts \<noteq> content_sig (\<lambda>s. s) (sample_facts \<lparr> ff_is_hdr := True \<rparr>)"
  by (subst content_sig_iff_same_facts)
    (auto simp: sig_plain_def sample_facts_def same_signed_facts_def)

end
