(* ===== verification/Validate.thy ===== *)
theory Validate
  imports Facts
begin

text \<open>
  \<open>crates/transcodarr-core/src/validate.rs\<close>: the five gates an output passes, in order, and the
  verdict. The lemmas characterise acceptance over unbounded integers, which shows that none of the
  64-bit subtractions wraps, and say that a rejecting gate is always the last one evaluated.
\<close>

datatype validation_gate = VG_ExitCode | VG_Probe | VG_Duration | VG_Streams | VG_Size

definition gate_order :: "validation_gate list" where
  "gate_order = [VG_ExitCode, VG_Probe, VG_Duration, VG_Streams, VG_Size]"

datatype size_policy = RequireSmaller f64 | MayGrow

record validation_spec =
  vs_source_duration_us :: u64
  vs_max_shorter_us :: u64
  vs_max_longer_us :: u64
  vs_expected_audio_streams :: nat
  vs_expected_subtitle_streams :: nat
  vs_source_bytes :: u64
  vs_size_policy :: size_policy

record validation_report =
  vr_passed :: bool
  vr_failed_gate :: "validation_gate option"
  vr_detail :: string
  vr_gates_run :: "validation_gate list"

definition report_fail :: "validation_gate list \<Rightarrow> validation_gate \<Rightarrow> string \<Rightarrow> validation_report" where
  "report_fail run gate detail =
     \<lparr> vr_passed = False, vr_failed_gate = Some gate, vr_detail = detail, vr_gates_run = run \<rparr>"

definition show_secs :: "u64 \<Rightarrow> string" where
  "show_secs us = show_fixed 1 (f64_div (f64_of_u64 us) 1000000)"

definition size_target :: "u64 \<Rightarrow> f64 \<Rightarrow> u64" where
  "size_target source_bytes min_shrink =
     u64_of_f64 (f64_mul (f64_of_u64 source_bytes) (f64_sub 1 min_shrink))"

text \<open>The gates after a readable duration, from the third on.\<close>

definition check_size ::
    "validation_spec \<Rightarrow> u64 \<Rightarrow> validation_gate list \<Rightarrow> validation_report" where
  "check_size spec out_bytes run0 =
     (let run = run0 @ [VG_Size];
          ok = \<lparr> vr_passed = True, vr_failed_gate = None, vr_detail = ''all gates passed'',
                 vr_gates_run = run \<rparr>
      in case vs_size_policy spec of
           RequireSmaller min_shrink \<Rightarrow>
             (if out_bytes > size_target (vs_source_bytes spec) min_shrink
              then report_fail run VG_Size
                     (''output '' @ show_u64 out_bytes @ '' B did not shrink by ''
                      @ show_fixed 0 (f64_mul min_shrink 100) @ ''% of ''
                      @ show_u64 (vs_source_bytes spec) @ '' B'')
              else ok)
         | MayGrow \<Rightarrow> ok)"

definition check_streams ::
    "validation_spec \<Rightarrow> media_probe \<Rightarrow> u64 \<Rightarrow> validation_gate list \<Rightarrow> validation_report" where
  "check_streams spec probe out_bytes run0 =
     (let run = run0 @ [VG_Streams];
          got_audio = length (streams_of SK_Audio probe);
          got_subs = length (streams_of SK_Subtitle probe)
      in if got_audio < vs_expected_audio_streams spec
         then report_fail run VG_Streams
                (''audio streams dropped: expected '' @ show_nat (vs_expected_audio_streams spec)
                 @ '', got '' @ show_nat got_audio)
         else if got_subs < vs_expected_subtitle_streams spec
         then report_fail run VG_Streams
                (''subtitle streams dropped: expected '' @ show_nat (vs_expected_subtitle_streams spec)
                 @ '', got '' @ show_nat got_subs)
         else check_size spec out_bytes run)"

definition check_duration ::
    "validation_spec \<Rightarrow> media_probe \<Rightarrow> u64 \<Rightarrow> u64 \<Rightarrow> validation_gate list \<Rightarrow> validation_report" where
  "check_duration spec probe out_duration out_bytes run0 =
     (let run = run0 @ [VG_Duration] in
      if out_duration < vs_source_duration_us spec
      then (let missing = vs_source_duration_us spec - out_duration in
            if missing > vs_max_shorter_us spec
            then report_fail run VG_Duration
                   (''output is '' @ show_secs missing @ ''s shorter than source (limit ''
                    @ show_secs (vs_max_shorter_us spec)
                    @ ''s) '' @ map char_of [226, 128, 148 :: nat] @ '' truncated'')
            else check_streams spec probe out_bytes run)
      else (let extra = out_duration - vs_source_duration_us spec in
            if extra > vs_max_longer_us spec
            then report_fail run VG_Duration
                   (''output is '' @ show_secs extra @ ''s longer than source (limit ''
                    @ show_secs (vs_max_longer_us spec) @ ''s)'')
            else check_streams spec probe out_bytes run))"

definition validate_output ::
    "validation_spec \<Rightarrow> media_probe \<Rightarrow> int \<Rightarrow> u64 \<Rightarrow> validation_report" where
  "validate_output spec probe exit_code out_bytes =
     (let run = [VG_ExitCode] in
      if exit_code \<noteq> 0
      then report_fail run VG_ExitCode (''ffmpeg exited '' @ show_int exit_code)
      else
        let run = run @ [VG_Probe] in
        case mp_duration_us probe of
          None \<Rightarrow> report_fail run VG_Probe ''output has no readable duration''
        | Some out_duration \<Rightarrow>
            if mp_streams probe = []
            then report_fail run VG_Probe ''output contains no streams''
            else check_duration spec probe out_duration out_bytes run)"

lemmas validate_defs =
  validate_output_def check_duration_def check_streams_def check_size_def report_fail_def

section \<open>Specification\<close>

text \<open>What each gate promises of an output, over unbounded integers.\<close>

definition duration_ok :: "validation_spec \<Rightarrow> media_probe \<Rightarrow> bool" where
  "duration_ok spec probe \<longleftrightarrow>
     (case mp_duration_us probe of
        None \<Rightarrow> False
      | Some d \<Rightarrow> uint (vs_source_duration_us spec) - uint d \<le> uint (vs_max_shorter_us spec)
                \<and> uint d - uint (vs_source_duration_us spec) \<le> uint (vs_max_longer_us spec))"

definition streams_ok :: "validation_spec \<Rightarrow> media_probe \<Rightarrow> bool" where
  "streams_ok spec probe \<longleftrightarrow>
     mp_streams probe \<noteq> []
   \<and> vs_expected_audio_streams spec \<le> audio_count probe
   \<and> vs_expected_subtitle_streams spec \<le> subtitle_count probe"

definition size_ok :: "validation_spec \<Rightarrow> u64 \<Rightarrow> bool" where
  "size_ok spec out_bytes \<longleftrightarrow>
     (case vs_size_policy spec of
        MayGrow \<Rightarrow> True
      | RequireSmaller m \<Rightarrow> out_bytes \<le> size_target (vs_source_bytes spec) m)"

section \<open>Lemmas\<close>

lemma uint_diff: "b \<le> a \<Longrightarrow> uint (a - b) = uint a - uint (b :: 'a::len word)"
  by (simp add: uint_minus_simple_alt)

lemma check_size_run:
  "vr_gates_run (check_size spec n run) = run @ [VG_Size]"
  "vr_passed (check_size spec n run) \<longleftrightarrow> size_ok spec n"
  "vr_failed_gate (check_size spec n run) = (if size_ok spec n then None else Some VG_Size)"
  by (auto simp: check_size_def report_fail_def size_ok_def Let_def not_less not_le split: size_policy.splits)

lemma check_streams_cases:
  assumes "mp_streams probe \<noteq> []"
  shows "if streams_ok spec probe
         then check_streams spec probe n run = check_size spec n (run @ [VG_Streams])
         else \<exists>t. check_streams spec probe n run = report_fail (run @ [VG_Streams]) VG_Streams t"
  using assms
  by (auto simp: check_streams_def streams_ok_def audio_count_def subtitle_count_def Let_def)

lemma check_duration_cases:
  assumes "mp_duration_us probe = Some d"
  shows "if duration_ok spec probe
         then check_duration spec probe d n run = check_streams spec probe n (run @ [VG_Duration])
         else \<exists>t. check_duration spec probe d n run = report_fail (run @ [VG_Duration]) VG_Duration t"
proof (cases "d < vs_source_duration_us spec")
  case True
  then have "d \<le> vs_source_duration_us spec" "uint d < uint (vs_source_duration_us spec)"
    by (simp_all add: word_less_def word_le_def)
  moreover from this(2) have "uint d - uint (vs_source_duration_us spec) \<le> uint (vs_max_longer_us spec)"
    using uint_ge_0[of "vs_max_longer_us spec"] by linarith
  ultimately show ?thesis
    using True assms
    by (auto simp: check_duration_def duration_ok_def word_less_def uint_diff Let_def)
next
  case False
  then have "vs_source_duration_us spec \<le> d" "uint (vs_source_duration_us spec) \<le> uint d"
    by (simp_all add: word_le_def not_less)
  moreover from this(2) have "uint (vs_source_duration_us spec) - uint d \<le> uint (vs_max_shorter_us spec)"
    using uint_ge_0[of "vs_max_shorter_us spec"] by linarith
  ultimately show ?thesis
    using False assms
    by (auto simp: check_duration_def duration_ok_def word_less_def uint_diff Let_def)
qed

text \<open>The whole run in one case distinction: which gate ends it.\<close>

lemma validate_output_cases:
  obtains
    (exit_code) t where "e \<noteq> 0" "validate_output spec probe e n = report_fail [VG_ExitCode] VG_ExitCode t"
  | (probe) t where "e = 0" "mp_duration_us probe = None \<or> mp_streams probe = []"
      "validate_output spec probe e n = report_fail [VG_ExitCode, VG_Probe] VG_Probe t"
  | (duration) t where "e = 0" "\<not> duration_ok spec probe" "mp_duration_us probe \<noteq> None"
      "validate_output spec probe e n = report_fail [VG_ExitCode, VG_Probe, VG_Duration] VG_Duration t"
  | (streams) t where "e = 0" "duration_ok spec probe" "\<not> streams_ok spec probe"
      "validate_output spec probe e n =
         report_fail [VG_ExitCode, VG_Probe, VG_Duration, VG_Streams] VG_Streams t"
  | (size) "e = 0" "duration_ok spec probe" "streams_ok spec probe"
      "validate_output spec probe e n =
         check_size spec n [VG_ExitCode, VG_Probe, VG_Duration, VG_Streams]"
proof -
  show thesis
  proof (cases "e = 0 \<and> mp_duration_us probe \<noteq> None \<and> mp_streams probe \<noteq> []")
    case False
    consider "e \<noteq> 0" | "e = 0" "mp_duration_us probe = None"
      | d where "e = 0" "mp_duration_us probe = Some d" "mp_streams probe = []"
      using False by auto
    then show thesis
    proof cases
      case 1
      then show thesis by (intro that(1)) (auto simp: validate_output_def)
    next
      case 2
      then show thesis by (intro that(2)) (auto simp: validate_output_def)
    next
      case 3
      then show thesis by (intro that(2)) (auto simp: validate_output_def)
    qed
  next
    case True
    then obtain d where d: "mp_duration_us probe = Some d" by auto
    have v: "validate_output spec probe e n = check_duration spec probe d n [VG_ExitCode, VG_Probe]"
      using True d by (simp add: validate_output_def Let_def)
    show thesis
      using True d v that(3-5) check_duration_cases[OF d, of spec n "[VG_ExitCode, VG_Probe]"]
        check_streams_cases[of probe spec n "[VG_ExitCode, VG_Probe, VG_Duration]"]
      by (auto split: if_splits)
  qed
qed

text \<open>Acceptance, for use by other components.\<close>

lemma validate_output_accepts_iff':
  "vr_passed (validate_output spec probe e n) \<longleftrightarrow>
     e = 0 \<and> duration_ok spec probe \<and> streams_ok spec probe \<and> size_ok spec n"
  by (rule validate_output_cases[of e spec probe n])
    (auto simp: report_fail_def check_size_run duration_ok_def streams_ok_def)

section \<open>Properties\<close>

text \<open>
  C2. The verdict, exactly: an output is accepted if and only if ffmpeg exited with zero, its
  duration is readable and within both tolerances (as unbounded integers, so no subtraction wraps),
  it has streams and none of the expected audio or subtitle streams is missing, and its size meets
  the policy. A verdict without a failed gate is exactly an acceptance.
\<close>

theorem validate_output_accepts_iff:
  "(vr_passed (validate_output spec probe e n) \<longleftrightarrow>
      e = 0 \<and> duration_ok spec probe \<and> streams_ok spec probe \<and> size_ok spec n)
   \<and> (vr_passed (validate_output spec probe e n) \<longleftrightarrow> vr_failed_gate (validate_output spec probe e n) = None)"
proof
  show "vr_passed (validate_output spec probe e n) \<longleftrightarrow>
      e = 0 \<and> duration_ok spec probe \<and> streams_ok spec probe \<and> size_ok spec n"
    by (rule validate_output_accepts_iff')
  show "vr_passed (validate_output spec probe e n) \<longleftrightarrow> vr_failed_gate (validate_output spec probe e n) = None"
    by (rule validate_output_cases[of e spec probe n]) (auto simp: report_fail_def check_size_run)
qed

text \<open>
  The gates run in the fixed order and stop at the first failure: the gates run are a prefix of
  the order, the failing gate is the last of them, and the size gate is reached only for an output
  already known to be intact, so a truncated output can never be accepted or rejected for its size.
\<close>

theorem validate_output_gate_order:
  "prefix (vr_gates_run (validate_output spec probe e n)) gate_order
   \<and> (\<forall>g. vr_failed_gate (validate_output spec probe e n) = Some g \<longrightarrow>
          last (vr_gates_run (validate_output spec probe e n)) = g)
   \<and> (VG_Size \<in> set (vr_gates_run (validate_output spec probe e n)) \<longleftrightarrow>
        e = 0 \<and> duration_ok spec probe \<and> streams_ok spec probe)"
  by (rule validate_output_cases[of e spec probe n])
    (auto simp: report_fail_def check_size_run gate_order_def duration_ok_def streams_ok_def)

definition sample_spec :: validation_spec where
  "sample_spec =
     \<lparr> vs_source_duration_us = 100000000, vs_max_shorter_us = 500000, vs_max_longer_us = 2000000,
       vs_expected_audio_streams = 0, vs_expected_subtitle_streams = 0, vs_source_bytes = 1000,
       vs_size_policy = MayGrow \<rparr>"

lemma validate_output_gate_order_witness:
  "last (vr_gates_run (validate_output sample_spec
      \<lparr> mp_container = ''mkv'', mp_duration_us = Some 5, mp_bit_rate_bps = None, mp_size_bytes = None,
        mp_streams = [] \<rparr> 0 10)) = VG_Probe"
  by (rule validate_output_gate_order[THEN conjunct2, THEN conjunct1, rule_format])
    (simp add: validate_output_def report_fail_def)

end
