(* ===== verification/Capability.thy ===== *)
theory Capability
  imports Facts "HOL-Library.Char_ord" "HOL-Library.List_Lexorder"
begin

text \<open>
  \<open>crates/transcodarr-core/src/capability.rs\<close>: the capability document of an agent, the
  requirements of a job, the key over the categorical ones, and the match between them. The hash
  behind the key and the serialiser of the document are arguments. The lemmas show that a match is
  the conjunction of its requirements, and that the key identifies the categorical requirements up
  to their order.
\<close>

section \<open>Data\<close>

datatype agent_class = AC_Cpu | AC_Gpu | AC_Audio

datatype container_id = Matroska | Mp4

datatype decoder_kind = Software | Nvdec | Qsv | Vaapi | Videotoolbox

datatype decoder_status = Untested | VerifiedOk | VerifiedSoftFallback | VerifiedFail

definition satisfies_hardware_requirement :: "decoder_status \<Rightarrow> bool" where
  "satisfies_hardware_requirement s \<longleftrightarrow> s = VerifiedOk"

record decoder_triple =
  dt_codec :: string
  dt_profile :: string
  dt_bit_depth :: bit_depth
  dt_kind :: decoder_kind

record decoder_capability =
  dc_triple :: decoder_triple
  dc_status :: decoder_status
  dc_evidence :: string

record mount =
  mo_canonical_prefix :: string
  mo_local_path :: string
  mo_writable :: bool

record capability =
  cap_transport :: transport_mode
  cap_classes :: "agent_class list"
  cap_encoders :: "encoder_id list"
  cap_muxers :: "container_id list"
  cap_decoders :: "decoder_capability list"
  cap_effective_cores :: f64
  cap_mounts :: "mount list"
  cap_platform :: "platform option"
  cap_workarea_free_bytes :: u64
  cap_workarea_path :: string
  cap_labels :: "(string \<times> string) list"

definition default_capability :: capability where
  "default_capability =
     \<lparr> cap_transport = Mount, cap_classes = [], cap_encoders = [], cap_muxers = [], cap_decoders = [],
       cap_effective_cores = 0, cap_mounts = [], cap_platform = None, cap_workarea_free_bytes = 0,
       cap_workarea_path = [], cap_labels = [] \<rparr>"

definition decoder_status_of :: "capability \<Rightarrow> decoder_triple \<Rightarrow> decoder_status" where
  "decoder_status_of cap triple =
     or_default Untested (map_option dc_status (List.find (\<lambda>d. dc_triple d = triple) (cap_decoders cap)))"

text \<open>The serialiser gives the empty text when it fails.\<close>

definition capability_hash :: "(string \<Rightarrow> string) \<Rightarrow> (capability \<Rightarrow> string option) \<Rightarrow> capability \<Rightarrow> string" where
  "capability_hash hash to_json cap = hash (or_default [] (to_json cap))"

definition requires_mount_coverage :: "transport_mode \<Rightarrow> bool" where
  "requires_mount_coverage t \<longleftrightarrow> t = Mount"

datatype requirement =
    R_AgentClass agent_class
  | R_Encoder encoder_id
  | R_Decoder decoder_triple
  | R_Muxer container_id
  | R_MinEffectiveCores f64
  | R_MinFreeBytes u64
  | R_MountCovers string
  | R_PlatformIn "platform list"
  | R_LabelEquals string string

type_synonym requirements = "requirement list"

fun is_categorical :: "requirement \<Rightarrow> bool" where
  "is_categorical (R_AgentClass _) = True"
| "is_categorical (R_Encoder _) = True"
| "is_categorical (R_Decoder _) = True"
| "is_categorical (R_Muxer _) = True"
| "is_categorical (R_PlatformIn _) = True"
| "is_categorical (R_LabelEquals _ _) = True"
| "is_categorical (R_MinEffectiveCores _) = False"
| "is_categorical (R_MinFreeBytes _) = False"
| "is_categorical (R_MountCovers _) = False"

section \<open>Debug renderings\<close>

fun debug_agent_class :: "agent_class \<Rightarrow> string" where
  "debug_agent_class AC_Cpu = ''Cpu''"
| "debug_agent_class AC_Gpu = ''Gpu''"
| "debug_agent_class AC_Audio = ''Audio''"

fun debug_encoder :: "encoder_id \<Rightarrow> string" where
  "debug_encoder HevcNvenc = ''HevcNvenc''"
| "debug_encoder Libx265 = ''Libx265''"
| "debug_encoder Libx264 = ''Libx264''"
| "debug_encoder Eac3 = ''Eac3''"
| "debug_encoder Ac3 = ''Ac3''"
| "debug_encoder Aac = ''Aac''"
| "debug_encoder Copy = ''Copy''"

fun debug_container :: "container_id \<Rightarrow> string" where
  "debug_container Matroska = ''Matroska''"
| "debug_container Mp4 = ''Mp4''"

fun debug_decoder_kind :: "decoder_kind \<Rightarrow> string" where
  "debug_decoder_kind Software = ''Software''"
| "debug_decoder_kind Nvdec = ''Nvdec''"
| "debug_decoder_kind Qsv = ''Qsv''"
| "debug_decoder_kind Vaapi = ''Vaapi''"
| "debug_decoder_kind Videotoolbox = ''Videotoolbox''"

fun debug_decoder_status :: "decoder_status \<Rightarrow> string" where
  "debug_decoder_status Untested = ''Untested''"
| "debug_decoder_status VerifiedOk = ''VerifiedOk''"
| "debug_decoder_status VerifiedSoftFallback = ''VerifiedSoftFallback''"
| "debug_decoder_status VerifiedFail = ''VerifiedFail''"

fun debug_platform :: "platform \<Rightarrow> string" where
  "debug_platform Linux = ''Linux''"
| "debug_platform Windows = ''Windows''"

definition debug_triple :: "decoder_triple \<Rightarrow> string" where
  "debug_triple t =
     ''DecoderTriple { codec: '' @ debug_str (dt_codec t) @ '', profile: '' @ debug_str (dt_profile t)
     @ '', bit_depth: '' @ debug_bit_depth (dt_bit_depth t) @ '', kind: '' @ debug_decoder_kind (dt_kind t)
     @ '' }''"

text \<open>
  Only categorical requirements are ever rendered (\<open>bucket_key\<close> filters first), so the rendering of
  the others is left out: \<open>None\<close>.
\<close>

fun debug_requirement :: "requirement \<Rightarrow> string option" where
  "debug_requirement (R_AgentClass c) = Some (''AgentClass('' @ debug_agent_class c @ '')'')"
| "debug_requirement (R_Encoder e) = Some (''Encoder('' @ debug_encoder e @ '')'')"
| "debug_requirement (R_Decoder t) = Some (''Decoder('' @ debug_triple t @ '')'')"
| "debug_requirement (R_Muxer m) = Some (''Muxer('' @ debug_container m @ '')'')"
| "debug_requirement (R_PlatformIn ps) = Some (''PlatformIn('' @ debug_list debug_platform ps @ '')'')"
| "debug_requirement (R_LabelEquals k v) =
     Some (''LabelEquals('' @ debug_str k @ '', '' @ debug_str v @ '')'')"
| "debug_requirement _ = None"

definition bucket_key :: "(string \<Rightarrow> string) \<Rightarrow> requirements \<Rightarrow> string" where
  "bucket_key hash reqs =
     hash (join ''|'' (sort (List.map_filter debug_requirement (filter is_categorical reqs))))"

section \<open>Matching\<close>

record unmet_requirement =
  un_requirement :: requirement
  un_detail :: string

definition mount_covered :: "capability \<Rightarrow> string \<Rightarrow> bool" where
  "mount_covered cap canonical \<longleftrightarrow>
     \<not> requires_mount_coverage (cap_transport cap)
   \<or> list_ex (\<lambda>m. starts_with canonical (mo_canonical_prefix m) \<and> mo_writable m) (cap_mounts cap)"

text \<open>One requirement: \<open>None\<close> when it is met, else the reason.\<close>

fun check_requirement :: "capability \<Rightarrow> requirement \<Rightarrow> string option" where
  "check_requirement cap (R_AgentClass c) =
     (if c \<notin> set (cap_classes cap)
      then Some (''agent does not advertise class '' @ debug_agent_class c @ ''; has ''
                 @ debug_list debug_agent_class (cap_classes cap))
      else None)"
| "check_requirement cap (R_Encoder e) =
     (if e \<notin> set (cap_encoders cap) then Some (''agent lacks encoder '' @ encoder_as_ffmpeg e) else None)"
| "check_requirement cap (R_Decoder t) =
     (let status = decoder_status_of cap t in
      if \<not> satisfies_hardware_requirement status
      then Some (''decode of '' @ dt_codec t @ '' '' @ debug_bit_depth (dt_bit_depth t) @ '' on ''
                 @ debug_decoder_kind (dt_kind t) @ '' is '' @ debug_decoder_status status
                 @ '', not VerifiedOk'')
      else None)"
| "check_requirement cap (R_Muxer m) =
     (if m \<notin> set (cap_muxers cap) then Some (''agent lacks muxer '' @ debug_container m) else None)"
| "check_requirement cap (R_MinEffectiveCores n) =
     (if cap_effective_cores cap < n
      then Some (''agent has '' @ show_fixed 1 (cap_effective_cores cap) @ '' effective cores, needs ''
                 @ show_fixed 1 n)
      else None)"
| "check_requirement cap (R_MinFreeBytes b) =
     (if cap_workarea_free_bytes cap < b
      then Some (''work area has '' @ show_u64 (cap_workarea_free_bytes cap) @ '' B free, needs ''
                 @ show_u64 b @ '' B'')
      else None)"
| "check_requirement cap (R_MountCovers canonical) =
     (if \<not> mount_covered cap canonical
      then Some (''no writable mount covers '' @ canonical @ ''; agent sees ''
                 @ debug_list debug_str (map mo_canonical_prefix (cap_mounts cap)))
      else None)"
| "check_requirement cap (R_PlatformIn allowed) =
     (case cap_platform cap of
        Some p \<Rightarrow> if p \<in> set allowed then None
                  else Some (''agent platform '' @ debug_opt debug_platform (Some p) @ '' not in ''
                             @ debug_list debug_platform allowed)
      | None \<Rightarrow> Some (''agent platform '' @ debug_opt debug_platform None @ '' not in ''
                      @ debug_list debug_platform allowed))"
| "check_requirement cap (R_LabelEquals k v) =
     (if \<not> list_ex (\<lambda>(lk, lv). lk = k \<and> lv = v) (cap_labels cap)
      then Some (''agent lacks label '' @ k @ ''='' @ v) else None)"

fun satisfies :: "capability \<Rightarrow> requirements \<Rightarrow> unmet_requirement + unit" where
  "satisfies cap [] = Inr ()"
| "satisfies cap (r # rs) =
     (case check_requirement cap r of
        Some detail \<Rightarrow> Inl \<lparr> un_requirement = r, un_detail = detail \<rparr>
      | None \<Rightarrow> satisfies cap rs)"

section \<open>Specification\<close>

text \<open>When one requirement holds of an agent, without the wording.\<close>

fun meets :: "capability \<Rightarrow> requirement \<Rightarrow> bool" where
  "meets cap (R_AgentClass c) \<longleftrightarrow> c \<in> set (cap_classes cap)"
| "meets cap (R_Encoder e) \<longleftrightarrow> e \<in> set (cap_encoders cap)"
| "meets cap (R_Decoder t) \<longleftrightarrow> decoder_status_of cap t = VerifiedOk"
| "meets cap (R_Muxer m) \<longleftrightarrow> m \<in> set (cap_muxers cap)"
| "meets cap (R_MinEffectiveCores n) \<longleftrightarrow> n \<le> cap_effective_cores cap"
| "meets cap (R_MinFreeBytes b) \<longleftrightarrow> b \<le> cap_workarea_free_bytes cap"
| "meets cap (R_MountCovers p) \<longleftrightarrow>
     cap_transport cap = Stream
   \<or> (\<exists>m \<in> set (cap_mounts cap). mo_writable m \<and> starts_with p (mo_canonical_prefix m))"
| "meets cap (R_PlatformIn ps) \<longleftrightarrow> (\<exists>p. cap_platform cap = Some p \<and> p \<in> set ps)"
| "meets cap (R_LabelEquals k v) \<longleftrightarrow> (k, v) \<in> set (cap_labels cap)"

lemma check_requirement_iff: "check_requirement cap r = None \<longleftrightarrow> meets cap r"
proof (cases r)
  case (R_MountCovers p)
  then show ?thesis
    by (cases "cap_transport cap")
      (auto simp: mount_covered_def requires_mount_coverage_def list_ex_iff)
qed (auto simp: Let_def satisfies_hardware_requirement_def list_ex_iff split: option.splits)

lemma satisfies_iff: "satisfies cap reqs = Inr () \<longleftrightarrow> (\<forall>r \<in> set reqs. meets cap r)"
  by (induction reqs) (auto simp: check_requirement_iff[symmetric] split: option.splits)

lemma satisfies_Inl_iff:
  "satisfies cap reqs = Inl u \<longleftrightarrow>
     (\<exists>pre r post d. reqs = pre @ r # post \<and> (\<forall>x \<in> set pre. meets cap x)
        \<and> check_requirement cap r = Some d \<and> u = \<lparr> un_requirement = r, un_detail = d \<rparr>)"
proof (induction reqs)
  case (Cons q reqs)
  show ?case
  proof (cases "check_requirement cap q")
    case None
    then have q: "meets cap q" by (simp add: check_requirement_iff)
    show ?thesis (is "?L \<longleftrightarrow> ?R")
    proof
      assume ?L
      then obtain pre r post d where "reqs = pre @ r # post" "\<forall>x \<in> set pre. meets cap x"
        "check_requirement cap r = Some d" "u = \<lparr> un_requirement = r, un_detail = d \<rparr>"
        using None Cons by auto
      then show ?R using q by (intro exI[of _ "q # pre"]) auto
    next
      assume ?R
      then obtain pre r post d where *: "q # reqs = pre @ r # post" "\<forall>x \<in> set pre. meets cap x"
        "check_requirement cap r = Some d" "u = \<lparr> un_requirement = r, un_detail = d \<rparr>" by blast
      then show ?L using None Cons by (cases pre) auto
    qed
  next
    case (Some d)
    then have q: "\<not> meets cap q" by (simp add: check_requirement_iff[symmetric])
    show ?thesis (is "?L \<longleftrightarrow> ?R")
    proof
      assume ?L
      then show ?R using Some by (intro exI[of _ "[]"]) auto
    next
      assume ?R
      then show ?L using Some q by (auto simp: Cons_eq_append_conv)
    qed
  qed
qed simp

text \<open>Splitting the requirements into categorical and per-file ones loses nothing.\<close>

lemma satisfies_split:
  "satisfies cap reqs = Inr () \<longleftrightarrow>
     satisfies cap (filter is_categorical reqs) = Inr ()
   \<and> satisfies cap (filter (\<lambda>r. \<not> is_categorical r) reqs) = Inr ()"
  by (auto simp: satisfies_iff)

section \<open>The key determines the categorical requirements\<close>

lemma debug_requirement_iff: "debug_requirement r = None \<longleftrightarrow> \<not> is_categorical r"
  by (cases r) auto

lemma inj_enum_debug:
  "inj debug_agent_class" "inj debug_encoder" "inj debug_container" "inj debug_decoder_kind"
  "inj debug_platform"
proof -
  show "inj debug_agent_class"
  proof (rule injI)
    fix a b assume "debug_agent_class a = debug_agent_class b" then show "a = b" by (cases a; cases b) auto
  qed
  show "inj debug_encoder"
  proof (rule injI)
    fix a b assume "debug_encoder a = debug_encoder b" then show "a = b" by (cases a; cases b) auto
  qed
  show "inj debug_container"
  proof (rule injI)
    fix a b assume "debug_container a = debug_container b" then show "a = b" by (cases a; cases b) auto
  qed
  show "inj debug_decoder_kind"
  proof (rule injI)
    fix a b assume "debug_decoder_kind a = debug_decoder_kind b" then show "a = b" by (cases a; cases b) auto
  qed
  show "inj debug_platform"
  proof (rule injI)
    fix a b assume "debug_platform a = debug_platform b" then show "a = b" by (cases a; cases b) auto
  qed
qed

lemma inj_debug_bit_depth: "inj debug_bit_depth"
proof (rule injI)
  fix a b assume "debug_bit_depth a = debug_bit_depth b" then show "a = b" by (cases a; cases b) auto
qed

lemma enum_alnum:
  "list_all ascii_alnum (debug_agent_class a)"
  "list_all ascii_alnum (debug_encoder e)"
  "list_all ascii_alnum (debug_container m)"
  "list_all ascii_alnum (debug_decoder_kind k)"
  "list_all ascii_alnum (debug_bit_depth d)"
proof -
  show "list_all ascii_alnum (debug_agent_class a)" by (cases a) (simp_all add: ascii_alnum_def)
  show "list_all ascii_alnum (debug_encoder e)" by (cases e) (simp_all add: ascii_alnum_def)
  show "list_all ascii_alnum (debug_container m)" by (cases m) (simp_all add: ascii_alnum_def)
  show "list_all ascii_alnum (debug_decoder_kind k)" by (cases k) (simp_all add: ascii_alnum_def)
  show "list_all ascii_alnum (debug_bit_depth d)" by (cases d) (simp_all add: ascii_alnum_def)
qed

lemma terminated_alnum:
  assumes "\<not> ascii_alnum t" "inj f" "\<And>a. list_all ascii_alnum (f a)"
  shows "f a @ t # x = f b @ t # y \<longleftrightarrow> a = b \<and> x = y"
proof -
  have "terminated t f"
    using assms by (intro terminated_absent) (auto simp: list_all_iff)
  then show ?thesis by (auto dest: terminatedD)
qed

lemmas enum_terminated =
  terminated_alnum[OF _ inj_enum_debug(1) enum_alnum(1)]
  terminated_alnum[OF _ inj_enum_debug(2) enum_alnum(2)]
  terminated_alnum[OF _ inj_enum_debug(3) enum_alnum(3)]
  terminated_alnum[OF _ inj_enum_debug(4) enum_alnum(4)]
  terminated_alnum[OF _ inj_debug_bit_depth enum_alnum(5)]

lemma debug_str_prefix_free_iff: "debug_str a @ x = debug_str b @ y \<longleftrightarrow> a = b \<and> x = y"
  by (auto dest: debug_str_prefix_free)

lemma join_concat: "join sep (x # xs) = x @ concat (map (\<lambda>y. sep @ y) xs)"
  by (induction xs arbitrary: x) auto

lemma platform_tail_prefix_free:
  "concat (map (\<lambda>p. '', '' @ debug_platform p) ps) @ CHR '']'' # x
     = concat (map (\<lambda>p. '', '' @ debug_platform p) qs) @ CHR '']'' # y \<longleftrightarrow> ps = qs \<and> x = y"
proof (induction ps arbitrary: qs)
  case Nil
  then show ?case by (cases qs) auto
next
  case (Cons p ps)
  show ?case
  proof (cases qs)
    case (Cons q qs')
    then show ?thesis using Cons.IH[of qs'] by (cases p; cases q) simp_all
  qed simp
qed

lemma platform_list_prefix_free:
  "debug_list debug_platform ps @ x = debug_list debug_platform qs @ y \<longleftrightarrow> ps = qs \<and> x = y"
proof -
  have e: "debug_list debug_platform (p # l) @ z =
      CHR ''['' # debug_platform p @ concat (map (\<lambda>p. '', '' @ debug_platform p) l) @ CHR '']'' # z" for p l z
    by (simp add: debug_list_def join_concat comp_def)
  have n: "debug_list debug_platform [] @ z = CHR ''['' # CHR '']'' # z" for z
    by (simp add: debug_list_def)
  show ?thesis
  proof (cases ps; cases qs)
    fix p l q m
    assume "ps = p # l" "qs = q # m"
    then show ?thesis
      using platform_tail_prefix_free[of l x m y] by (cases p; cases q) (simp_all only: e, simp_all)
  next
    fix q m
    assume "ps = []" "qs = q # m"
    then show ?thesis by (cases q) (simp_all only: e n, simp_all)
  next
    fix p l
    assume "ps = p # l" "qs = []"
    then show ?thesis by (cases p) (simp_all only: e n, simp_all)
  qed (simp add: n)
qed

lemma debug_triple_prefix_free: "debug_triple s @ x = debug_triple t @ y \<longleftrightarrow> s = t \<and> x = y"
  by (cases s; cases t)
    (auto simp: debug_triple_def debug_str_prefix_free_iff enum_terminated ascii_alnum_def)

lemma debug_requirement_prefix_free:
  assumes "debug_requirement r = Some a" "debug_requirement s = Some b" "a @ x = b @ y"
  shows "r = s \<and> x = y"
  using assms
  by (cases r; cases s)
    (auto simp: debug_str_prefix_free_iff debug_triple_prefix_free platform_list_prefix_free
      enum_terminated ascii_alnum_def)

lemma categorical_debug: "is_categorical r \<Longrightarrow> \<exists>t. debug_requirement r = Some t \<and> t \<noteq> []"
  by (cases r) auto

lemma join_debug_inj:
  "\<forall>r \<in> set rs. is_categorical r \<Longrightarrow> \<forall>s \<in> set ss. is_categorical s \<Longrightarrow>
   join ''|'' (List.map_filter debug_requirement rs) = join ''|'' (List.map_filter debug_requirement ss) \<Longrightarrow>
   rs = ss"
proof -
  have body: "rs = ss"
    if "\<forall>r \<in> set rs. is_categorical r" "\<forall>s \<in> set ss. is_categorical s"
      "concat (map (\<lambda>y. ''|'' @ y) (List.map_filter debug_requirement rs))
       = concat (map (\<lambda>y. ''|'' @ y) (List.map_filter debug_requirement ss))" for rs ss
    using that
  proof (induction rs arbitrary: ss)
    case Nil
    then show ?case by (cases ss) (auto simp: map_filter_simps dest: categorical_debug)
  next
    case (Cons r rs)
    obtain a where a: "debug_requirement r = Some a" using Cons.prems categorical_debug[of r] by auto
    then obtain s ss' where ss: "ss = s # ss'" using Cons.prems a by (cases ss) (auto simp: map_filter_simps)
    obtain b where b: "debug_requirement s = Some b" using Cons.prems ss categorical_debug[of s] by auto
    show ?case
      using Cons.prems Cons.IH[of ss'] debug_requirement_prefix_free[OF a b]
      by (auto simp: ss a b map_filter_simps)
  qed
  assume rs: "\<forall>r \<in> set rs. is_categorical r" and ss: "\<forall>s \<in> set ss. is_categorical s"
    and eq: "join ''|'' (List.map_filter debug_requirement rs) = join ''|'' (List.map_filter debug_requirement ss)"
  show "rs = ss"
  proof (cases rs; cases ss)
    fix r rs' assume r: "rs = r # rs'" "ss = []"
    obtain a where "debug_requirement r = Some a" "a \<noteq> []" using rs r categorical_debug[of r] by auto
    then show ?thesis using eq r by (simp add: map_filter_simps join_concat)
  next
    fix s ss' assume s: "rs = []" "ss = s # ss'"
    obtain a where "debug_requirement s = Some a" "a \<noteq> []" using ss s categorical_debug[of s] by auto
    then show ?thesis using eq s by (simp add: map_filter_simps join_concat)
  next
    fix r rs' s ss' assume *: "rs = r # rs'" "ss = s # ss'"
    obtain a where a: "debug_requirement r = Some a" using rs * categorical_debug[of r] by auto
    obtain b where b: "debug_requirement s = Some b" using ss * categorical_debug[of s] by auto
    show ?thesis
      using eq * rs ss a b debug_requirement_prefix_free[OF a b] body[of rs' ss']
      by (simp add: map_filter_simps join_concat)
  qed simp
qed

text \<open>Sorting the renderings is sorting the requirements by their rendering.\<close>

lemma map_filter_all:
  "\<forall>r \<in> set rs. is_categorical r \<Longrightarrow>
   List.map_filter debug_requirement rs = map (\<lambda>r. the (debug_requirement r)) rs"
  by (induction rs) (auto simp: map_filter_simps dest: categorical_debug)

lemma map_filter_categorical:
  "List.map_filter debug_requirement (filter is_categorical rs)
   = map (\<lambda>r. the (debug_requirement r)) (filter is_categorical rs)"
  by (rule map_filter_all) simp

lemma sorted_renderings:
  obtains rs where "mset rs = mset (filter is_categorical reqs)"
    "\<forall>r \<in> set rs. is_categorical r"
    "sort (List.map_filter debug_requirement (filter is_categorical reqs)) = List.map_filter debug_requirement rs"
proof
  let ?f = "\<lambda>r. the (debug_requirement r)"
  define rs where "rs = sort_key ?f (filter is_categorical reqs)"
  show m: "mset rs = mset (filter is_categorical reqs)" by (simp add: rs_def)
  show c: "\<forall>r \<in> set rs. is_categorical r" by (simp add: rs_def)
  have "List.map_filter debug_requirement rs = map ?f rs"
    using c by (rule map_filter_all)
  also have "\<dots> = sort (map ?f (filter is_categorical reqs))"
    by (rule properties_for_sort[symmetric]) (simp_all add: rs_def)
  finally show "sort (List.map_filter debug_requirement (filter is_categorical reqs))
      = List.map_filter debug_requirement rs"
    by (simp add: map_filter_categorical)
qed

lemma bucket_key_perm:
  "mset (filter is_categorical r) = mset (filter is_categorical s) \<Longrightarrow> bucket_key hash r = bucket_key hash s"
proof -
  assume "mset (filter is_categorical r) = mset (filter is_categorical s)"
  then have "mset (map (\<lambda>r. the (debug_requirement r)) (filter is_categorical r))
    = mset (map (\<lambda>r. the (debug_requirement r)) (filter is_categorical s))" by simp
  then have "sort (map (\<lambda>r. the (debug_requirement r)) (filter is_categorical r))
    = sort (map (\<lambda>r. the (debug_requirement r)) (filter is_categorical s))"
    by (intro properties_for_sort) simp_all
  then show ?thesis by (simp add: bucket_key_def map_filter_categorical)
qed

lemma bucket_key_determines:
  assumes "inj hash" "bucket_key hash r = bucket_key hash s"
  shows "mset (filter is_categorical r) = mset (filter is_categorical s)"
proof -
  obtain rs where rs: "mset rs = mset (filter is_categorical r)" "\<forall>x \<in> set rs. is_categorical x"
    "sort (List.map_filter debug_requirement (filter is_categorical r)) = List.map_filter debug_requirement rs"
    by (rule sorted_renderings)
  obtain ss where ss: "mset ss = mset (filter is_categorical s)" "\<forall>x \<in> set ss. is_categorical x"
    "sort (List.map_filter debug_requirement (filter is_categorical s)) = List.map_filter debug_requirement ss"
    by (rule sorted_renderings)
  have "join ''|'' (List.map_filter debug_requirement rs) = join ''|'' (List.map_filter debug_requirement ss)"
    using assms rs(3) ss(3) by (simp add: bucket_key_def inj_eq)
  then have "rs = ss" using join_debug_inj rs(2) ss(2) by blast
  then show ?thesis using rs ss by simp
qed

section \<open>Properties\<close>

text \<open>
  An agent matches a job exactly when it meets every requirement, and otherwise the report names
  the first requirement it does not meet: all requirements before it are met, and it is not.
\<close>

lemma satisfies_reports_first_unmet:
  "(satisfies cap reqs = Inr () \<longleftrightarrow> (\<forall>r \<in> set reqs. meets cap r))
   \<and> (\<forall>u. satisfies cap reqs = Inl u \<longrightarrow>
        (\<exists>pre post. reqs = pre @ un_requirement u # post \<and> (\<forall>r \<in> set pre. meets cap r)
           \<and> \<not> meets cap (un_requirement u)))"
proof (intro conjI allI impI)
  show "satisfies cap reqs = Inr () \<longleftrightarrow> (\<forall>r \<in> set reqs. meets cap r)" by (rule satisfies_iff)
next
  fix u
  assume "satisfies cap reqs = Inl u"
  then obtain pre r post d where "reqs = pre @ r # post" "\<forall>x \<in> set pre. meets cap x"
    "check_requirement cap r = Some d" "u = \<lparr> un_requirement = r, un_detail = d \<rparr>"
    unfolding satisfies_Inl_iff by blast
  then show "\<exists>pre post. reqs = pre @ un_requirement u # post \<and> (\<forall>r \<in> set pre. meets cap r)
      \<and> \<not> meets cap (un_requirement u)"
    by (intro exI[of _ pre] exI[of _ post]) (simp add: check_requirement_iff[symmetric])
qed

lemma satisfies_reports_first_unmet_witness:
  "\<not> meets (default_capability \<lparr> cap_classes := [AC_Gpu] \<rparr>) (R_Encoder HevcNvenc)"
proof -
  let ?cap = "default_capability \<lparr> cap_classes := [AC_Gpu] \<rparr>"
  have "satisfies ?cap [R_AgentClass AC_Gpu, R_Encoder HevcNvenc] =
    Inl \<lparr> un_requirement = R_Encoder HevcNvenc, un_detail = ''agent lacks encoder hevc_nvenc'' \<rparr>"
    by (simp add: default_capability_def)
  from satisfies_reports_first_unmet[THEN conjunct2, rule_format, OF this] show ?thesis by auto
qed

text \<open>
  Precomputed eligibility is sound: with a collision-free hash, two jobs share a bucket key
  exactly when they have the same categorical requirements up to order, and then every agent meets
  the categorical requirements of both or of neither. Per-file requirements never split a bucket.
\<close>

lemma bucket_key_iff_same_categorical:
  assumes "inj hash"
  shows "(bucket_key hash r = bucket_key hash s \<longleftrightarrow>
            mset (filter is_categorical r) = mset (filter is_categorical s))
       \<and> (bucket_key hash r = bucket_key hash s \<longrightarrow>
            (satisfies cap (filter is_categorical r) = Inr () \<longleftrightarrow>
             satisfies cap (filter is_categorical s) = Inr ()))"
proof -
  have 1: "bucket_key hash r = bucket_key hash s \<longleftrightarrow>
      mset (filter is_categorical r) = mset (filter is_categorical s)"
    using bucket_key_determines[OF assms, of r s] bucket_key_perm[of r s hash] by blast
  have 2: "mset (filter is_categorical r) = mset (filter is_categorical s) \<Longrightarrow>
      set (filter is_categorical r) = set (filter is_categorical s)"
    by (rule mset_eq_setD)
  show ?thesis unfolding satisfies_iff 1 using 2 by blast
qed

lemma bucket_key_iff_same_categorical_witness:
  "bucket_key (\<lambda>s. s) [R_Encoder Eac3, R_MountCovers ''/a'', R_Muxer Matroska]
   = bucket_key (\<lambda>s. s) [R_Muxer Matroska, R_Encoder Eac3, R_MinFreeBytes 7]"
  by (subst bucket_key_iff_same_categorical[THEN conjunct1]) simp_all

end
