(* ===== verification/Job.thy ===== *)
theory Job
  imports Capability
begin

text \<open>
  \<open>crates/transcodarr-core/src/job.rs\<close> and \<open>file.rs\<close>: job classes, the job state machine, file
  states and the specification of a job. The lemmas give the canonical spellings, the meaning of
  terminal states and the paths a job can take through the machine.
\<close>

datatype job_class = JC_Audio | JC_VideoGpu | JC_VideoCpu | JC_Probe | JC_Verify

datatype job_state =
    Pending | Blocked | Eligible | Assigned | Running | Verifying | Committing | Retrying
  | Succeeded | Failed | Cancelled | DeadLettered | NeedsOperator

fun job_class_as_str :: "job_class \<Rightarrow> string" where
  "job_class_as_str JC_Audio = ''Audio''"
| "job_class_as_str JC_VideoGpu = ''VideoGpu''"
| "job_class_as_str JC_VideoCpu = ''VideoCpu''"
| "job_class_as_str JC_Probe = ''Probe''"
| "job_class_as_str JC_Verify = ''Verify''"

definition job_class_parse :: "string \<Rightarrow> job_class option" where
  "job_class_parse s =
     (if s = ''Audio'' then Some JC_Audio else if s = ''VideoGpu'' then Some JC_VideoGpu
      else if s = ''VideoCpu'' then Some JC_VideoCpu else if s = ''Probe'' then Some JC_Probe
      else if s = ''Verify'' then Some JC_Verify else None)"

fun job_state_as_str :: "job_state \<Rightarrow> string" where
  "job_state_as_str Pending = ''Pending''"
| "job_state_as_str Blocked = ''Blocked''"
| "job_state_as_str Eligible = ''Eligible''"
| "job_state_as_str Assigned = ''Assigned''"
| "job_state_as_str Running = ''Running''"
| "job_state_as_str Verifying = ''Verifying''"
| "job_state_as_str Committing = ''Committing''"
| "job_state_as_str Retrying = ''Retrying''"
| "job_state_as_str Succeeded = ''Succeeded''"
| "job_state_as_str Failed = ''Failed''"
| "job_state_as_str Cancelled = ''Cancelled''"
| "job_state_as_str DeadLettered = ''DeadLettered''"
| "job_state_as_str NeedsOperator = ''NeedsOperator''"

definition job_state_parse :: "string \<Rightarrow> job_state option" where
  "job_state_parse s =
     (if s = ''Pending'' then Some Pending else if s = ''Blocked'' then Some Blocked
      else if s = ''Eligible'' then Some Eligible else if s = ''Assigned'' then Some Assigned
      else if s = ''Running'' then Some Running else if s = ''Verifying'' then Some Verifying
      else if s = ''Committing'' then Some Committing else if s = ''Retrying'' then Some Retrying
      else if s = ''Succeeded'' then Some Succeeded else if s = ''Failed'' then Some Failed
      else if s = ''Cancelled'' then Some Cancelled else if s = ''DeadLettered'' then Some DeadLettered
      else if s = ''NeedsOperator'' then Some NeedsOperator else None)"

definition is_terminal :: "job_state \<Rightarrow> bool" where
  "is_terminal s \<longleftrightarrow>
     s = Succeeded \<or> s = Failed \<or> s = Cancelled \<or> s = DeadLettered \<or> s = NeedsOperator"

definition holds_capacity :: "job_state \<Rightarrow> bool" where
  "holds_capacity s \<longleftrightarrow> s = Assigned \<or> s = Running \<or> s = Verifying \<or> s = Committing"

definition can_transition :: "job_state \<Rightarrow> job_state \<Rightarrow> bool" where
  "can_transition from to \<longleftrightarrow>
     (if is_terminal from then False
      else case (from, to) of
        (_, Cancelled) \<Rightarrow> True
      | (Committing, NeedsOperator) \<Rightarrow> True
      | (Pending, Blocked) \<Rightarrow> True
      | (Pending, Eligible) \<Rightarrow> True
      | (Blocked, Eligible) \<Rightarrow> True
      | (Eligible, Blocked) \<Rightarrow> True
      | (Eligible, Assigned) \<Rightarrow> True
      | (Assigned, Running) \<Rightarrow> True
      | (Assigned, Retrying) \<Rightarrow> True
      | (Assigned, Failed) \<Rightarrow> True
      | (Running, Verifying) \<Rightarrow> True
      | (Running, Retrying) \<Rightarrow> True
      | (Running, Failed) \<Rightarrow> True
      | (Verifying, Committing) \<Rightarrow> True
      | (Verifying, Retrying) \<Rightarrow> True
      | (Verifying, Failed) \<Rightarrow> True
      | (Committing, Succeeded) \<Rightarrow> True
      | (Committing, Retrying) \<Rightarrow> True
      | (Committing, Failed) \<Rightarrow> True
      | (Retrying, Eligible) \<Rightarrow> True
      | (Retrying, Blocked) \<Rightarrow> True
      | (Retrying, DeadLettered) \<Rightarrow> True
      | (Retrying, Failed) \<Rightarrow> True
      | _ \<Rightarrow> False)"

record job_spec =
  js_class :: job_class
  js_size_bucket :: size_bucket
  js_requirements :: requirements
  js_expected_content_sig :: string

section \<open>File states\<close>

datatype file_state =
    FS_Discovered | FS_Probing | FS_Probed | FS_ProbeFailed | FS_Evaluated | FS_Processed
  | FS_Quarantined | FS_Missing

fun file_state_as_str :: "file_state \<Rightarrow> string" where
  "file_state_as_str FS_Discovered = ''Discovered''"
| "file_state_as_str FS_Probing = ''Probing''"
| "file_state_as_str FS_Probed = ''Probed''"
| "file_state_as_str FS_ProbeFailed = ''ProbeFailed''"
| "file_state_as_str FS_Evaluated = ''Evaluated''"
| "file_state_as_str FS_Processed = ''Processed''"
| "file_state_as_str FS_Quarantined = ''Quarantined''"
| "file_state_as_str FS_Missing = ''Missing''"

definition file_state_parse :: "string \<Rightarrow> file_state option" where
  "file_state_parse s =
     (if s = ''Discovered'' then Some FS_Discovered else if s = ''Probing'' then Some FS_Probing
      else if s = ''Probed'' then Some FS_Probed else if s = ''ProbeFailed'' then Some FS_ProbeFailed
      else if s = ''Evaluated'' then Some FS_Evaluated else if s = ''Processed'' then Some FS_Processed
      else if s = ''Quarantined'' then Some FS_Quarantined else if s = ''Missing'' then Some FS_Missing
      else None)"

definition has_usable_facts :: "file_state \<Rightarrow> bool" where
  "has_usable_facts s \<longleftrightarrow> s = FS_Probed \<or> s = FS_Evaluated \<or> s = FS_Processed"

section \<open>Spellings\<close>

interpretation job_class_spelling: canonical_spelling job_class_as_str job_class_parse
proof
  show "job_class_parse (job_class_as_str e) = Some e" for e
    by (cases e) (simp_all add: job_class_parse_def)
  show "job_class_parse s = Some e \<Longrightarrow> job_class_as_str e = s" for s e
    by (auto simp: job_class_parse_def split: if_splits)
qed

interpretation job_state_spelling: canonical_spelling job_state_as_str job_state_parse
proof
  show "job_state_parse (job_state_as_str e) = Some e" for e
    by (cases e) (simp_all add: job_state_parse_def)
  show "job_state_parse s = Some e \<Longrightarrow> job_state_as_str e = s" for s e
    by (auto simp: job_state_parse_def split: if_splits)
qed

interpretation file_state_spelling: canonical_spelling file_state_as_str file_state_parse
proof
  show "file_state_parse (file_state_as_str e) = Some e" for e
    by (cases e) (simp_all add: file_state_parse_def)
  show "file_state_parse s = Some e \<Longrightarrow> file_state_as_str e = s" for s e
    by (auto simp: file_state_parse_def split: if_splits)
qed

section \<open>The state machine\<close>

inductive job_step :: "job_state \<Rightarrow> job_state \<Rightarrow> bool" where
  "can_transition a b \<Longrightarrow> job_step a b"

lemma can_transition_terminal: "is_terminal a \<Longrightarrow> \<not> can_transition a b"
  by (simp add: can_transition_def)

lemma can_transition_irrefl: "\<not> can_transition a a"
  by (cases a) (simp_all add: can_transition_def is_terminal_def)

lemma can_transition_cancel: "can_transition a Cancelled \<longleftrightarrow> \<not> is_terminal a"
  by (cases a) (simp_all add: can_transition_def is_terminal_def)

lemma can_transition_not_to_pending: "\<not> can_transition a Pending"
  by (cases a) (simp_all add: can_transition_def is_terminal_def)

lemma predecessors:
  "can_transition a Succeeded \<longleftrightarrow> a = Committing"
  "can_transition a Committing \<longleftrightarrow> a = Verifying"
  "can_transition a Verifying \<longleftrightarrow> a = Running"
  "can_transition a Running \<longleftrightarrow> a = Assigned"
  "can_transition a Assigned \<longleftrightarrow> a = Eligible"
  "can_transition a DeadLettered \<longleftrightarrow> a = Retrying"
  "can_transition a NeedsOperator \<longleftrightarrow> a = Committing"
  by (cases a; simp add: can_transition_def is_terminal_def)+

text \<open>Capacity is taken only by assignment, and freed on every way out of the holding states.\<close>

lemma capacity_entry: "can_transition a b \<Longrightarrow> holds_capacity b \<Longrightarrow> \<not> holds_capacity a \<Longrightarrow> a = Eligible \<and> b = Assigned"
  by (cases b) (auto simp: holds_capacity_def predecessors)

lemma steps_from_terminal: "job_step\<^sup>*\<^sup>* a b \<Longrightarrow> is_terminal a \<Longrightarrow> b = a"
  by (induction rule: converse_rtranclp_induct) (auto simp: job_step.simps can_transition_terminal)

text \<open>A history: consecutive states are linked by legal transitions.\<close>

fun history :: "job_state list \<Rightarrow> bool" where
  "history [] = True"
| "history [a] = True"
| "history (a # b # h) = (can_transition a b \<and> history (b # h))"

lemma history_append: "history (xs @ ys) \<Longrightarrow> history xs \<and> history ys"
proof (induction xs rule: history.induct)
  case (2 a)
  then show ?case by (cases ys) auto
qed auto

lemma history_pred:
  assumes "history (pre @ [b])" "pre \<noteq> []"
  shows "can_transition (last pre) b"
  using assms by (induction pre rule: history.induct) auto

lemma history_suffix:
  assumes "history (h @ [Succeeded])" "h \<noteq> []" "hd h = Pending"
  shows "suffix [Eligible, Assigned, Running, Verifying, Committing, Succeeded] (h @ [Succeeded])"
proof -
  have step: "\<exists>h'. h = h' @ [a]" if "h \<noteq> []" "history (h @ b # r)" "can_transition (last h) b \<Longrightarrow> last h = a" for h a b r
  proof -
    have "history (h @ [b])" using that(2) history_append[of "h @ [b]" r] by simp
    then have "last h = a" using that history_pred by blast
    then show ?thesis using that(1) by (metis append_butlast_last_id)
  qed
  have hd: "hd (h' @ [a]) = Pending \<Longrightarrow> a \<noteq> Pending \<Longrightarrow> h' \<noteq> []" for h' and a :: job_state by (cases h') auto
  obtain h1 where h1: "h = h1 @ [Committing]" using step[OF assms(2), of Succeeded "[]"] assms(1) predecessors by auto
  then have n1: "h1 \<noteq> []" using assms(3) hd by auto
  obtain h2 where h2: "h1 = h2 @ [Verifying]"
    using step[OF n1, of Committing "[Succeeded]"] assms(1) h1 predecessors by auto
  then have n2: "h2 \<noteq> []" using assms(3) h1 hd[of h2] by (cases h2) auto
  obtain h3 where h3: "h2 = h3 @ [Running]"
    using step[OF n2, of Verifying "[Committing, Succeeded]"] assms(1) h1 h2 predecessors by auto
  then have n3: "h3 \<noteq> []" using assms(3) h1 h2 by (cases h3) auto
  obtain h4 where h4: "h3 = h4 @ [Assigned]"
    using step[OF n3, of Running "[Verifying, Committing, Succeeded]"] assms(1) h1 h2 h3 predecessors by auto
  then have n4: "h4 \<noteq> []" using assms(3) h1 h2 h3 by (cases h4) auto
  obtain h5 where h5: "h4 = h5 @ [Eligible]"
    using step[OF n4, of Assigned "[Running, Verifying, Committing, Succeeded]"] assms(1) h1 h2 h3 h4 predecessors
    by auto
  show ?thesis by (simp add: h1 h2 h3 h4 h5 suffix_def)
qed

section \<open>Properties\<close>

text \<open>
  C5. A terminal job is never reanimated, and success cannot be reached by a shortcut: no
  transition leaves a terminal state, every live job can be cancelled, and a history of legal
  transitions from \<open>Pending\<close> that ends in \<open>Succeeded\<close> ends with the full pass through
  \<open>Eligible\<close>, \<open>Assigned\<close>, \<open>Running\<close>, \<open>Verifying\<close> and \<open>Committing\<close>.
\<close>

theorem job_lifecycle:
  "(job_step\<^sup>*\<^sup>* a b \<longrightarrow> is_terminal a \<longrightarrow> b = a)
   \<and> (can_transition a Cancelled \<longleftrightarrow> \<not> is_terminal a)
   \<and> (history (Pending # h @ [Succeeded]) \<longrightarrow>
        suffix [Eligible, Assigned, Running, Verifying, Committing, Succeeded] (Pending # h @ [Succeeded]))"
  using history_suffix[of "Pending # h"] steps_from_terminal can_transition_cancel by auto

lemma job_lifecycle_witness:
  "suffix [Eligible, Assigned, Running, Verifying, Committing, Succeeded]
     (Pending # [Blocked, Eligible, Assigned, Retrying, Eligible, Assigned, Running, Verifying, Committing] @ [Succeeded])"
  by (rule job_lifecycle[THEN conjunct2, THEN conjunct2, rule_format])
    (simp add: can_transition_def is_terminal_def)

text \<open>
  The persisted spellings are faithful: for job classes, job states, file states and size
  buckets, parsing the canonical spelling gives the value back, every text that parses is the
  canonical spelling of the result, and so no two values share a spelling.
\<close>

lemma spellings_roundtrip:
  "(job_state_parse s = Some js \<longleftrightarrow> s = job_state_as_str js)
   \<and> (job_class_parse s = Some jc \<longleftrightarrow> s = job_class_as_str jc)
   \<and> (file_state_parse s = Some fs \<longleftrightarrow> s = file_state_as_str fs)
   \<and> (size_bucket_parse s = Some sb \<longleftrightarrow> s = size_bucket_as_str sb)"
  by (simp add: job_state_spelling.parse_eq_Some job_class_spelling.parse_eq_Some
      file_state_spelling.parse_eq_Some size_bucket_spelling.parse_eq_Some)

end
