(* ===== verification/Policy.thy ===== *)
theory Policy
  imports Validate Job
begin

text \<open>
  \<open>crates/transcodarr-core/src/policy.rs\<close>: rules, the evaluation of a policy against a file's
  facts, the encode and the validation contract a decision implies, and the job derived from it.
  The serialiser and the hash behind the policy version are arguments. The lemmas give the
  evaluation a declarative reading and relate decisions, encodes, jobs and contracts.
\<close>

section \<open>Data\<close>

record match =
  ma_video_codec_in :: "string list"
  ma_audio_codec_any :: "string list"
  ma_min_width :: "u32 option"
  ma_min_bit_rate_bps :: "u64 option"
  ma_min_size_bytes :: "u64 option"
  ma_is_hdr :: "bool option"
  ma_is_dovi :: "bool option"

definition default_match :: match where
  "default_match =
     \<lparr> ma_video_codec_in = [], ma_audio_codec_any = [], ma_min_width = None, ma_min_bit_rate_bps = None,
       ma_min_size_bytes = None, ma_is_hdr = None, ma_is_dovi = None \<rparr>"

definition matches :: "match \<Rightarrow> file_facts \<Rightarrow> bool" where
  "matches m f =
     (if ma_video_codec_in m \<noteq> []
         \<and> (case ff_video_codec f of Some c \<Rightarrow> \<not> list_ex (\<lambda>w. w = c) (ma_video_codec_in m) | None \<Rightarrow> True)
      then False
      else if ma_audio_codec_any m \<noteq> []
         \<and> \<not> list_ex (\<lambda>c. list_ex (\<lambda>w. contains c w) (ma_audio_codec_any m)) (ff_audio_codecs f)
      then False
      else if (case ma_min_width m of Some w \<Rightarrow> or_default 0 (ff_width f) < w | None \<Rightarrow> False)
      then False
      else if (case ma_min_bit_rate_bps m of Some b \<Rightarrow> or_default 0 (ff_bit_rate_bps f) < b | None \<Rightarrow> False)
      then False
      else if (case ma_min_size_bytes m of Some s \<Rightarrow> ff_size_bytes f < s | None \<Rightarrow> False)
      then False
      else if (case ma_is_hdr m of Some h \<Rightarrow> ff_is_hdr f \<noteq> h | None \<Rightarrow> False)
      then False
      else if (case ma_is_dovi m of Some d \<Rightarrow> ff_is_dovi f \<noteq> d | None \<Rightarrow> False)
      then False
      else True)"

datatype action =
    EncodeVideo "encoder_id list" u8
  | EncodeAudio encoder_id string
  | Skip
  | SkipVideo
  | Quarantine

record rule =
  ru_name :: string
  ru_when :: match
  ru_then :: action

record policy =
  po_rules :: "rule list"
  po_size_thresholds :: size_thresholds

datatype decision_class = DC_None | DC_Audio | DC_Video | DC_AudioThenVideo | DC_Quarantined

fun decision_class_as_str :: "decision_class \<Rightarrow> string" where
  "decision_class_as_str DC_None = ''None''"
| "decision_class_as_str DC_Audio = ''Audio''"
| "decision_class_as_str DC_Video = ''Video''"
| "decision_class_as_str DC_AudioThenVideo = ''AudioThenVideo''"
| "decision_class_as_str DC_Quarantined = ''Quarantined''"

definition decision_class_parse :: "string \<Rightarrow> decision_class option" where
  "decision_class_parse s =
     (if s = ''None'' then Some DC_None else if s = ''Audio'' then Some DC_Audio
      else if s = ''Video'' then Some DC_Video else if s = ''AudioThenVideo'' then Some DC_AudioThenVideo
      else if s = ''Quarantined'' then Some DC_Quarantined else None)"

interpretation decision_class_spelling: canonical_spelling decision_class_as_str decision_class_parse
proof
  show "decision_class_parse (decision_class_as_str e) = Some e" for e
    by (cases e) (simp_all add: decision_class_parse_def)
  show "decision_class_parse s = Some e \<Longrightarrow> decision_class_as_str e = s" for s e
    by (auto simp: decision_class_parse_def split: if_splits)
qed

record audio_plan =
  ap_codec :: encoder_id
  ap_bitrate :: string

record video_plan =
  vp_encoder_preference :: "encoder_id list"
  vp_quality :: u8
  vp_source_depth :: bit_depth

record decision =
  de_class :: decision_class
  de_audio :: "audio_plan option"
  de_video :: "video_plan option"
  de_reason :: string

record rule_trace =
  rt_rule :: string
  rt_matched :: bool
  rt_effect :: string

section \<open>The encode of a decision\<close>

definition encode_plan_for :: "decision \<Rightarrow> encode_plan option" where
  "encode_plan_for d =
     (case de_class d of
        DC_None \<Rightarrow> None
      | DC_Quarantined \<Rightarrow> None
      | DC_Video \<Rightarrow>
          (case de_video d of
             None \<Rightarrow> None
           | Some video \<Rightarrow>
               (case vp_encoder_preference video of
                  [] \<Rightarrow> None
                | encoder # _ \<Rightarrow>
                    Some \<lparr> ep_video_codec = encoder, ep_audio_codec = Copy,
                           ep_pix_fmt = pix_fmt_for encoder (vp_source_depth video),
                           ep_extra_args = [''-crf'', show_word (vp_quality video), ''-map'', ''0''] \<rparr>))
      | _ \<Rightarrow>
          (case de_audio d of
             None \<Rightarrow> None
           | Some audio \<Rightarrow>
               Some \<lparr> ep_video_codec = Copy, ep_audio_codec = ap_codec audio, ep_pix_fmt = None,
                      ep_extra_args = [''-b:a'', ap_bitrate audio, ''-map'', ''0''] \<rparr>))"

definition min_shrink_video :: f64 where
  "min_shrink_video = f64_round (2 / 100)"

definition validation_spec_for :: "file_facts \<Rightarrow> decision \<Rightarrow> validation_spec" where
  "validation_spec_for facts d =
     (let source_duration_us = or_default 0 (ff_duration_us facts);
          max_shorter_us = min (source_duration_us div 200) 5000000;
          size_policy = (case de_class d of
                           DC_Audio \<Rightarrow> MayGrow
                         | DC_AudioThenVideo \<Rightarrow> MayGrow
                         | _ \<Rightarrow> RequireSmaller min_shrink_video)
      in \<lparr> vs_source_duration_us = source_duration_us,
           vs_max_shorter_us = max_shorter_us,
           vs_max_longer_us = 2000000,
           vs_expected_audio_streams = ff_audio_track_count facts,
           vs_expected_subtitle_streams = ff_subtitle_track_count facts,
           vs_source_bytes = ff_size_bytes facts,
           vs_size_policy = size_policy \<rparr>)"

definition rules_version :: "(string \<Rightarrow> string) \<Rightarrow> (policy \<Rightarrow> string option) \<Rightarrow> policy \<Rightarrow> string" where
  "rules_version hash to_json policy = hash (or_default [] (to_json policy))"

section \<open>Evaluation\<close>

text \<open>The variables of the loop over the rules.\<close>

record eval_state =
  ev_audio :: "audio_plan option"
  ev_video :: "video_plan option"
  ev_video_vetoed :: bool
  ev_reasons :: "string list"
  ev_trace :: "rule_trace list"

definition push_trace :: "string \<Rightarrow> bool \<Rightarrow> string \<Rightarrow> eval_state \<Rightarrow> eval_state" where
  "push_trace name matched effect s =
     s \<lparr> ev_trace := ev_trace s @ [\<lparr> rt_rule = name, rt_matched = matched, rt_effect = effect \<rparr>] \<rparr>"

definition finish :: "eval_state \<Rightarrow> decision \<times> rule_trace list" where
  "finish s =
     (\<lparr> de_class = (case (ev_audio s \<noteq> None, ev_video s \<noteq> None) of
                      (False, False) \<Rightarrow> DC_None
                    | (True, False) \<Rightarrow> DC_Audio
                    | (False, True) \<Rightarrow> DC_Video
                    | (True, True) \<Rightarrow> DC_AudioThenVideo),
        de_audio = ev_audio s,
        de_video = ev_video s,
        de_reason = (if ev_reasons s = [] then ''no rule required work''
                     else join ''; '' (ev_reasons s)) \<rparr>,
      ev_trace s)"

fun eval_rules :: "file_facts \<Rightarrow> rule list \<Rightarrow> eval_state \<Rightarrow> decision \<times> rule_trace list" where
  "eval_rules facts [] s = finish s"
| "eval_rules facts (rule # rules) s =
     (if \<not> matches (ru_when rule) facts
      then eval_rules facts rules (push_trace (ru_name rule) False ''no match'' s)
      else
        (case ru_then rule of
           Skip \<Rightarrow>
             (\<lparr> de_class = DC_None, de_audio = None, de_video = None,
                de_reason = ''rule '' @ [CHR 0x27] @ ru_name rule @ [CHR 0x27] @ '' says skip'' \<rparr>,
              ev_trace (push_trace (ru_name rule) True ''skip all'' s))
         | Quarantine \<Rightarrow>
             (\<lparr> de_class = DC_Quarantined, de_audio = None, de_video = None,
                de_reason = ''rule '' @ [CHR 0x27] @ ru_name rule @ [CHR 0x27]
                            @ '' quarantined this file'' \<rparr>,
              ev_trace (push_trace (ru_name rule) True ''quarantine'' s))
         | SkipVideo \<Rightarrow>
             eval_rules facts rules
               (push_trace (ru_name rule) True ''video stage vetoed'' (s \<lparr> ev_video_vetoed := True \<rparr>))
         | EncodeAudio codec bitrate \<Rightarrow>
             (if ev_audio s = None
              then eval_rules facts rules
                     (push_trace (ru_name rule) True ''audio stage planned''
                       (s \<lparr> ev_audio := Some \<lparr> ap_codec = codec, ap_bitrate = bitrate \<rparr>,
                            ev_reasons := ev_reasons s @ [''audio -> '' @ encoder_as_ffmpeg codec] \<rparr>))
              else eval_rules facts rules
                     (push_trace (ru_name rule) True ''audio already planned by an earlier rule'' s))
         | EncodeVideo encoder_preference quality \<Rightarrow>
             (if ev_video_vetoed s
              then eval_rules facts rules
                     (push_trace (ru_name rule) True ''video stage vetoed, rule ignored'' s)
              else if ev_video s = None
              then eval_rules facts rules
                     (push_trace (ru_name rule) True ''video stage planned''
                       (s \<lparr> ev_video := Some \<lparr> vp_encoder_preference = encoder_preference,
                                               vp_quality = quality,
                                               vp_source_depth = or_default Eight (ff_video_bit_depth facts) \<rparr>,
                            ev_reasons := ev_reasons s @ [''video re-encode planned''] \<rparr>))
              else eval_rules facts rules
                     (push_trace (ru_name rule) True ''video already planned by an earlier rule'' s))))"

definition evaluate_explained :: "file_facts \<Rightarrow> policy \<Rightarrow> decision \<times> rule_trace list" where
  "evaluate_explained facts policy =
     (if is_excluded facts
      then (\<lparr> de_class = DC_Quarantined, de_audio = None, de_video = None,
              de_reason = (if ff_has_object_audio facts
                           then ''object audio (Atmos/DTS:X) would be destroyed by a channel re-encode''
                           else ''Dolby Vision profile cannot be round-tripped'') \<rparr>,
            [\<lparr> rt_rule = ''<builtin exclusion>'', rt_matched = True, rt_effect = ''quarantined'' \<rparr>])
      else
        let s0 = \<lparr> ev_audio = None, ev_video = None, ev_video_vetoed = False, ev_reasons = [], ev_trace = [] \<rparr>;
            s1 = (if \<not> video_is_encodable facts
                  then push_trace ''<builtin HDR/DV veto>'' True ''video stage vetoed''
                         (s0 \<lparr> ev_video_vetoed := True,
                               ev_reasons := [''video left alone (HDR or Dolby Vision)''] \<rparr>)
                  else s0)
        in eval_rules facts (po_rules policy) s1)"

definition evaluate :: "file_facts \<Rightarrow> policy \<Rightarrow> decision" where
  "evaluate facts policy = fst (evaluate_explained facts policy)"

section \<open>The next job\<close>

definition next_job :: "(string \<Rightarrow> string) \<Rightarrow> decision \<Rightarrow> file_facts \<Rightarrow> size_thresholds \<Rightarrow> job_spec option" where
  "next_job hash d facts t =
     (let bucket = size_bucket_for (ff_size_bytes facts) t;
          sig = content_sig hash facts
      in case de_class d of
           DC_None \<Rightarrow> None
         | DC_Quarantined \<Rightarrow> None
         | DC_Video \<Rightarrow>
             (case de_video d of
                None \<Rightarrow> None
              | Some plan \<Rightarrow>
                  (case vp_encoder_preference plan of
                     [] \<Rightarrow> None
                   | encoder # _ \<Rightarrow>
                       (let gpu = (encoder = HevcNvenc);
                            reqs = [R_AgentClass (if gpu then AC_Gpu else AC_Cpu), R_Encoder encoder,
                                    R_Muxer Matroska];
                            reqs = (case ff_video_codec facts of
                                      Some codec \<Rightarrow>
                                        reqs @ [R_Decoder \<lparr> dt_codec = codec, dt_profile = [],
                                                            dt_bit_depth = vp_source_depth plan,
                                                            dt_kind = Software \<rparr>]
                                    | None \<Rightarrow> reqs)
                        in Some \<lparr> js_class = (if gpu then JC_VideoGpu else JC_VideoCpu),
                                  js_size_bucket = bucket, js_requirements = reqs,
                                  js_expected_content_sig = sig \<rparr>)))
         | _ \<Rightarrow>
             (case de_audio d of
                None \<Rightarrow> None
              | Some plan \<Rightarrow>
                  Some \<lparr> js_class = JC_Audio, js_size_bucket = bucket,
                         js_requirements = [R_AgentClass AC_Audio, R_Encoder (ap_codec plan), R_Muxer Matroska],
                         js_expected_content_sig = sig \<rparr>))"

definition default_space_saver :: policy where
  "default_space_saver =
     \<lparr> po_rules =
         [\<lparr> ru_name = ''convert lossless and opus audio to eac3'',
            ru_when = default_match
              \<lparr> ma_audio_codec_any := [''truehd'', ''dts'', ''flac'', ''pcm'', ''mlp'', ''opus''] \<rparr>,
            ru_then = EncodeAudio Eac3 ''640k'' \<rparr>,
          \<lparr> ru_name = ''re-encode non-hevc video above 2 Mbps'',
            ru_when = default_match
              \<lparr> ma_video_codec_in := [''h264'', ''mpeg2video'', ''vc1''],
                ma_min_bit_rate_bps := Some 2000000 \<rparr>,
            ru_then = EncodeVideo [HevcNvenc, Libx265] 22 \<rparr>,
          \<lparr> ru_name = ''re-encode av1 on cpu only'',
            ru_when = default_match \<lparr> ma_video_codec_in := [''av1''] \<rparr>,
            ru_then = EncodeVideo [Libx265] 22 \<rparr>],
       po_size_thresholds = default_size_thresholds \<rparr>"

section \<open>The declarative reading\<close>

text \<open>
  The rules that match, in order. The first that says skip or quarantine decides alone; otherwise the
  first that plans audio gives the audio stage, and the first that plans video before any that vetoes
  it gives the video stage.
\<close>

definition matching_rules :: "file_facts \<Rightarrow> rule list \<Rightarrow> rule list" where
  "matching_rules facts rules = filter (\<lambda>r. matches (ru_when r) facts) rules"

definition stops :: "rule \<Rightarrow> bool" where
  "stops r \<longleftrightarrow> ru_then r = Skip \<or> ru_then r = Quarantine"

fun audio_of :: "action \<Rightarrow> audio_plan option" where
  "audio_of (EncodeAudio c b) = Some \<lparr> ap_codec = c, ap_bitrate = b \<rparr>"
| "audio_of _ = None"

fun video_of :: "file_facts \<Rightarrow> action \<Rightarrow> video_plan option" where
  "video_of facts (EncodeVideo p q) =
     Some \<lparr> vp_encoder_preference = p, vp_quality = q,
            vp_source_depth = or_default Eight (ff_video_bit_depth facts) \<rparr>"
| "video_of facts _ = None"

definition class_of_stages :: "audio_plan option \<Rightarrow> video_plan option \<Rightarrow> decision_class" where
  "class_of_stages a v =
     (if a = None then (if v = None then DC_None else DC_Video)
      else (if v = None then DC_Audio else DC_AudioThenVideo))"

type_synonym stages = "decision_class \<times> audio_plan option \<times> video_plan option"

definition stages_of :: "decision \<Rightarrow> stages" where
  "stages_of d = (de_class d, de_audio d, de_video d)"

definition reference_stages ::
    "file_facts \<Rightarrow> rule list \<Rightarrow> audio_plan option \<Rightarrow> video_plan option \<Rightarrow> bool \<Rightarrow> stages" where
  "reference_stages facts rules a0 v0 vetoed =
     (let ms = matching_rules facts rules in
      case List.find stops ms of
        Some r \<Rightarrow> (if ru_then r = Skip then DC_None else DC_Quarantined, None, None)
      | None \<Rightarrow>
          (let a = (if a0 \<noteq> None then a0 else find_map (\<lambda>r. audio_of (ru_then r)) ms);
               v = (if v0 \<noteq> None then v0 else if vetoed then None
                    else find_map (\<lambda>r. video_of facts (ru_then r))
                           (takeWhile (\<lambda>r. ru_then r \<noteq> SkipVideo) ms))
           in (class_of_stages a v, a, v)))"

definition reference_decision :: "file_facts \<Rightarrow> policy \<Rightarrow> stages" where
  "reference_decision facts p =
     (if is_excluded facts then (DC_Quarantined, None, None)
      else reference_stages facts (po_rules p) None None (\<not> video_is_encodable facts))"

lemma push_trace_simps [simp]:
  "ev_audio (push_trace n m e s) = ev_audio s" "ev_video (push_trace n m e s) = ev_video s"
  "ev_video_vetoed (push_trace n m e s) = ev_video_vetoed s"
  "ev_reasons (push_trace n m e s) = ev_reasons s"
  by (simp_all add: push_trace_def)

lemma stages_of_finish: "stages_of (fst (finish s)) = (class_of_stages (ev_audio s) (ev_video s), ev_audio s, ev_video s)"
  by (simp add: stages_of_def finish_def class_of_stages_def split: bool.splits)

lemma matching_rules_Cons:
  "matching_rules facts (r # rs) = (if matches (ru_when r) facts then r # matching_rules facts rs else matching_rules facts rs)"
  by (simp add: matching_rules_def)

lemma eval_rules_reference:
  "stages_of (fst (eval_rules facts rules s)) =
     reference_stages facts rules (ev_audio s) (ev_video s) (ev_video_vetoed s)"
proof (induction rules arbitrary: s)
  case Nil
  then show ?case
    by (cases "ev_audio s"; cases "ev_video s")
      (simp_all add: stages_of_finish reference_stages_def matching_rules_def Let_def)
next
  case (Cons r rules)
  show ?case
  proof (cases "matches (ru_when r) facts")
    case False
    then show ?thesis by (simp add: Cons.IH reference_stages_def matching_rules_Cons)
  next
    case True
    show ?thesis
    proof (cases "ru_then r")
      case Skip
      then show ?thesis using True
        by (simp add: reference_stages_def matching_rules_Cons stops_def stages_of_def Let_def)
    next
      case Quarantine
      then show ?thesis using True
        by (simp add: reference_stages_def matching_rules_Cons stops_def stages_of_def Let_def)
    next
      case SkipVideo
      then show ?thesis using True
        by (cases "ev_audio s"; cases "ev_video s") (simp_all add: reference_stages_def matching_rules_Cons stops_def Cons.IH Let_def split: option.splits)
    next
      case (EncodeAudio c b)
      then show ?thesis using True
        by (cases "ev_audio s"; cases "ev_video s") (simp_all add: reference_stages_def matching_rules_Cons stops_def Cons.IH Let_def split: option.splits)
    next
      case (EncodeVideo p q)
      then show ?thesis using True
        by (cases "ev_audio s"; cases "ev_video s") (simp_all add: reference_stages_def matching_rules_Cons stops_def Cons.IH Let_def split: option.splits)
    qed
  qed
qed

lemma evaluate_reference: "stages_of (evaluate facts p) = reference_decision facts p"
proof (cases "is_excluded facts")
  case True
  then show ?thesis
    by (simp add: evaluate_def evaluate_explained_def reference_decision_def stages_of_def)
next
  case False
  then show ?thesis
    by (simp add: evaluate_def evaluate_explained_def reference_decision_def Let_def eval_rules_reference)
qed

lemma evaluate_fields:
  "de_class (evaluate facts p) = fst (reference_decision facts p)"
  "de_audio (evaluate facts p) = fst (snd (reference_decision facts p))"
  "de_video (evaluate facts p) = snd (snd (reference_decision facts p))"
  by (simp_all add: evaluate_reference[symmetric] stages_of_def)

lemma class_of_stages_iff:
  "class_of_stages a v = DC_None \<longleftrightarrow> a = None \<and> v = None"
  "class_of_stages a v = DC_Audio \<longleftrightarrow> a \<noteq> None \<and> v = None"
  "class_of_stages a v = DC_Video \<longleftrightarrow> a = None \<and> v \<noteq> None"
  "class_of_stages a v = DC_AudioThenVideo \<longleftrightarrow> a \<noteq> None \<and> v \<noteq> None"
  "class_of_stages a v \<noteq> DC_Quarantined"
  by (auto simp: class_of_stages_def)

text \<open>What every decision satisfies: its class says which stages it has.\<close>

definition decision_ok :: "stages \<Rightarrow> bool" where
  "decision_ok st \<longleftrightarrow>
     (case st of (c, a, v) \<Rightarrow>
        (c = DC_Quarantined \<and> a = None \<and> v = None) \<or> c = class_of_stages a v)"

lemma reference_decision_ok: "decision_ok (reference_decision facts p)"
  by (auto simp: reference_decision_def reference_stages_def decision_ok_def class_of_stages_def Let_def
      split: option.splits)

lemma find_map_None: "find_map f xs = None \<longleftrightarrow> (\<forall>x \<in> set xs. f x = None)"
  by (induction xs) (auto split: option.splits)

section \<open>The built-in policy\<close>

lemma needs_audio_conversion_any:
  "needs_audio_conversion f \<longleftrightarrow>
     list_ex (\<lambda>c. list_ex (\<lambda>w. contains c w) [''truehd'', ''dts'', ''flac'', ''pcm'', ''mlp'', ''opus''])
       (ff_audio_codecs f)"
proof -
  have "contains ''pcm_s16le'' ''pcm''" unfolding contains_def by code_simp
  moreover have "contains ''pcm_s24le'' ''pcm''" unfolding contains_def by code_simp
  ultimately have "contains c ''pcm_s16le'' \<Longrightarrow> contains c ''pcm''" "contains c ''pcm_s24le'' \<Longrightarrow> contains c ''pcm''" for c
    using contains_trans by blast+
  then show ?thesis by (auto simp: needs_audio_conversion_def audio_needing_conversion_def list_ex_iff)
qed

lemma default_space_saver_audio_rule:
  "matches (default_match \<lparr> ma_audio_codec_any := [''truehd'', ''dts'', ''flac'', ''pcm'', ''mlp'', ''opus''] \<rparr>) f
   \<longleftrightarrow> needs_audio_conversion f"
  unfolding needs_audio_conversion_any by (simp add: matches_def default_match_def)

text \<open>The video codecs the built-in policy re-encodes, and from which bit rate.\<close>

definition saver_video :: "file_facts \<Rightarrow> video_plan option" where
  "saver_video f =
     (if ff_video_codec f \<in> {Some ''h264'', Some ''mpeg2video'', Some ''vc1''}
         \<and> 2000000 \<le> or_default 0 (ff_bit_rate_bps f)
      then video_of f (EncodeVideo [HevcNvenc, Libx265] 22)
      else if ff_video_codec f = Some ''av1'' then video_of f (EncodeVideo [Libx265] 22)
      else None)"

lemma default_space_saver_video_rules:
  "matches (default_match \<lparr> ma_video_codec_in := [''h264'', ''mpeg2video'', ''vc1''],
                            ma_min_bit_rate_bps := Some 2000000 \<rparr>) f
   \<longleftrightarrow> ff_video_codec f \<in> {Some ''h264'', Some ''mpeg2video'', Some ''vc1''}
        \<and> 2000000 \<le> or_default 0 (ff_bit_rate_bps f)"
  "matches (default_match \<lparr> ma_video_codec_in := [''av1''] \<rparr>) f \<longleftrightarrow> ff_video_codec f = Some ''av1''"
  by (cases "ff_video_codec f"; auto simp: matches_def default_match_def not_less)+

lemma default_space_saver_decision:
  assumes "\<not> is_excluded f"
  shows "stages_of (evaluate f default_space_saver) =
     (let a = (if needs_audio_conversion f then Some \<lparr> ap_codec = Eac3, ap_bitrate = ''640k'' \<rparr> else None);
          v = (if video_is_encodable f then saver_video f else None)
      in (class_of_stages a v, a, v))"
proof -
  let ?m2 = "ff_video_codec f \<in> {Some ''h264'', Some ''mpeg2video'', Some ''vc1''}
        \<and> 2000000 \<le> or_default 0 (ff_bit_rate_bps f)"
  note rules = default_space_saver_audio_rule default_space_saver_video_rules
  show ?thesis
    using assms
    by (cases "needs_audio_conversion f"; cases ?m2; cases "ff_video_codec f = Some ''av1''";
        cases "video_is_encodable f")
      (simp_all add: evaluate_reference reference_decision_def reference_stages_def matching_rules_def
        default_space_saver_def rules stops_def saver_video_def Let_def)
qed

section \<open>Encodes and jobs\<close>

lemma encode_plan_iff_next_job:
  "encode_plan_for d = None \<longleftrightarrow> next_job hash d facts t = None"
  by (auto simp: encode_plan_for_def next_job_def Let_def split: decision_class.splits option.splits list.splits)

lemma next_job_class:
  "next_job hash d facts t = Some j \<Longrightarrow>
   js_size_bucket j = size_bucket_for (ff_size_bytes facts) t \<and> js_expected_content_sig j = content_sig hash facts
   \<and> (de_class d = DC_Audio \<or> de_class d = DC_AudioThenVideo \<longleftrightarrow> js_class j = JC_Audio)"
  by (auto simp: next_job_def Let_def split: decision_class.splits option.splits list.splits if_splits)

text \<open>The job requires exactly the encoder its encode will run.\<close>

lemma next_job_encoder:
  "next_job hash d facts t = Some j \<Longrightarrow> encode_plan_for d = Some p \<Longrightarrow>
   (js_class j = JC_Audio \<and> ep_video_codec p = Copy \<and> R_Encoder (ep_audio_codec p) \<in> set (js_requirements j))
   \<or> (js_class j = (if ep_video_codec p = HevcNvenc then JC_VideoGpu else JC_VideoCpu)
      \<and> ep_audio_codec p = Copy \<and> R_Encoder (ep_video_codec p) \<in> set (js_requirements j))"
  by (auto simp: next_job_def encode_plan_for_def Let_def
      split: decision_class.splits option.splits list.splits)

lemma validation_spec_for_tolerance:
  "uint (vs_max_shorter_us (validation_spec_for facts d))
   = min (uint (or_default 0 (ff_duration_us facts)) div 200) 5000000"
proof -
  define s where "s = or_default 0 (ff_duration_us facts)"
  have "uint (s div 200) = uint s div 200" by (simp add: uint_div)
  then have "uint (min (s div 200) 5000000) = min (uint s div 200) 5000000"
    by (simp add: min_def word_le_def)
  then show ?thesis by (simp add: validation_spec_for_def s_def Let_def)
qed

section \<open>Properties\<close>

text \<open>
  C1. No policy can override the hard exclusions: whatever its rules, a file with object audio or an
  unsafe Dolby Vision profile is quarantined and has neither an encode nor a job, and a file with HDR
  or Dolby Vision never has its video re-encoded: its encode, if it has one, copies the video.
\<close>

theorem exclusions_not_overridable:
  "(is_excluded facts \<longrightarrow>
      de_class (evaluate facts p) = DC_Quarantined
    \<and> encode_plan_for (evaluate facts p) = None \<and> next_job hash (evaluate facts p) facts t = None)
   \<and> (ff_is_hdr facts \<or> ff_is_dovi facts \<longrightarrow>
      de_video (evaluate facts p) = None
    \<and> (\<forall>e. encode_plan_for (evaluate facts p) = Some e \<longrightarrow> ep_video_codec e = Copy))"
proof (intro conjI impI)
  assume "is_excluded facts"
  then show "de_class (evaluate facts p) = DC_Quarantined"
    and "encode_plan_for (evaluate facts p) = None" and "next_job hash (evaluate facts p) facts t = None"
    by (simp_all add: evaluate_fields reference_decision_def encode_plan_for_def next_job_def)
next
  assume "ff_is_hdr facts \<or> ff_is_dovi facts"
  then have v: "\<not> video_is_encodable facts" by (auto simp: video_is_encodable_def)
  then show n: "de_video (evaluate facts p) = None"
    by (simp add: evaluate_fields reference_decision_def reference_stages_def Let_def split: option.splits)
  show "\<forall>e. encode_plan_for (evaluate facts p) = Some e \<longrightarrow> ep_video_codec e = Copy"
    using n by (auto simp: encode_plan_for_def split: decision_class.splits option.splits)
qed

lemma exclusions_not_overridable_witness:
  "de_class (evaluate (sample_facts \<lparr> ff_has_object_audio := True \<rparr>) default_space_saver) = DC_Quarantined"
  using exclusions_not_overridable[of "sample_facts \<lparr> ff_has_object_audio := True \<rparr>" default_space_saver
      "\<lambda>s. s" default_size_thresholds]
  by (simp add: is_excluded_def)

text \<open>
  C3. The rule loop computes the declarative reading of a policy: among the matching rules, the first
  that skips or quarantines decides alone; otherwise the audio stage is that of the first rule planning
  audio, the video stage that of the first rule planning video before any video veto, and the class
  says exactly which stages there are.
\<close>

theorem evaluate_is_first_match:
  "stages_of (evaluate facts p) = reference_decision facts p
   \<and> decision_ok (stages_of (evaluate facts p))"
  by (simp add: evaluate_reference reference_decision_ok)

text \<open>
  C4. A decision, its encode and its job agree: there is a job exactly when there is an encode; the
  job is signed with the file's facts and put in the bucket of its size; an audio job copies the video
  and requires the audio encoder of the encode, a video job copies the audio and requires its video
  encoder, on the GPU class exactly for NVENC.
\<close>

theorem job_matches_encode:
  "(next_job hash d facts t = None \<longleftrightarrow> encode_plan_for d = None)
   \<and> (\<forall>j p. next_job hash d facts t = Some j \<longrightarrow> encode_plan_for d = Some p \<longrightarrow>
        js_size_bucket j = size_bucket_for (ff_size_bytes facts) t
      \<and> js_expected_content_sig j = content_sig hash facts
      \<and> ((js_class j = JC_Audio \<and> ep_video_codec p = Copy
            \<and> R_Encoder (ep_audio_codec p) \<in> set (js_requirements j))
         \<or> (js_class j = (if ep_video_codec p = HevcNvenc then JC_VideoGpu else JC_VideoCpu)
            \<and> ep_audio_codec p = Copy \<and> R_Encoder (ep_video_codec p) \<in> set (js_requirements j))))"
  using encode_plan_iff_next_job[of d hash facts t] next_job_class[of hash d facts t]
    next_job_encoder[of hash d facts t] by blast

lemma sample_decision: "evaluate sample_facts default_space_saver =
  \<lparr> de_class = DC_Audio, de_audio = Some \<lparr> ap_codec = Eac3, ap_bitrate = ''640k'' \<rparr>, de_video = None,
    de_reason = ''audio -> eac3'' \<rparr>"
  by code_simp

lemma job_matches_encode_witness:
  "js_expected_content_sig (the (next_job (\<lambda>s. s) (evaluate sample_facts default_space_saver) sample_facts
      default_size_thresholds)) = content_sig (\<lambda>s. s) sample_facts"
proof -
  have d: "de_class (evaluate sample_facts default_space_saver) = DC_Audio"
    "de_audio (evaluate sample_facts default_space_saver) \<noteq> None"
    by (simp_all add: sample_decision)
  then obtain j e where
    "next_job (\<lambda>s. s) (evaluate sample_facts default_space_saver) sample_facts default_size_thresholds = Some j"
    "encode_plan_for (evaluate sample_facts default_space_saver) = Some e"
    by (auto simp: next_job_def encode_plan_for_def Let_def)
  with job_matches_encode show ?thesis by (metis option.sel)
qed

text \<open>
  The built-in policy does what it is named for: for a file that is not excluded it plans audio
  exactly when a track needs conversion, always to EAC3 at 640k, and plans video exactly when the
  video may be re-encoded and is H.264, MPEG-2 or VC-1 at 2 Mbps or more, or AV1, which is never
  offered to the GPU.
\<close>

lemma default_space_saver_decides:
  "\<not> is_excluded f \<Longrightarrow>
   stages_of (evaluate f default_space_saver) =
     (let a = (if needs_audio_conversion f then Some \<lparr> ap_codec = Eac3, ap_bitrate = ''640k'' \<rparr> else None);
          v = (if video_is_encodable f then saver_video f else None)
      in (class_of_stages a v, a, v))"
  by (rule default_space_saver_decision)

lemma default_space_saver_decides_witness:
  "stages_of (evaluate sample_facts default_space_saver) =
     (DC_Audio, Some \<lparr> ap_codec = Eac3, ap_bitrate = ''640k'' \<rparr>, None)"
proof -
  have x: "\<not> is_excluded sample_facts" by (simp add: is_excluded_def sample_facts_def)
  have n: "needs_audio_conversion sample_facts"
    by (simp add: needs_audio_conversion_any sample_facts_def)
  have v: "saver_video sample_facts = None" by (simp add: saver_video_def sample_facts_def)
  show ?thesis by (subst default_space_saver_decides[OF x]) (simp add: n v class_of_stages_def)
qed

text \<open>
  What an installed output can have lost: an output accepted under the contract of its own source
  has at least the source's audio and subtitle streams, is shorter by at most a two-hundredth of the
  source and never by more than five seconds, and longer by at most two seconds.
\<close>

theorem accepted_output_bounds:
  assumes "vr_passed (validate_output (validation_spec_for facts d) probe e n)"
    and "ff_duration_us facts = Some src" "mp_duration_us probe = Some out"
  shows "uint src - uint out \<le> min (uint src div 200) 5000000
       \<and> uint out - uint src \<le> 2000000
       \<and> ff_audio_track_count facts \<le> audio_count probe
       \<and> ff_subtitle_track_count facts \<le> subtitle_count probe"
proof -
  let ?s = "validation_spec_for facts d"
  have "duration_ok ?s probe" "streams_ok ?s probe"
    using assms(1) validate_output_accepts_iff' by auto
  moreover have "vs_source_duration_us ?s = src" "vs_max_longer_us ?s = 2000000"
    "vs_expected_audio_streams ?s = ff_audio_track_count facts"
    "vs_expected_subtitle_streams ?s = ff_subtitle_track_count facts"
    using assms(2) by (simp_all add: validation_spec_for_def Let_def)
  ultimately show ?thesis
    using assms(2,3) validation_spec_for_tolerance[of facts d]
    by (simp add: duration_ok_def streams_ok_def)
qed

text \<open>
  A file whose duration ffprobe did not report can only be replaced by an output of at most two
  seconds, since its contract takes the missing duration for zero.
\<close>

lemma missing_duration_contract:
  assumes "ff_duration_us facts = None" "vr_passed (validate_output (validation_spec_for facts d) probe e n)"
  shows "\<exists>out. mp_duration_us probe = Some out \<and> uint out \<le> 2000000"
proof -
  have "duration_ok (validation_spec_for facts d) probe"
    using assms(2) validate_output_accepts_iff' by auto
  then show ?thesis
    using assms(1) by (auto simp: duration_ok_def validation_spec_for_def Let_def split: option.splits)
qed

definition sample_stream :: "stream_kind \<Rightarrow> stream_info" where
  "sample_stream k =
     \<lparr> si_index = 0, si_kind = k, si_codec = ''c'', si_profile = None, si_pix_fmt = None, si_width = None,
       si_height = None, si_bit_depth = None, si_channels = None, si_channel_layout = None,
       si_bit_rate_bps = None, si_language = None, si_title = None, si_is_default = False,
       si_is_forced = False \<rparr>"

definition sample_output :: media_probe where
  "sample_output =
     \<lparr> mp_container = ''matroska,webm'', mp_duration_us = Some 996000, mp_bit_rate_bps = None,
       mp_size_bytes = None,
       mp_streams = [sample_stream SK_Video, sample_stream SK_Audio, sample_stream SK_Audio,
                     sample_stream SK_Subtitle, sample_stream SK_Subtitle, sample_stream SK_Subtitle] \<rparr>"

lemma accepted_output_bounds_witness:
  "uint (1000000 :: u64) - uint (996000 :: u64) \<le> min (uint (1000000 :: u64) div 200) 5000000"
proof -
  have d: "de_class (evaluate sample_facts default_space_saver) = DC_Audio" by (simp add: sample_decision)
  have "vr_passed (validate_output (validation_spec_for sample_facts (evaluate sample_facts default_space_saver))
      sample_output 0 9000)"
    using d
    by (simp add: validate_output_accepts_iff' duration_ok_def streams_ok_def size_ok_def validation_spec_for_def
        sample_output_def sample_facts_def sample_stream_def audio_count_def subtitle_count_def streams_of_def
        Let_def min_def)
  from accepted_output_bounds[OF this, of 1000000 996000] show ?thesis
    by (simp add: sample_facts_def sample_output_def)
qed

end
