(* ===== verification/Preset.thy ===== *)
theory Preset
  imports Plan
begin

text \<open>
  \<open>crates/transcodarr-core/src/preset.rs\<close>: the built-in presets, their look-up by name or alias and
  the resolution of a preset with explicit overrides into an encode plan.
\<close>

record preset =
  pr_name :: string
  pr_aliases :: "string list"
  pr_video :: encoder_id
  pr_audio :: encoder_id
  pr_args :: "string list"
  pr_description :: string

definition builtin :: "preset list" where
  "builtin =
     [\<lparr> pr_name = ''original-h265'', pr_aliases = [''original''], pr_video = Libx265, pr_audio = Aac,
        pr_args = [''-crf'', ''18'', ''-preset'', ''slow'', ''-b:a'', ''256k''],
        pr_description = ''archive quality: h265 CRF 18 slow, AAC 256k'' \<rparr>,
      \<lparr> pr_name = ''tv-h265-fast'', pr_aliases = [''tv-fast''], pr_video = Libx265, pr_audio = Aac,
        pr_args = [''-crf'', ''22'', ''-preset'', ''medium'', ''-b:a'', ''160k''],
        pr_description = ''TV episodes: h265 CRF 22 medium, AAC 160k'' \<rparr>,
      \<lparr> pr_name = ''movie-quality'', pr_aliases = [''movie''], pr_video = Libx265, pr_audio = Aac,
        pr_args = [''-crf'', ''16'', ''-preset'', ''slow'', ''-b:a'', ''320k''],
        pr_description = ''films: h265 CRF 16 slow, AAC 320k'' \<rparr>]"

definition valid_names :: string where
  "valid_names =
     join '', '' (map (\<lambda>p. if pr_aliases p = [] then pr_name p
                          else pr_name p @ '' (aliases: '' @ join '', '' (pr_aliases p) @ '')'') builtin)"

definition lookup_preset :: "string \<Rightarrow> core_error + preset" where
  "lookup_preset name =
     (case List.find (\<lambda>p. pr_name p = name \<or> name \<in> set (pr_aliases p)) builtin of
        Some p \<Rightarrow> Inr p
      | None \<Rightarrow> Inl (UnknownPreset name valid_names))"

definition or_option :: "'a option \<Rightarrow> 'a option \<Rightarrow> 'a option" where
  "or_option a b = (case a of Some _ \<Rightarrow> a | None \<Rightarrow> b)"

definition apply_preset ::
    "string option \<Rightarrow> encoder_id option \<Rightarrow> encoder_id option \<Rightarrow> string list \<Rightarrow> encoder_id \<Rightarrow> encoder_id
     \<Rightarrow> core_error + encode_plan" where
  "apply_preset preset vcodec acodec extra default_video default_audio =
     bindR (case preset of None \<Rightarrow> Inr None
              | Some name \<Rightarrow> bindR (lookup_preset name) (\<lambda>p. Inr (Some p)))
       (\<lambda>found.
          Inr \<lparr> ep_video_codec = or_default default_video (or_option vcodec (map_option pr_video found)),
                ep_audio_codec = or_default default_audio (or_option acodec (map_option pr_audio found)),
                ep_pix_fmt = None,
                ep_extra_args = or_default [] (map_option pr_args found) @ extra \<rparr>)"

text \<open>Every accepted name belongs to one preset.\<close>

lemma builtin_names_distinct: "distinct (concat (map (\<lambda>p. pr_name p # pr_aliases p) builtin))"
  by (simp add: builtin_def)

lemma lookup_preset_error:
  "(\<exists>e. lookup_preset name = Inl e) \<longleftrightarrow> (\<forall>p \<in> set builtin. pr_name p \<noteq> name \<and> name \<notin> set (pr_aliases p))"
  by (auto simp: lookup_preset_def find_None_iff split: option.splits dest: find_SomeD)

text \<open>User arguments come after the preset's own, and explicit codecs override it.\<close>

lemma apply_preset_precedence:
  "apply_preset preset (Some v) (Some a) extra dv da = Inr plan \<Longrightarrow>
   ep_video_codec plan = v \<and> ep_audio_codec plan = a \<and> suffix extra (ep_extra_args plan)"
  by (auto simp: apply_preset_def bindR_Inr_iff or_option_def suffix_def)

end
