(* ===== verification/Capacity.thy ===== *)
theory Capacity
  imports Job
begin

text \<open>
  \<open>crates/transcodarr-server/src/capacity.rs\<close>: the ledger of what every agent is running. Slot
  counts are 32-bit words as in the code. The lemmas give the ledger's invariant (distinct keys, the
  same agents on both sides, one holder per job, counts that fit their width), show that every
  operation keeps it, and characterise admission, release and the rebuild after a restart. The
  locale \<open>slot_ledger\<close> states what the dispatcher relies on.
\<close>

section \<open>Data\<close>

record agent_limits =
  al_total_slots :: u32
  al_per_class :: "(job_class \<times> u32) list"
  al_large_slots :: u32

definition flat_limits :: "u32 \<Rightarrow> u32 \<Rightarrow> agent_limits" where
  "flat_limits tot large = \<lparr> al_total_slots = tot, al_per_class = [], al_large_slots = large \<rparr>"

definition class_limit :: "agent_limits \<Rightarrow> job_class \<Rightarrow> u32" where
  "class_limit l c = or_default (- 1) (map_of (al_per_class l) c)"

record grant =
  gr_class :: job_class
  gr_size_bucket :: size_bucket

datatype refusal = UnknownAgent | TotalSlots | ClassSlots | LargeSlots | AlreadyHeld

fun refusal_label :: "refusal \<Rightarrow> string" where
  "refusal_label UnknownAgent = ''unknown_agent''"
| "refusal_label TotalSlots = ''capacity_total''"
| "refusal_label ClassSlots = ''capacity_class''"
| "refusal_label LargeSlots = ''capacity_large''"
| "refusal_label AlreadyHeld = ''already_held''"

definition occupies_slot :: "job_state \<Rightarrow> bool" where
  "occupies_slot s = holds_capacity s"

type_synonym holdings = "(string \<times> grant) list"

record ledger =
  cl_limits :: "(string \<times> agent_limits) list"
  cl_held :: "(string \<times> holdings) list"

definition new_ledger :: ledger where
  "new_ledger = \<lparr> cl_limits = [], cl_held = [] \<rparr>"

section \<open>Operations\<close>

definition set_limits :: "string \<Rightarrow> agent_limits \<Rightarrow> ledger \<Rightarrow> ledger" where
  "set_limits agent lm l =
     l \<lparr> cl_limits := AList.update agent lm (cl_limits l),
         cl_held := (case map_of (cl_held l) agent of
                       Some _ \<Rightarrow> cl_held l
                     | None \<Rightarrow> AList.update agent [] (cl_held l)) \<rparr>"

definition remove_agent :: "string \<Rightarrow> ledger \<Rightarrow> ledger" where
  "remove_agent agent l =
     l \<lparr> cl_limits := AList.delete agent (cl_limits l), cl_held := AList.delete agent (cl_held l) \<rparr>"

definition in_flight :: "ledger \<Rightarrow> string \<Rightarrow> u32" where
  "in_flight l agent = or_default 0 (map_option (\<lambda>m. of_nat (length m)) (map_of (cl_held l) agent))"

definition large_in_flight :: "ledger \<Rightarrow> string \<Rightarrow> u32" where
  "large_in_flight l agent =
     or_default 0 (map_option (\<lambda>m. of_nat (length (filter (\<lambda>(_, g). gr_size_bucket g = Large) m)))
                     (map_of (cl_held l) agent))"

definition class_in_flight :: "ledger \<Rightarrow> string \<Rightarrow> job_class \<Rightarrow> u32" where
  "class_in_flight l agent c =
     or_default 0 (map_option (\<lambda>m. of_nat (length (filter (\<lambda>(_, g). gr_class g = c) m)))
                     (map_of (cl_held l) agent))"

definition holder_of :: "ledger \<Rightarrow> string \<Rightarrow> string option" where
  "holder_of l job = map_option fst (List.find (\<lambda>(_, jobs). map_of jobs job \<noteq> None) (cl_held l))"

definition try_acquire :: "string \<Rightarrow> string \<Rightarrow> grant \<Rightarrow> ledger \<Rightarrow> refusal + ledger" where
  "try_acquire agent job g l =
     (case map_of (cl_limits l) agent of
        None \<Rightarrow> Inl UnknownAgent
      | Some limits \<Rightarrow>
          if holder_of l job \<noteq> None then Inl AlreadyHeld
          else if in_flight l agent \<ge> al_total_slots limits then Inl TotalSlots
          else if class_in_flight l agent (gr_class g) \<ge> class_limit limits (gr_class g) then Inl ClassSlots
          else if gr_size_bucket g = Large \<and> large_in_flight l agent \<ge> al_large_slots limits
          then Inl LargeSlots
          else Inr (l \<lparr> cl_held :=
                 AList.update agent (AList.update job g (or_default [] (map_of (cl_held l) agent))) (cl_held l) \<rparr>))"

fun release_first :: "string \<Rightarrow> (string \<times> holdings) list \<Rightarrow> bool \<times> (string \<times> holdings) list" where
  "release_first job [] = (False, [])"
| "release_first job ((agent, jobs) # rest) =
     (if map_of jobs job \<noteq> None then (True, (agent, AList.delete job jobs) # rest)
      else (let (found, rest') = release_first job rest in (found, (agent, jobs) # rest')))"

definition release :: "string \<Rightarrow> ledger \<Rightarrow> bool \<times> ledger" where
  "release job l = (let (found, held) = release_first job (cl_held l) in (found, l \<lparr> cl_held := held \<rparr>))"

definition on_transition :: "string \<Rightarrow> job_state \<Rightarrow> job_state \<Rightarrow> ledger \<Rightarrow> ledger" where
  "on_transition job from to l =
     (if occupies_slot from \<and> \<not> occupies_slot to then snd (release job l) else l)"

type_synonym flight = "string \<times> string \<times> grant \<times> job_state"

fun rebuild_loop :: "flight list \<Rightarrow> (string \<times> holdings) list \<Rightarrow> string list
    \<Rightarrow> (string \<times> holdings) list \<times> string list" where
  "rebuild_loop [] held orphaned = (held, orphaned)"
| "rebuild_loop ((agent, job, g, state) # rest) held orphaned =
     (if \<not> occupies_slot state then rebuild_loop rest held orphaned
      else (case map_of held agent of
              Some jobs \<Rightarrow> rebuild_loop rest (AList.update agent (AList.update job g jobs) held) orphaned
            | None \<Rightarrow> rebuild_loop rest held (orphaned @ [job])))"

definition rebuild :: "flight list \<Rightarrow> ledger \<Rightarrow> ledger \<times> string list" where
  "rebuild flights l =
     (let (held, orphaned) = rebuild_loop flights (map (\<lambda>(a, _). (a, [])) (cl_held l)) []
      in (l \<lparr> cl_held := held \<rparr>, orphaned))"

section \<open>Invariant\<close>

text \<open>The jobs an agent holds, and who holds a job, as mathematical maps.\<close>

definition jobs_of :: "ledger \<Rightarrow> string \<Rightarrow> holdings" where
  "jobs_of l agent = or_default [] (map_of (cl_held l) agent)"

definition holds :: "ledger \<Rightarrow> string \<Rightarrow> string \<Rightarrow> bool" where
  "holds l agent job \<longleftrightarrow> map_of (jobs_of l agent) job \<noteq> None"

definition ledger_ok :: "ledger \<Rightarrow> bool" where
  "ledger_ok l \<longleftrightarrow>
     keys_distinct (cl_limits l) \<and> keys_distinct (cl_held l)
   \<and> dom (map_of (cl_limits l)) = dom (map_of (cl_held l))
   \<and> (\<forall>a. keys_distinct (jobs_of l a) \<and> length (jobs_of l a) < 2 ^ 32)
   \<and> (\<forall>a b j. holds l a j \<longrightarrow> holds l b j \<longrightarrow> a = b)"

lemma holder_of_holds:
  assumes "keys_distinct (cl_held l)"
  shows "holder_of l j = Some a \<Longrightarrow> holds l a j"
proof -
  assume "holder_of l j = Some a"
  then obtain jobs where f: "List.find (\<lambda>(_, jobs). map_of jobs j \<noteq> None) (cl_held l) = Some (a, jobs)"
    by (auto simp: holder_of_def)
  then have "(a, jobs) \<in> set (cl_held l)" "map_of jobs j \<noteq> None" by (auto dest: find_SomeD)
  then show "holds l a j"
    using assms by (simp add: holds_def jobs_of_def keys_distinct_def)
qed

lemma holder_of_None: "keys_distinct (cl_held l) \<Longrightarrow> holder_of l j = None \<longleftrightarrow> (\<forall>a. \<not> holds l a j)"
proof
  assume k: "keys_distinct (cl_held l)" and n: "holder_of l j = None"
  show "\<forall>a. \<not> holds l a j"
  proof (intro allI notI)
    fix a
    assume "holds l a j"
    then obtain jobs where "map_of (cl_held l) a = Some jobs" "map_of jobs j \<noteq> None"
      by (cases "map_of (cl_held l) a") (auto simp: holds_def jobs_of_def)
    then have "(a, jobs) \<in> set (cl_held l)" by (simp add: map_of_SomeD)
    then show False
      using n \<open>map_of jobs j \<noteq> None\<close> by (auto simp: holder_of_def find_None_iff)
  qed
next
  assume k: "keys_distinct (cl_held l)" and "\<forall>a. \<not> holds l a j"
  then show "holder_of l j = None" using holder_of_holds[OF k, of j] by (cases "holder_of l j") auto
qed

lemma holder_of_iff: "ledger_ok l \<Longrightarrow> holder_of l j = Some a \<longleftrightarrow> holds l a j"
  using holder_of_holds[of l j] holder_of_None[of l j]
  by (cases "holder_of l j") (auto simp: ledger_ok_def)

lemma ledger_ok_new [simp]: "ledger_ok new_ledger"
  by (simp add: ledger_ok_def new_ledger_def jobs_of_def holds_def)

lemma jobs_of_set_limits [simp]: "jobs_of (set_limits a lm l) b = jobs_of l b"
  by (simp add: jobs_of_def set_limits_def split: option.splits)

lemma ledger_ok_set_limits: "ledger_ok l \<Longrightarrow> ledger_ok (set_limits a lm l)"
  unfolding ledger_ok_def holds_def jobs_of_set_limits
  by (auto simp: set_limits_def keys_distinct_update split: option.splits)

lemma jobs_of_remove_agent [simp]: "jobs_of (remove_agent a l) b = (if b = a then [] else jobs_of l b)"
  by (simp add: jobs_of_def remove_agent_def)

lemma ledger_ok_remove_agent: "ledger_ok l \<Longrightarrow> ledger_ok (remove_agent a l)"
  unfolding ledger_ok_def holds_def jobs_of_remove_agent
  by (auto simp: remove_agent_def keys_distinct_delete)

subsection \<open>Admission\<close>

text \<open>Word counts are the real counts.\<close>

lemma unat_in_flight:
  assumes "ledger_ok l"
  shows "unat (in_flight l a) = length (jobs_of l a)"
    and "unat (class_in_flight l a c) = length (filter (\<lambda>(_, g). gr_class g = c) (jobs_of l a))"
    and "unat (large_in_flight l a) = length (filter (\<lambda>(_, g). gr_size_bucket g = Large) (jobs_of l a))"
proof -
  have n: "length (jobs_of l a) < 2 ^ 32" using assms by (simp add: ledger_ok_def)
  have u: "unat (of_nat k :: u32) = k" if "k < 2 ^ 32" for k
    using that by (simp add: unsigned_of_nat take_bit_nat_eq_self_iff)
  have f: "length (filter P (jobs_of l a)) < 2 ^ 32" for P
    using n length_filter_le[of P "jobs_of l a"] by linarith
  show "unat (in_flight l a) = length (jobs_of l a)"
    using n u by (cases "map_of (cl_held l) a") (auto simp: in_flight_def jobs_of_def)
  show "unat (class_in_flight l a c) = length (filter (\<lambda>(_, g). gr_class g = c) (jobs_of l a))"
    using f[of "\<lambda>(_, g). gr_class g = c"] u
    by (cases "map_of (cl_held l) a") (auto simp: class_in_flight_def jobs_of_def)
  show "unat (large_in_flight l a) = length (filter (\<lambda>(_, g). gr_size_bucket g = Large) (jobs_of l a))"
    using f[of "\<lambda>(_, g). gr_size_bucket g = Large"] u
    by (cases "map_of (cl_held l) a") (auto simp: large_in_flight_def jobs_of_def)
qed

text \<open>An agent's holdings are within its limits.\<close>

definition within_limits :: "agent_limits \<Rightarrow> holdings \<Rightarrow> bool" where
  "within_limits lm jobs \<longleftrightarrow>
     length jobs \<le> unat (al_total_slots lm)
   \<and> (\<forall>c. length (filter (\<lambda>(_, g). gr_class g = c) jobs) \<le> unat (class_limit lm c))
   \<and> length (filter (\<lambda>(_, g). gr_size_bucket g = Large) jobs) \<le> unat (al_large_slots lm)"

lemma try_acquire_Inr:
  assumes "ledger_ok l" "try_acquire a j g l = Inr l'"
  obtains lm where "map_of (cl_limits l) a = Some lm" "\<forall>b. \<not> holds l b j"
    "cl_limits l' = cl_limits l"
    "jobs_of l' a = jobs_of l a @ [(j, g)]" "\<And>b. b \<noteq> a \<Longrightarrow> jobs_of l' b = jobs_of l b"
    "length (jobs_of l a) < unat (al_total_slots lm)"
    "length (filter (\<lambda>(_, h). gr_class h = gr_class g) (jobs_of l a)) < unat (class_limit lm (gr_class g))"
    "gr_size_bucket g = Large \<Longrightarrow>
       length (filter (\<lambda>(_, h). gr_size_bucket h = Large) (jobs_of l a)) < unat (al_large_slots lm)"
    "cl_held l' = AList.update a (jobs_of l a @ [(j, g)]) (cl_held l)"
proof -
  obtain lm where lm: "map_of (cl_limits l) a = Some lm"
    using assms(2) by (cases "map_of (cl_limits l) a") (auto simp: try_acquire_def)
  have h: "holder_of l j = None" and t: "in_flight l a < al_total_slots lm"
    and c: "class_in_flight l a (gr_class g) < class_limit lm (gr_class g)"
    and b: "gr_size_bucket g = Large \<Longrightarrow> large_in_flight l a < al_large_slots lm"
    and l': "l' = l \<lparr> cl_held := AList.update a (AList.update j g (jobs_of l a)) (cl_held l) \<rparr>"
    using assms(2) lm by (auto simp: try_acquire_def jobs_of_def not_le split: if_splits)
  have nh: "\<forall>b. \<not> holds l b j" using h assms(1) holder_of_None by (auto simp: ledger_ok_def)
  then have f: "AList.update j g (jobs_of l a) = jobs_of l a @ [(j, g)]"
    by (intro update_fresh) (auto simp: holds_def)
  note u = unat_in_flight[OF assms(1)]
  show thesis
  proof (rule that[OF lm nh])
    show "cl_limits l' = cl_limits l" by (simp add: l')
    show "jobs_of l' a = jobs_of l a @ [(j, g)]" by (simp add: l' f jobs_of_def[of l'])
        (simp add: jobs_of_def)
    show "\<And>b. b \<noteq> a \<Longrightarrow> jobs_of l' b = jobs_of l b" by (simp add: l' jobs_of_def)
    show "length (jobs_of l a) < unat (al_total_slots lm)" using t u(1)[of a] by (simp add: word_less_nat_alt)
    show "length (filter (\<lambda>(_, h). gr_class h = gr_class g) (jobs_of l a)) < unat (class_limit lm (gr_class g))"
      using c u(2)[of a "gr_class g"] by (simp add: word_less_nat_alt)
    show "gr_size_bucket g = Large \<Longrightarrow>
       length (filter (\<lambda>(_, h). gr_size_bucket h = Large) (jobs_of l a)) < unat (al_large_slots lm)"
      using b u(3)[of a] by (simp add: word_less_nat_alt)
    show "cl_held l' = AList.update a (jobs_of l a @ [(j, g)]) (cl_held l)" by (simp add: l' f)
  qed
qed

lemma holds_try_acquire:
  assumes "ledger_ok l" "try_acquire a j g l = Inr l'"
  shows "holds l' b k \<longleftrightarrow> (b = a \<and> k = j) \<or> holds l b k"
  by (rule try_acquire_Inr[OF assms]; cases "b = a")
    (auto simp: holds_def map_add_def split: option.splits)

lemma ledger_ok_try_acquire:
  assumes "ledger_ok l" "try_acquire a j g l = Inr l'"
  shows "ledger_ok l'"
proof -
  from try_acquire_Inr[OF assms] obtain lm where *: "map_of (cl_limits l) a = Some lm"
    "\<forall>b. \<not> holds l b j" "cl_limits l' = cl_limits l"
    "jobs_of l' a = jobs_of l a @ [(j, g)]" "\<And>b. b \<noteq> a \<Longrightarrow> jobs_of l' b = jobs_of l b"
    "length (jobs_of l a) < unat (al_total_slots lm)"
    "cl_held l' = AList.update a (jobs_of l a @ [(j, g)]) (cl_held l)" by metis
  have lt: "unat (al_total_slots lm) < 2 ^ 32"
    using unsigned_less[of "al_total_slots lm"] by simp
  have "keys_distinct (jobs_of l' b) \<and> length (jobs_of l' b) < 2 ^ 32" for b
  proof (cases "b = a")
    case True
    have "map_of (jobs_of l a) j = None" using *(2) by (simp add: holds_def)
    then show ?thesis
      using assms(1) *(4,6) lt True
      by (auto simp: ledger_ok_def keys_distinct_def map_of_eq_None_iff)
  next
    case False
    then show ?thesis using assms(1) *(5) by (simp add: ledger_ok_def)
  qed
  moreover have "dom (map_of (cl_held l')) = dom (map_of (cl_limits l'))"
    using assms(1) *(1,3,7) by (auto simp: ledger_ok_def)
  moreover have "holds l' b k \<longrightarrow> holds l' c k \<longrightarrow> b = c" for b c k
    using assms(1) *(2) by (auto simp: holds_try_acquire[OF assms] ledger_ok_def)
  ultimately show ?thesis
    using assms(1) *(3,7) by (simp add: ledger_ok_def keys_distinct_update)
qed

lemma within_limits_try_acquire:
  assumes "ledger_ok l" "try_acquire a j g l = Inr l'" "map_of (cl_limits l) a = Some lm"
    "within_limits lm (jobs_of l a)"
  shows "within_limits lm (jobs_of l' a)"
  by (rule try_acquire_Inr[OF assms(1,2)]) (use assms(3,4) in \<open>auto simp: within_limits_def\<close>)

subsection \<open>Release\<close>

lemma delete_absent: "map_of jobs j = None \<Longrightarrow> AList.delete j jobs = jobs"
  by (induction jobs) (auto split: if_splits)

lemma release_first_absent:
  "\<forall>x \<in> set held. map_of (snd x) j = None \<Longrightarrow> release_first j held = (False, held)"
  by (induction j held rule: release_first.induct) auto

lemma map_delete_absent:
  "\<forall>x \<in> set held. map_of (snd x) j = None \<Longrightarrow> map (\<lambda>(a, jobs). (a, AList.delete j jobs)) held = held"
  by (induction held) (auto simp: delete_absent)

definition one_holder :: "string \<Rightarrow> (string \<times> holdings) list \<Rightarrow> bool" where
  "one_holder j held \<longleftrightarrow>
     (\<forall>x \<in> set held. \<forall>y \<in> set held. map_of (snd x) j \<noteq> None \<longrightarrow> map_of (snd y) j \<noteq> None \<longrightarrow> fst x = fst y)"

lemma one_holder_rest:
  assumes "keys_distinct ((a, jobs) # rest)" "one_holder j ((a, jobs) # rest)" "map_of jobs j \<noteq> None"
  shows "\<forall>x \<in> set rest. map_of (snd x) j = None"
proof
  fix x assume x: "x \<in> set rest"
  show "map_of (snd x) j = None"
  proof (rule ccontr)
    assume "map_of (snd x) j \<noteq> None"
    then have "a = fst x"
      using assms(2,3) x unfolding one_holder_def by (metis fst_conv list.set_intros snd_conv)
    then show False using assms(1) x by (auto simp: keys_distinct_def)
  qed
qed

lemma release_first_unique:
  "keys_distinct held \<Longrightarrow> one_holder j held \<Longrightarrow>
   release_first j held =
     (\<exists>x \<in> set held. map_of (snd x) j \<noteq> None, map (\<lambda>(a, jobs). (a, AList.delete j jobs)) held)"
proof (induction held)
  case (Cons x rest)
  obtain a jobs where x: "x = (a, jobs)" by (cases x)
  show ?case
  proof (cases "map_of jobs j = None")
    case True
    have "keys_distinct rest" using Cons.prems(1) by (simp add: keys_distinct_def)
    moreover have "one_holder j rest" using Cons.prems(2) unfolding one_holder_def by (meson list.set_intros(2))
    ultimately have "release_first j rest =
      (\<exists>x \<in> set rest. map_of (snd x) j \<noteq> None, map (\<lambda>(a, jobs). (a, AList.delete j jobs)) rest)"
      by (rule Cons.IH)
    then show ?thesis using True by (simp add: x delete_absent)
  next
    case False
    then have "\<forall>x \<in> set rest. map_of (snd x) j = None"
      using one_holder_rest Cons.prems by (simp add: x)
    from map_delete_absent[OF this] show ?thesis using False by (simp add: x)
  qed
qed simp

lemma held_holds:
  assumes "ledger_ok l" "x \<in> set (cl_held l)"
  shows "map_of (snd x) j \<noteq> None \<longleftrightarrow> holds l (fst x) j"
proof -
  have "map_of (cl_held l) (fst x) = Some (snd x)"
    using assms by (simp add: ledger_ok_def keys_distinct_def)
  then show ?thesis by (simp add: holds_def jobs_of_def)
qed

lemma one_holder_ok:
  assumes "ledger_ok l"
  shows "one_holder j (cl_held l)"
  unfolding one_holder_def
proof (intro ballI impI)
  fix x y
  assume "x \<in> set (cl_held l)" "y \<in> set (cl_held l)" "map_of (snd x) j \<noteq> None" "map_of (snd y) j \<noteq> None"
  then have "holds l (fst x) j" "holds l (fst y) j" using held_holds[OF assms] by blast+
  moreover have "\<forall>a b j. holds l a j \<longrightarrow> holds l b j \<longrightarrow> a = b" using assms by (simp add: ledger_ok_def)
  ultimately show "fst x = fst y" by blast
qed

lemma holds_in_held:
  assumes "ledger_ok l"
  shows "(\<exists>x \<in> set (cl_held l). map_of (snd x) j \<noteq> None) \<longleftrightarrow> (\<exists>a. holds l a j)"
proof
  assume "\<exists>a. holds l a j"
  then obtain a where "holds l a j" ..
  then obtain jobs where "map_of (cl_held l) a = Some jobs" "map_of jobs j \<noteq> None"
    by (cases "map_of (cl_held l) a") (simp_all add: holds_def jobs_of_def)
  then show "\<exists>x \<in> set (cl_held l). map_of (snd x) j \<noteq> None"
    by (intro bexI[of _ "(a, jobs)"]) (simp_all add: map_of_SomeD)
qed (use held_holds[OF assms] in blast)

lemma release_ok:
  assumes "ledger_ok l"
  shows "release j l =
    (\<exists>a. holds l a j, l \<lparr> cl_held := map (\<lambda>(a, jobs). (a, AList.delete j jobs)) (cl_held l) \<rparr>)"
proof -
  have "keys_distinct (cl_held l)" using assms by (simp add: ledger_ok_def)
  then show ?thesis
    using one_holder_ok[OF assms, of j] holds_in_held[OF assms, of j]
    by (simp only: release_def release_first_unique Let_def prod.case)
qed

lemma jobs_of_release:
  assumes "ledger_ok l"
  shows "jobs_of (snd (release j l)) b = AList.delete j (jobs_of l b)"
proof -
  have "map_of (map (\<lambda>(a, jobs). (a, AList.delete j jobs)) h) b = map_option (AList.delete j) (map_of h b)"
    for h :: "(string \<times> holdings) list"
    by (induction h) auto
  then show ?thesis by (cases "map_of (cl_held l) b") (simp_all add: jobs_of_def release_ok[OF assms])
qed

lemma holds_release: "ledger_ok l \<Longrightarrow> holds (snd (release j l)) b k \<longleftrightarrow> holds l b k \<and> k \<noteq> j"
  by (auto simp: holds_def jobs_of_release)

lemma cl_limits_release [simp]: "cl_limits (snd (release j l)) = cl_limits l"
  by (simp add: release_def Let_def split: prod.splits)

lemma ledger_ok_release:
  assumes "ledger_ok l"
  shows "ledger_ok (snd (release j l))"
proof -
  have keys: "map fst (cl_held (snd (release j l))) = map fst (cl_held l)"
    by (simp add: release_ok[OF assms] comp_def case_prod_unfold)
  then have dom: "dom (map_of (cl_held (snd (release j l)))) = dom (map_of (cl_held l))"
    by (metis dom_map_of_conv_image_fst list.set_map)
  have "length (AList.delete j (jobs_of l a)) < 2 ^ 32" for a
  proof -
    have "length (AList.delete j (jobs_of l a)) \<le> length (jobs_of l a)"
      by (simp add: delete_filter)
    also have "\<dots> < 2 ^ 32" using assms by (simp add: ledger_ok_def)
    finally show ?thesis .
  qed
  then show ?thesis
    using assms keys dom unfolding ledger_ok_def holds_release[OF assms] jobs_of_release[OF assms]
    by (simp add: keys_distinct_delete keys_distinct_def[of "cl_held _"]) blast
qed

lemma on_transition_cases:
  "on_transition j from to l = (if holds_capacity from \<and> \<not> holds_capacity to then snd (release j l) else l)"
  by (simp add: on_transition_def occupies_slot_def)

lemma ledger_ok_on_transition: "ledger_ok l \<Longrightarrow> ledger_ok (on_transition j from to l)"
  by (simp add: on_transition_cases ledger_ok_release)

subsection \<open>Rebuild\<close>

definition jobs_in :: "(string \<times> holdings) list \<Rightarrow> string \<Rightarrow> holdings" where
  "jobs_in held a = or_default [] (map_of held a)"

definition flies :: "flight list \<Rightarrow> string \<Rightarrow> string \<Rightarrow> bool" where
  "flies fl a j \<longleftrightarrow> (\<exists>g s. (a, j, g, s) \<in> set fl \<and> holds_capacity s)"

lemma flies_Cons: "flies ((a, j, g, s) # fl) b k \<longleftrightarrow> (a = b \<and> j = k \<and> holds_capacity s) \<or> flies fl b k"
  by (auto simp: flies_def)

lemma rebuild_loop_effect:
  "rebuild_loop fl held orphaned = (held', orphaned') \<Longrightarrow>
   dom (map_of held') = dom (map_of held)
   \<and> (keys_distinct held \<longrightarrow> keys_distinct held')
   \<and> ((\<forall>a. keys_distinct (jobs_in held a)) \<longrightarrow> (\<forall>a. keys_distinct (jobs_in held' a)))
   \<and> (\<forall>a. length (jobs_in held' a) \<le> length (jobs_in held a) + length fl)
   \<and> (\<forall>a j. map_of (jobs_in held' a) j \<noteq> None \<longleftrightarrow>
          map_of (jobs_in held a) j \<noteq> None \<or> (a \<in> dom (map_of held) \<and> flies fl a j))
   \<and> orphaned' = orphaned @ map (\<lambda>(_, j, _). j)
          (filter (\<lambda>(a, _, _, s). holds_capacity s \<and> a \<notin> dom (map_of held)) fl)"
proof (induction fl held orphaned rule: rebuild_loop.induct)
  case (1 held orphaned)
  then show ?case by (simp add: flies_def)
next
  case (2 b k g s rest held orphaned)
  show ?case
  proof (cases "occupies_slot s")
    case False
    then show ?thesis using 2(1) 2(4) by (auto simp: flies_Cons occupies_slot_def le_SucI)
  next
    case True
    show ?thesis
    proof (cases "map_of held b")
      case None
      then have "rebuild_loop rest held (orphaned @ [k]) = (held', orphaned')" using 2(4) True by simp
      note IH = "2.IH"(2)[simplified, OF True None this]
      show ?thesis using IH True None by (auto simp: flies_Cons occupies_slot_def domIff le_SucI)
    next
      case (Some jobs)
      let ?h = "AList.update b (AList.update k g jobs) held"
      have jobs: "jobs_in held b = jobs" using Some by (simp add: jobs_in_def)
      have in_h: "jobs_in ?h a = (if a = b then AList.update k g jobs else jobs_in held a)" for a
        by (simp add: jobs_in_def)
      have len: "length (AList.update k g jobs) \<le> Suc (length jobs)"
        by (induction jobs) auto
      have d: "dom (map_of ?h) = dom (map_of held)" using Some by auto
      have "rebuild_loop rest ?h orphaned = (held', orphaned')"
        using 2(4) True Some by simp
      moreover have nn: "\<not> \<not> occupies_slot s" using True by simp
      ultimately have "rebuild_loop rest ?h orphaned = (held', orphaned')" by blast
      note all = "2.IH"(3)[OF nn Some this]
      note IH = all[THEN conjunct1] all[THEN conjunct2, THEN conjunct1]
        all[THEN conjunct2, THEN conjunct2, THEN conjunct1]
        all[THEN conjunct2, THEN conjunct2, THEN conjunct2, THEN conjunct1, rule_format]
        all[THEN conjunct2, THEN conjunct2, THEN conjunct2, THEN conjunct2, THEN conjunct1, rule_format]
        all[THEN conjunct2, THEN conjunct2, THEN conjunct2, THEN conjunct2, THEN conjunct2]
      have b: "b \<in> dom (map_of held)" using Some by auto
      have len': "length (jobs_in held' a) \<le> length (jobs_in held a) + Suc (length rest)" for a
        using IH(4)[of a] len jobs by (cases "a = b") (simp_all add: in_h)
      show ?thesis
      proof (intro conjI impI allI)
        show "dom (map_of held') = dom (map_of held)" by (rule trans[OF IH(1) d])
        show "keys_distinct held'" if "keys_distinct held"
          by (rule IH(2)[THEN mp, OF keys_distinct_update[OF that]])
        show "keys_distinct (jobs_in held' a)" if k: "\<forall>a. keys_distinct (jobs_in held a)" for a
        proof -
          have "keys_distinct jobs" using k jobs by metis
          then have "\<forall>a. keys_distinct (jobs_in ?h a)" using k by (simp add: in_h keys_distinct_update)
          then show ?thesis using IH(3) by blast
        qed
        show "length (jobs_in held' a) \<le> length (jobs_in held a) + length ((b, k, g, s) # rest)" for a
          using len'[of a] by simp
        show "map_of (jobs_in held' a) j \<noteq> None \<longleftrightarrow>
           map_of (jobs_in held a) j \<noteq> None \<or> (a \<in> dom (map_of held) \<and> flies ((b, k, g, s) # rest) a j)" for a j
          unfolding IH(5) d in_h flies_Cons using b True jobs by (auto simp: occupies_slot_def)
        show "orphaned' = orphaned @ map (\<lambda>(_, j, _). j)
           (filter (\<lambda>(a, _, _, s). holds_capacity s \<and> a \<notin> dom (map_of held)) ((b, k, g, s) # rest))"
          using IH(6) b unfolding d by simp
      qed
    qed
  qed
qed

lemma jobs_in_cleared: "jobs_in (map (\<lambda>(a, _). (a, [])) h) a = []"
  by (induction h) (auto simp: jobs_in_def)

lemma jobs_of_in: "jobs_of l a = jobs_in (cl_held l) a"
  by (simp add: jobs_of_def jobs_in_def)

text \<open>The database names every job once, and fewer jobs than a slot count can hold.\<close>

definition flights_ok :: "flight list \<Rightarrow> bool" where
  "flights_ok fl \<longleftrightarrow> length fl < 2 ^ 32 \<and> (\<forall>a b j. flies fl a j \<longrightarrow> flies fl b j \<longrightarrow> a = b)"

lemma rebuild_effect:
  assumes "ledger_ok l" "rebuild fl l = (l', orphans)"
  shows "cl_limits l' = cl_limits l"
    and "holds l' a j \<longleftrightarrow> a \<in> dom (map_of (cl_limits l)) \<and> flies fl a j"
    and "orphans = map (\<lambda>(_, j, _). j)
           (filter (\<lambda>(a, _, _, s). holds_capacity s \<and> a \<notin> dom (map_of (cl_limits l))) fl)"
    and "flights_ok fl \<Longrightarrow> ledger_ok l'"
proof -
  let ?h = "map (\<lambda>(a, _). (a, [])) (cl_held l) :: (string \<times> holdings) list"
  obtain held' where loop: "rebuild_loop fl ?h [] = (held', orphans)" and l': "l' = l \<lparr> cl_held := held' \<rparr>"
    using assms(2) by (auto simp: rebuild_def Let_def split: prod.splits)
  note all = rebuild_loop_effect[OF loop]
  have keys: "map fst ?h = map fst (cl_held l)" by (simp add: comp_def case_prod_unfold)
  then have "dom (map_of ?h) = dom (map_of (cl_held l))"
    by (simp only: dom_map_of_conv_image_fst set_map[symmetric])
  then have d: "dom (map_of ?h) = dom (map_of (cl_limits l))"
    using assms(1) by (simp add: ledger_ok_def)
  show "cl_limits l' = cl_limits l" by (simp add: l')
  show h: "holds l' a j \<longleftrightarrow> a \<in> dom (map_of (cl_limits l)) \<and> flies fl a j" for a j
    using all[THEN conjunct2, THEN conjunct2, THEN conjunct2, THEN conjunct2, THEN conjunct1, rule_format, of a j]
    unfolding d jobs_in_cleared by (simp add: holds_def jobs_of_in l')
  show "orphans = map (\<lambda>(_, j, _). j)
           (filter (\<lambda>(a, _, _, s). holds_capacity s \<and> a \<notin> dom (map_of (cl_limits l))) fl)"
    using all[THEN conjunct2, THEN conjunct2, THEN conjunct2, THEN conjunct2, THEN conjunct2] unfolding d by simp
  show "ledger_ok l'" if fl: "flights_ok fl"
    unfolding ledger_ok_def
  proof (intro conjI allI impI)
    show "keys_distinct (cl_limits l')" using assms(1) by (simp add: l' ledger_ok_def)
    have "keys_distinct (cl_held l)" using assms(1) by (simp add: ledger_ok_def)
    then have "keys_distinct ?h" by (simp only: keys_distinct_def keys)
    then show "keys_distinct (cl_held l')" using all[THEN conjunct2, THEN conjunct1] by (simp add: l')
    show "dom (map_of (cl_limits l')) = dom (map_of (cl_held l'))"
      using trans[OF all[THEN conjunct1] d] by (simp add: l')
    show "keys_distinct (jobs_of l' a)" for a
      using all[THEN conjunct2, THEN conjunct2, THEN conjunct1] jobs_in_cleared[of "cl_held l"]
      by (simp add: jobs_of_in l')
    have "length (jobs_of l' a) \<le> length fl" for a
      using all[THEN conjunct2, THEN conjunct2, THEN conjunct2, THEN conjunct1, rule_format, of a]
      by (simp add: jobs_of_in l' jobs_in_cleared)
    then show "length (jobs_of l' a) < 2 ^ 32" for a
      using fl le_less_trans unfolding flights_ok_def by blast
    show "a = b" if "holds l' a j" "holds l' b j" for a b j
      using that fl unfolding h flights_ok_def by blast
  qed
qed

section \<open>The interface the dispatcher relies on\<close>

text \<open>
  A slot ledger admits a holding for a job at an agent or refuses it. The laws: an admission keeps
  the invariant, is for a job nobody held, and makes that agent, and changes nothing else, its
  holder. \<open>placed s ps s'\<close> says that a sequence of admissions leads from \<open>s\<close> to \<open>s'\<close>.
\<close>

locale slot_ledger =
  fixes inv :: "'s \<Rightarrow> bool"
    and acquire :: "'a \<Rightarrow> 'j \<Rightarrow> 'g \<Rightarrow> 's \<Rightarrow> 'e + 's"
    and holder :: "'s \<Rightarrow> 'j \<Rightarrow> 'a option"
  assumes acquire_inv: "inv s \<Longrightarrow> acquire a j g s = Inr s' \<Longrightarrow> inv s'"
    and acquire_free: "inv s \<Longrightarrow> acquire a j g s = Inr s' \<Longrightarrow> holder s j = None"
    and acquire_holder: "inv s \<Longrightarrow> acquire a j g s = Inr s' \<Longrightarrow> holder s' = (holder s)(j \<mapsto> a)"
begin

inductive placed :: "'s \<Rightarrow> ('j \<times> 'a) list \<Rightarrow> 's \<Rightarrow> bool" where
  placed_Nil: "placed s [] s"
| placed_snoc: "placed s ps t \<Longrightarrow> acquire a j g t = Inr u \<Longrightarrow> placed s (ps @ [(j, a)]) u"

lemma placed_append: "placed t qs u \<Longrightarrow> placed s ps t \<Longrightarrow> placed s (ps @ qs) u"
proof (induction rule: placed.induct)
  case (placed_snoc t qs v a j g u)
  have "placed s ((ps @ qs) @ [(j, a)]) u"
    by (rule placed.placed_snoc[OF placed_snoc.IH[OF placed_snoc.prems] placed_snoc.hyps(2)])
  then show ?case by simp
qed simp

lemma placed_Cons: "acquire a j g s = Inr t \<Longrightarrow> placed t qs u \<Longrightarrow> placed s ((j, a) # qs) u"
  using placed_append[of t qs u s "[(j, a)]"] placed_snoc[OF placed_Nil] by simp

lemma placed_inv: "placed s ps t \<Longrightarrow> inv s \<Longrightarrow> inv t"
  by (induction rule: placed.induct) (auto intro: acquire_inv)

lemma placed_holder:
  "placed s ps t \<Longrightarrow> inv s \<Longrightarrow>
   holder t j = (case map_of (rev ps) j of Some a \<Rightarrow> Some a | None \<Rightarrow> holder s j)"
  by (induction rule: placed.induct) (auto simp: acquire_holder[OF placed_inv] split: option.splits)

lemma placed_distinct: "placed s ps t \<Longrightarrow> inv s \<Longrightarrow> distinct (map fst ps) \<and> (\<forall>j \<in> fst ` set ps. holder s j = None)"
proof (induction rule: placed.induct)
  case (placed_snoc s ps t a j g u)
  have "inv t" using placed_snoc.hyps(1) placed_snoc.prems by (rule placed_inv)
  then have "holder t j = None" using placed_snoc.hyps(2) by (rule acquire_free)
  then have "map_of (rev ps) j = None \<and> holder s j = None"
    using placed_holder[OF placed_snoc.hyps(1) placed_snoc.prems, of j] by (auto split: option.splits)
  then show ?case using placed_snoc.IH[OF placed_snoc.prems] by (auto simp: map_of_eq_None_iff)
qed simp

lemma placed_holds: "placed s ps t \<Longrightarrow> inv s \<Longrightarrow> (j, a) \<in> set ps \<Longrightarrow> holder t j = Some a"
proof -
  assume p: "placed s ps t" "inv s" and m: "(j, a) \<in> set ps"
  have "distinct (map fst (rev ps))" using placed_distinct[OF p] by (simp add: rev_map[symmetric])
  then have "map_of (rev ps) j = Some a" using m by simp
  then show ?thesis using placed_holder[OF p, of j] by simp
qed

end

interpretation capacity: slot_ledger ledger_ok try_acquire holder_of
proof
  show "ledger_ok s \<Longrightarrow> try_acquire a j g s = Inr s' \<Longrightarrow> ledger_ok s'" for s a j g s'
    by (rule ledger_ok_try_acquire)
  show "ledger_ok s \<Longrightarrow> try_acquire a j g s = Inr s' \<Longrightarrow> holder_of s j = None" for s a j g s'
    by (auto simp: try_acquire_def split: option.splits if_splits)
  show "holder_of s' = (holder_of s)(j \<mapsto> a)" if *: "ledger_ok s" "try_acquire a j g s = Inr s'" for s a j g s'
  proof
    fix k
    have ok': "ledger_ok s'" using * by (rule ledger_ok_try_acquire)
    have free: "holder_of s j = None" using *(2) by (auto simp: try_acquire_def split: option.splits if_splits)
    show "holder_of s' k = ((holder_of s)(j \<mapsto> a)) k"
    proof (cases "k = j")
      case True
      have "holds s' a j" using holds_try_acquire[OF *] by simp
      then show ?thesis using True holder_of_iff[OF ok'] by simp
    next
      case False
      have "holder_of s' k = Some b \<longleftrightarrow> holder_of s k = Some b" for b
        using False holds_try_acquire[OF *] holder_of_iff[OF ok'] holder_of_iff[OF *(1)] by simp
      then have "holder_of s' k = holder_of s k" by (metis not_None_eq)
      then show ?thesis using False by simp
    qed
  qed
qed

section \<open>Histories of the ledger\<close>

text \<open>Every ledger a server can reach from an empty one, with what a rebuild is given.\<close>

inductive ledger_reachable :: "ledger \<Rightarrow> bool" where
  reach_new: "ledger_reachable new_ledger"
| reach_limits: "ledger_reachable l \<Longrightarrow> ledger_reachable (set_limits a lm l)"
| reach_remove: "ledger_reachable l \<Longrightarrow> ledger_reachable (remove_agent a l)"
| reach_acquire: "ledger_reachable l \<Longrightarrow> try_acquire a j g l = Inr l' \<Longrightarrow> ledger_reachable l'"
| reach_release: "ledger_reachable l \<Longrightarrow> ledger_reachable (snd (release j l))"
| reach_transition: "ledger_reachable l \<Longrightarrow> ledger_reachable (on_transition j from to l)"
| reach_rebuild: "ledger_reachable l \<Longrightarrow> flights_ok fl \<Longrightarrow> ledger_reachable (fst (rebuild fl l))"

lemma reachable_ok: "ledger_reachable l \<Longrightarrow> ledger_ok l"
proof (induction rule: ledger_reachable.induct)
  case (reach_rebuild l fl)
  show ?case by (rule rebuild_effect(4)[OF reach_rebuild.IH surjective_pairing reach_rebuild.hyps(2)])
qed (auto intro: ledger_ok_set_limits ledger_ok_remove_agent ledger_ok_try_acquire ledger_ok_release
    ledger_ok_on_transition)

section \<open>Properties\<close>


definition sample_grant :: grant where
  "sample_grant = \<lparr> gr_class = JC_Audio, gr_size_bucket = Small \<rparr>"


text \<open>
  C12. Admission is all-or-nothing and never over the limits: \<open>try_acquire\<close> succeeds exactly when the
  agent is known, nobody holds the job, and the total, the class and, for a large file, the
  large-file count are each below their limit; then only that job's holding is added, at that agent,
  and an agent within its limits stays within them.
\<close>

theorem try_acquire_sound:
  assumes "ledger_reachable l"
  shows "((\<exists>l'. try_acquire a j g l = Inr l') \<longleftrightarrow>
            (\<exists>lm. map_of (cl_limits l) a = Some lm \<and> (\<forall>b. \<not> holds l b j)
               \<and> length (jobs_of l a) < unat (al_total_slots lm)
               \<and> length (filter (\<lambda>(_, h). gr_class h = gr_class g) (jobs_of l a)) < unat (class_limit lm (gr_class g))
               \<and> (gr_size_bucket g = Large \<longrightarrow>
                    length (filter (\<lambda>(_, h). gr_size_bucket h = Large) (jobs_of l a)) < unat (al_large_slots lm))))
       \<and> (\<forall>l'. try_acquire a j g l = Inr l' \<longrightarrow>
            jobs_of l' a = jobs_of l a @ [(j, g)] \<and> (\<forall>b. b \<noteq> a \<longrightarrow> jobs_of l' b = jobs_of l b)
          \<and> (\<forall>lm. map_of (cl_limits l) a = Some lm \<longrightarrow> within_limits lm (jobs_of l a) \<longrightarrow>
               within_limits lm (jobs_of l' a)))"
proof (intro conjI allI impI)
  have ok: "ledger_ok l" using assms by (rule reachable_ok)
  note u = unat_in_flight[OF ok]
  have k: "keys_distinct (cl_held l)" using ok by (simp add: ledger_ok_def)
  show "(\<exists>l'. try_acquire a j g l = Inr l') \<longleftrightarrow>
            (\<exists>lm. map_of (cl_limits l) a = Some lm \<and> (\<forall>b. \<not> holds l b j)
               \<and> length (jobs_of l a) < unat (al_total_slots lm)
               \<and> length (filter (\<lambda>(_, h). gr_class h = gr_class g) (jobs_of l a)) < unat (class_limit lm (gr_class g))
               \<and> (gr_size_bucket g = Large \<longrightarrow>
                    length (filter (\<lambda>(_, h). gr_size_bucket h = Large) (jobs_of l a)) < unat (al_large_slots lm)))"
    by (cases "map_of (cl_limits l) a")
      (simp_all add: try_acquire_def holder_of_None[OF k, symmetric] u[symmetric] word_less_nat_alt word_le_nat_alt
        not_le)
  fix l' assume acq: "try_acquire a j g l = Inr l'"
  show "jobs_of l' a = jobs_of l a @ [(j, g)]" by (rule try_acquire_Inr[OF ok acq])
  show "jobs_of l' b = jobs_of l b" if "b \<noteq> a" for b
    by (rule try_acquire_Inr[OF ok acq]) (use that in simp)
  show "within_limits lm (jobs_of l' a)"
    if "map_of (cl_limits l) a = Some lm" "within_limits lm (jobs_of l a)" for lm
    using within_limits_try_acquire[OF ok acq that] .
qed

lemma try_acquire_sound_witness:
  "\<exists>l'. try_acquire ''a'' ''j'' sample_grant (set_limits ''a'' (flat_limits 1 0) new_ledger) = Inr l'"
proof -
  let ?l = "set_limits ''a'' (flat_limits 1 0) new_ledger"
  have "ledger_reachable ?l" by (intro reach_limits reach_new)
  from try_acquire_sound[OF this, THEN conjunct1, THEN iffD2, of "''a''" "''j''" sample_grant]
  show ?thesis
    by (simp add: set_limits_def new_ledger_def flat_limits_def holds_def jobs_of_def class_limit_def
        sample_grant_def unat_gt_0)
qed

text \<open>
  A slot is freed exactly when its job leaves the holding states, wherever it was held, and
  releasing twice is harmless: after a transition out of the holding states nobody holds the job and
  no other job is touched; any other transition changes nothing; a second release finds nothing and
  changes nothing.
\<close>

lemma transition_releases_slot:
  assumes "ledger_reachable l"
  shows "(holds_capacity from \<and> \<not> holds_capacity to \<longrightarrow>
            (holds (on_transition j from to l) a k \<longleftrightarrow> holds l a k \<and> k \<noteq> j))
       \<and> (\<not> (holds_capacity from \<and> \<not> holds_capacity to) \<longrightarrow> on_transition j from to l = l)
       \<and> (fst (release j l) \<longleftrightarrow> (\<exists>b. holds l b j))
       \<and> release j (snd (release j l)) = (False, snd (release j l))"
proof -
  have ok: "ledger_ok l" using assms by (rule reachable_ok)
  have ok': "ledger_ok (snd (release j l))" using ok by (rule ledger_ok_release)
  have no: "\<not> holds (snd (release j l)) b j" for b by (simp add: holds_release[OF ok])
  have "map (\<lambda>(a, jobs). (a, AList.delete j jobs)) (cl_held (snd (release j l))) = cl_held (snd (release j l))"
    by (rule map_delete_absent) (use held_holds[OF ok'] no in blast)
  then have "release j (snd (release j l)) = (False, snd (release j l))"
    using release_ok[OF ok', of j] no by simp
  moreover have "fst (release j l) \<longleftrightarrow> (\<exists>b. holds l b j)" by (simp add: release_ok[OF ok])
  moreover have "holds (snd (release j l)) a k \<longleftrightarrow> holds l a k \<and> k \<noteq> j" by (rule holds_release[OF ok])
  ultimately show ?thesis by (simp add: on_transition_cases)
qed

lemma transition_releases_slot_witness:
  "\<not> holds (on_transition ''j'' Running Retrying (set_limits ''a'' (flat_limits 1 1) new_ledger)) ''a'' ''j''"
  by (subst transition_releases_slot[THEN conjunct1, rule_format])
    (auto intro: reach_limits reach_new simp: holds_capacity_def)

text \<open>
  A restart does not double-book: rebuilding from the jobs the database has in flight gives a
  ledger in which an agent holds a job exactly when the database has it there in a holding state and
  the agent is known, and returns exactly the holding jobs whose agent is unknown.
\<close>

lemma rebuild_exact:
  assumes "ledger_reachable l" "rebuild fl l = (l', orphans)"
  shows "(holds l' a j \<longleftrightarrow> a \<in> dom (map_of (cl_limits l)) \<and> flies fl a j)
       \<and> (j \<in> set orphans \<longleftrightarrow> (\<exists>b. b \<notin> dom (map_of (cl_limits l)) \<and> flies fl b j))"
proof
  note ok = reachable_ok[OF assms(1)]
  define D where "D = dom (map_of (cl_limits l))"
  show "holds l' a j \<longleftrightarrow> a \<in> dom (map_of (cl_limits l)) \<and> flies fl a j"
    by (rule rebuild_effect(2)[OF ok assms(2)])
  show "j \<in> set orphans \<longleftrightarrow> (\<exists>b. b \<notin> dom (map_of (cl_limits l)) \<and> flies fl b j)"
    unfolding rebuild_effect(3)[OF ok assms(2)] D_def[symmetric] by (force simp: flies_def)
qed

lemma rebuild_exact_witness:
  "''k'' \<in> set (snd (rebuild [(''a'', ''j'', sample_grant, Running), (''b'', ''k'', sample_grant, Assigned)]
      (set_limits ''a'' (flat_limits 1 1) new_ledger)))"
proof -
  have "ledger_reachable (set_limits ''a'' (flat_limits 1 1) new_ledger)" by (intro reach_limits reach_new)
  from rebuild_exact[OF this surjective_pairing, THEN conjunct2, THEN iffD2] show ?thesis
    by (auto intro!: exI[of _ "''b''"] simp: flies_def holds_capacity_def set_limits_def new_ledger_def)
qed

end
