(* ===== verification/Dispatch.thy ===== *)
theory Dispatch
  imports Capacity
begin

text \<open>
  \<open>crates/transcodarr-server/src/dispatch.rs\<close>: matching queued jobs to agents, with the cache of
  bucket eligibility, the per-file admission checks and the capacity ledger. The lemmas relate the
  cached pass to an uncached first-fit reference, and derive from the ledger's interface that an
  assignment is a new, exclusive holding.
\<close>

section \<open>Data\<close>

record agent_entry =
  ae_id :: string
  ae_capability :: capability
  ae_commit_eligible :: bool
  ae_accepting :: bool
  ae_workarea_free_bytes :: u64

record queued_job =
  qj_id :: string
  qj_class :: job_class
  qj_size_bucket :: size_bucket
  qj_requirements :: requirements
  qj_bucket_key :: string
  qj_excluded_agents :: "string list"

record blocked =
  bl_job_id :: string
  bl_stage :: string
  bl_detail :: string

record assignment =
  as_job_id :: string
  as_agent_id :: string

record dispatch_round =
  dr_assignments :: "assignment list"
  dr_blocked :: "blocked list"

type_synonym eligibility = "(string \<times> (string \<times> bool) list) list"

record dispatcher =
  di_agents :: "agent_entry list"
  di_eligibility :: eligibility

definition new_dispatcher :: dispatcher where
  "new_dispatcher = \<lparr> di_agents = [], di_eligibility = [] \<rparr>"

definition set_agents :: "agent_entry list \<Rightarrow> dispatcher \<Rightarrow> dispatcher" where
  "set_agents agents d = d \<lparr> di_agents := agents, di_eligibility := [] \<rparr>"

section \<open>The pass\<close>

definition agent_satisfies :: "string \<Rightarrow> agent_entry \<Rightarrow> requirements \<Rightarrow> eligibility \<Rightarrow> bool \<times> eligibility" where
  "agent_satisfies key agent reqs elig =
     (case Option.bind (map_of elig key) (\<lambda>m. map_of m (ae_id agent)) of
        Some hit \<Rightarrow> (hit, elig)
      | None \<Rightarrow>
          (let ok = (satisfies (ae_capability agent) (filter is_categorical reqs) = Inr ()) in
           (ok, AList.update key (AList.update (ae_id agent) ok (or_default [] (map_of elig key))) elig)))"

definition gib :: u64 where
  "gib = 1024 * 1024 * 1024"

text \<open>The reason for refusing, if there is one.\<close>

fun admits :: "agent_entry \<Rightarrow> requirements \<Rightarrow> string option" where
  "admits agent [] = None"
| "admits agent (req # reqs) =
     (case (case req of
              R_MinFreeBytes need \<Rightarrow>
                (if ae_workarea_free_bytes agent < need
                 then Some (''work area has '' @ show_u64 (ae_workarea_free_bytes agent div gib)
                            @ '' GiB free, job needs '' @ show_u64 (need div gib) @ '' GiB'')
                 else None)
            | R_MinEffectiveCores need \<Rightarrow>
                (if cap_effective_cores (ae_capability agent) < need
                 then Some (''agent has '' @ show_fixed 1 (cap_effective_cores (ae_capability agent))
                            @ '' effective cores, job needs '' @ show_fixed 1 need)
                 else None)
            | R_MountCovers canonical \<Rightarrow>
                (if \<not> list_ex (\<lambda>m. starts_with canonical (mo_canonical_prefix m) \<and> mo_writable m)
                        (cap_mounts (ae_capability agent))
                 then Some (''no writable mount covers '' @ canonical)
                 else None)
            | _ \<Rightarrow> None) of
        Some why \<Rightarrow> Some why
      | None \<Rightarrow> admits agent reqs)"

fun refusal_detail :: "refusal \<Rightarrow> string \<Rightarrow> string" where
  "refusal_detail TotalSlots agent = agent @ '' is at its total slot limit''"
| "refusal_detail ClassSlots agent = agent @ '' is at its limit for this class''"
| "refusal_detail LargeSlots agent = agent @ '' is at its large-file limit''"
| "refusal_detail AlreadyHeld agent = ''this job already holds a slot''"
| "refusal_detail UnknownAgent agent = agent @ '' is not in the ledger''"

definition describe :: "requirements \<Rightarrow> string" where
  "describe reqs =
     (let parts = List.map_filter debug_requirement (filter is_categorical reqs) in
      if parts = [] then ''no categorical requirements'' else join '' + '' parts)"

definition grant_of :: "queued_job \<Rightarrow> grant" where
  "grant_of job = \<lparr> gr_class = qj_class job, gr_size_bucket = qj_size_bucket job \<rparr>"

text \<open>
  The loop over the agents for one job: the chosen agent, the last refusal, whether a capable agent
  was seen, the cache and the ledger.
\<close>

fun place_job :: "agent_entry list \<Rightarrow> queued_job \<Rightarrow> string option \<Rightarrow> bool \<Rightarrow> eligibility \<Rightarrow> ledger
    \<Rightarrow> agent_entry option \<times> string option \<times> bool \<times> eligibility \<times> ledger" where
  "place_job [] job last_refusal saw_capable elig l = (None, last_refusal, saw_capable, elig, l)"
| "place_job (a # agents) job last_refusal saw_capable elig l =
     (if \<not> ae_accepting a \<or> \<not> ae_commit_eligible a \<or> ae_id a \<in> set (qj_excluded_agents job)
      then place_job agents job last_refusal saw_capable elig l
      else
        let (ok, elig) = agent_satisfies (qj_bucket_key job) a (qj_requirements job) elig in
        if \<not> ok then place_job agents job last_refusal saw_capable elig l
        else
          (case admits a (qj_requirements job) of
             Some why \<Rightarrow> place_job agents job (Some why) True elig l
           | None \<Rightarrow>
               (case try_acquire (ae_id a) (qj_id job) (grant_of job) l of
                  Inr l' \<Rightarrow> (Some a, last_refusal, True, elig, l')
                | Inl r \<Rightarrow> place_job agents job (Some (refusal_detail r (ae_id a))) True elig l)))"

definition blocked_entry :: "queued_job \<Rightarrow> string option \<Rightarrow> bool \<Rightarrow> blocked" where
  "blocked_entry job last_refusal saw_capable =
     (if \<not> saw_capable
      then \<lparr> bl_job_id = qj_id job, bl_stage = ''capability'',
             bl_detail = ''no enabled, commit-eligible agent satisfies '' @ describe (qj_requirements job) \<rparr>
      else \<lparr> bl_job_id = qj_id job, bl_stage = ''capacity'',
             bl_detail = or_default ''every capable agent is full'' last_refusal \<rparr>)"

fun dispatch_loop :: "agent_entry list \<Rightarrow> queued_job list \<Rightarrow> eligibility \<Rightarrow> ledger \<Rightarrow> dispatch_round
    \<Rightarrow> dispatch_round \<times> eligibility \<times> ledger" where
  "dispatch_loop agents [] elig l rnd = (rnd, elig, l)"
| "dispatch_loop agents (job # jobs) elig l rnd =
     (let (best, last_refusal, saw_capable, elig, l) = place_job agents job None False elig l in
      case best of
        Some a \<Rightarrow>
          dispatch_loop agents jobs elig l
            (rnd \<lparr> dr_assignments := dr_assignments rnd
                       @ [\<lparr> as_job_id = qj_id job, as_agent_id = ae_id a \<rparr>] \<rparr>)
      | None \<Rightarrow>
          dispatch_loop agents jobs elig l
            (rnd \<lparr> dr_blocked := dr_blocked rnd @ [blocked_entry job last_refusal saw_capable] \<rparr>))"

definition dispatch :: "queued_job list \<Rightarrow> dispatcher \<Rightarrow> ledger \<Rightarrow> dispatch_round \<times> dispatcher \<times> ledger" where
  "dispatch jobs d l =
     (let (rnd, elig, l') = dispatch_loop (di_agents d) jobs (di_eligibility d) l
                                \<lparr> dr_assignments = [], dr_blocked = [] \<rparr>
      in (rnd, d \<lparr> di_eligibility := elig \<rparr>, l'))"

section \<open>The cache\<close>

text \<open>
  A queued job carries the key of its own requirements; a cached answer is the true one for every
  job with that key.
\<close>

definition keyed :: "(string \<Rightarrow> string) \<Rightarrow> queued_job \<Rightarrow> bool" where
  "keyed hash job \<longleftrightarrow> qj_bucket_key job = bucket_key hash (qj_requirements job)"

definition capable :: "agent_entry \<Rightarrow> requirements \<Rightarrow> bool" where
  "capable a reqs \<longleftrightarrow> satisfies (ae_capability a) (filter is_categorical reqs) = Inr ()"

definition cached :: "eligibility \<Rightarrow> string \<Rightarrow> string \<Rightarrow> bool option" where
  "cached elig key agent = Option.bind (map_of elig key) (\<lambda>m. map_of m agent)"

definition cache_ok :: "(string \<Rightarrow> string) \<Rightarrow> agent_entry list \<Rightarrow> eligibility \<Rightarrow> bool" where
  "cache_ok hash agents elig \<longleftrightarrow>
     (\<forall>a \<in> set agents. \<forall>reqs b. cached elig (bucket_key hash reqs) (ae_id a) = Some b \<longrightarrow> b = capable a reqs)"

lemma cached_update:
  "cached (AList.update key (AList.update a ok (or_default [] (map_of elig key))) elig) k b =
     (if k = key \<and> b = a then Some ok else cached elig k b)"
  by (cases "map_of elig key") (auto simp: cached_def)

lemma capable_same_key:
  assumes "inj hash" "bucket_key hash r = bucket_key hash s"
  shows "capable a r = capable a s"
proof -
  have "set (filter is_categorical r) = set (filter is_categorical s)"
    using bucket_key_determines[OF assms] by (rule mset_eq_setD)
  then show ?thesis unfolding capable_def satisfies_iff by blast
qed

lemma agent_satisfies_correct:
  assumes "inj hash" "distinct (map ae_id agents)" "a \<in> set agents" "cache_ok hash agents elig"
    and "agent_satisfies (bucket_key hash reqs) a reqs elig = (ok, elig')"
  shows "ok = capable a reqs \<and> cache_ok hash agents elig'"
proof (cases "cached elig (bucket_key hash reqs) (ae_id a)")
  case (Some b)
  then show ?thesis
    using assms by (auto simp: agent_satisfies_def cached_def[symmetric] cache_ok_def)
next
  case None
  then have ok: "ok = capable a reqs"
    and e: "elig' = AList.update (bucket_key hash reqs)
        (AList.update (ae_id a) ok (or_default [] (map_of elig (bucket_key hash reqs)))) elig"
    using assms(5) by (auto simp: agent_satisfies_def cached_def[symmetric] capable_def Let_def)
  have "v = capable b s" if b: "b \<in> set agents" and c: "cached elig' (bucket_key hash s) (ae_id b) = Some v" for b s v
  proof (cases "bucket_key hash s = bucket_key hash reqs \<and> ae_id b = ae_id a")
    case True
    then have "b = a" using assms(2,3) b by (auto simp: distinct_map inj_on_def)
    then show ?thesis
      using True c capable_same_key[OF assms(1), of s reqs a] by (simp add: e cached_update ok)
  next
    case False
    then have "cached elig (bucket_key hash s) (ae_id b) = Some v" using c by (auto simp: e cached_update)
    then show ?thesis using assms(4) b by (auto simp: cache_ok_def)
  qed
  then show ?thesis using ok by (auto simp: cache_ok_def)
qed

section \<open>The reference: first fit without a cache\<close>

definition candidate :: "queued_job \<Rightarrow> agent_entry \<Rightarrow> bool" where
  "candidate job a \<longleftrightarrow>
     ae_accepting a \<and> ae_commit_eligible a \<and> ae_id a \<notin> set (qj_excluded_agents job)
   \<and> capable a (qj_requirements job)"

definition placeable :: "ledger \<Rightarrow> queued_job \<Rightarrow> agent_entry \<Rightarrow> bool" where
  "placeable l job a \<longleftrightarrow>
     candidate job a \<and> admits a (qj_requirements job) = None
   \<and> (\<exists>l'. try_acquire (ae_id a) (qj_id job) (grant_of job) l = Inr l')"

definition acquired :: "agent_entry \<Rightarrow> queued_job \<Rightarrow> ledger \<Rightarrow> ledger" where
  "acquired a job l =
     (case try_acquire (ae_id a) (qj_id job) (grant_of job) l of Inr l' \<Rightarrow> l' | Inl _ \<Rightarrow> l)"

fun dispatch_ref :: "agent_entry list \<Rightarrow> queued_job list \<Rightarrow> ledger
    \<Rightarrow> (string \<times> string) list \<times> (string \<times> string) list \<times> ledger" where
  "dispatch_ref agents [] l = ([], [], l)"
| "dispatch_ref agents (job # jobs) l =
     (case List.find (placeable l job) agents of
        Some a \<Rightarrow>
          (let (asg, blk, l') = dispatch_ref agents jobs (acquired a job l)
           in ((qj_id job, ae_id a) # asg, blk, l'))
      | None \<Rightarrow>
          (let (asg, blk, l') = dispatch_ref agents jobs l
           in (asg, (qj_id job, if list_ex (candidate job) agents then ''capacity'' else ''capability'') # blk, l')))"

definition assignment_pairs :: "dispatch_round \<Rightarrow> (string \<times> string) list" where
  "assignment_pairs r = map (\<lambda>a. (as_job_id a, as_agent_id a)) (dr_assignments r)"

definition blocked_pairs :: "dispatch_round \<Rightarrow> (string \<times> string) list" where
  "blocked_pairs r = map (\<lambda>b. (bl_job_id b, bl_stage b)) (dr_blocked r)"

text \<open>The loop over the agents finds the first placeable one.\<close>

lemma place_job_first_fit:
  assumes "inj hash" "distinct (map ae_id all)" "keyed hash job"
  shows "set agents \<subseteq> set all \<Longrightarrow> cache_ok hash all elig \<Longrightarrow>
   place_job agents job lr sc elig l = (best, lr', sc', elig', l') \<Longrightarrow>
   best = List.find (placeable l job) agents
   \<and> l' = (case best of Some a \<Rightarrow> acquired a job l | None \<Rightarrow> l)
   \<and> (best = None \<longrightarrow> (sc' \<longleftrightarrow> sc \<or> list_ex (candidate job) agents))
   \<and> cache_ok hash all elig'"
proof (induction agents arbitrary: lr sc elig)
  case Nil
  then show ?case by simp
next
  case (Cons a agents)
  have sub: "set agents \<subseteq> set all" and a: "a \<in> set all" using Cons.prems(1) by auto
  show ?case
  proof (cases "ae_accepting a \<and> ae_commit_eligible a \<and> ae_id a \<notin> set (qj_excluded_agents job)")
    case False
    then have "\<not> candidate job a" "\<not> placeable l job a" by (auto simp: candidate_def placeable_def)
    note np = this
    have pj: "place_job agents job lr sc elig l = (best, lr', sc', elig', l')"
      using Cons.prems(3) False by auto
    show ?thesis using Cons.IH[OF sub Cons.prems(2) pj] np by simp
  next
    case True
    obtain ok elig1 where s: "agent_satisfies (qj_bucket_key job) a (qj_requirements job) elig = (ok, elig1)"
      by fastforce
    have sat: "ok = capable a (qj_requirements job)" "cache_ok hash all elig1"
      using agent_satisfies_correct[OF assms(1,2) a Cons.prems(2)] s assms(3) by (auto simp: keyed_def)
    show ?thesis
    proof (cases ok)
      case False
      then have "\<not> candidate job a" "\<not> placeable l job a" using sat by (auto simp: candidate_def placeable_def)
      note np = this
      have pj: "place_job agents job lr sc elig1 l = (best, lr', sc', elig', l')"
        using Cons.prems(3) True False s by auto
      show ?thesis using Cons.IH[OF sub sat(2) pj] np by simp
    next
      case capable: True
      then have c: "candidate job a" using True sat by (simp add: candidate_def)
      show ?thesis
      proof (cases "admits a (qj_requirements job)")
        case (Some why)
        then have "\<not> placeable l job a" by (simp add: placeable_def)
        note np = this
        have pj: "place_job agents job (Some why) True elig1 l = (best, lr', sc', elig', l')"
          using Cons.prems(3) True capable Some s by auto
        show ?thesis using Cons.IH[OF sub sat(2) pj] np c by simp
      next
        case None
        show ?thesis
        proof (cases "try_acquire (ae_id a) (qj_id job) (grant_of job) l")
          case (Inl r)
          then have "\<not> placeable l job a" by (simp add: placeable_def)
          note np = this
          have pj: "place_job agents job (Some (refusal_detail r (ae_id a))) True elig1 l
              = (best, lr', sc', elig', l')"
            using Cons.prems(3) True capable None Inl s by auto
          show ?thesis using Cons.IH[OF sub sat(2) pj] np c by simp
        next
          case (Inr l1)
          then have "placeable l job a" using c None by (simp add: placeable_def)
          moreover have "best = Some a" "l' = l1" "elig' = elig1"
            using Cons.prems(3) True capable None Inr s by auto
          ultimately show ?thesis using sat Inr by (simp add: acquired_def)
        qed
      qed
    qed
  qed
qed

lemma dispatch_loop_ref:
  assumes "inj hash" "distinct (map ae_id agents)"
  shows "\<forall>job \<in> set jobs. keyed hash job \<Longrightarrow> cache_ok hash agents elig \<Longrightarrow>
   dispatch_loop agents jobs elig l rnd = (rnd', elig', l') \<Longrightarrow>
   (\<exists>asg blk. dispatch_ref agents jobs l = (asg, blk, l')
      \<and> assignment_pairs rnd' = assignment_pairs rnd @ asg
      \<and> blocked_pairs rnd' = blocked_pairs rnd @ blk)
   \<and> cache_ok hash agents elig'"
proof (induction jobs arbitrary: elig l rnd)
  case Nil
  then show ?case by simp
next
  case (Cons job jobs)
  obtain best lr sc elig1 l1 where p: "place_job agents job None False elig l = (best, lr, sc, elig1, l1)"
    by (metis prod_cases5)
  have k: "keyed hash job" and ks: "\<forall>job \<in> set jobs. keyed hash job" using Cons.prems(1) by auto
  note ff = place_job_first_fit[OF assms k order_refl Cons.prems(2) p]
  have ok: "cache_ok hash agents elig1" using ff by blast
  show ?case
  proof (cases best)
    case None
    then have "dispatch_loop agents jobs elig1 l
        (rnd \<lparr> dr_blocked := dr_blocked rnd @ [blocked_entry job lr sc] \<rparr>) = (rnd', elig', l')"
      using Cons.prems(3) p ff by simp
    from Cons.IH[OF ks ok this] obtain asg blk where IH: "dispatch_ref agents jobs l = (asg, blk, l')"
      "assignment_pairs rnd' = assignment_pairs rnd @ asg"
      "blocked_pairs rnd' = blocked_pairs (rnd \<lparr> dr_blocked := dr_blocked rnd @ [blocked_entry job lr sc] \<rparr>) @ blk"
      "cache_ok hash agents elig'" by (auto simp: assignment_pairs_def)
    have "sc \<longleftrightarrow> list_ex (candidate job) agents" "List.find (placeable l job) agents = None"
      using ff None by auto
    then show ?thesis
      using IH by (auto simp: blocked_pairs_def blocked_entry_def)
  next
    case (Some a)
    then have "dispatch_loop agents jobs elig1 (acquired a job l)
        (rnd \<lparr> dr_assignments := dr_assignments rnd @ [\<lparr> as_job_id = qj_id job, as_agent_id = ae_id a \<rparr>] \<rparr>)
        = (rnd', elig', l')"
      using Cons.prems(3) p ff by simp
    from Cons.IH[OF ks ok this] obtain asg blk where IH: "dispatch_ref agents jobs (acquired a job l) = (asg, blk, l')"
      "assignment_pairs rnd' = assignment_pairs (rnd \<lparr> dr_assignments := dr_assignments rnd
          @ [\<lparr> as_job_id = qj_id job, as_agent_id = ae_id a \<rparr>] \<rparr>) @ asg"
      "blocked_pairs rnd' = blocked_pairs rnd @ blk"
      "cache_ok hash agents elig'" by (auto simp: blocked_pairs_def)
    have "List.find (placeable l job) agents = Some a" using ff Some by auto
    then show ?thesis using IH by (auto simp: assignment_pairs_def)
  qed
qed

section \<open>What the reference promises\<close>

lemma dispatch_ref_placed: "dispatch_ref agents jobs l = (asg, blk, l') \<Longrightarrow> capacity.placed l asg l'"
proof (induction jobs arbitrary: l asg blk)
  case Nil
  then show ?case by (auto intro: capacity.placed_Nil)
next
  case (Cons job jobs)
  show ?case
  proof (cases "List.find (placeable l job) agents")
    case None
    then show ?thesis using Cons by (auto split: prod.splits)
  next
    case (Some a)
    then have "placeable l job a" by (auto dest: find_SomeD)
    then obtain l1 where l1: "try_acquire (ae_id a) (qj_id job) (grant_of job) l = Inr l1"
      by (auto simp: placeable_def)
    obtain asg1 where "dispatch_ref agents jobs l1 = (asg1, blk, l')" "asg = (qj_id job, ae_id a) # asg1"
      using Cons.prems Some l1 by (auto simp: acquired_def split: prod.splits)
    then show ?thesis using capacity.placed_Cons[OF l1 Cons.IH] by simp
  qed
qed

lemma dispatch_ref_assigned:
  "dispatch_ref agents jobs l = (asg, blk, l') \<Longrightarrow> (j, i) \<in> set asg \<Longrightarrow>
   \<exists>job \<in> set jobs. \<exists>a \<in> set agents. qj_id job = j \<and> ae_id a = i \<and> candidate job a
     \<and> admits a (qj_requirements job) = None"
proof (induction jobs arbitrary: l asg blk)
  case (Cons job jobs)
  show ?case
  proof (cases "List.find (placeable l job) agents")
    case None
    then show ?thesis using Cons by (auto split: prod.splits)
  next
    case (Some a)
    then have a: "a \<in> set agents" "placeable l job a" by (auto dest: find_SomeD)
    obtain asg1 where 1: "dispatch_ref agents jobs (acquired a job l) = (asg1, blk, l')"
      "asg = (qj_id job, ae_id a) # asg1"
      using Cons.prems(1) Some by (auto split: prod.splits)
    show ?thesis
    proof (cases "(j, i) \<in> set asg1")
      case True
      then show ?thesis using Cons.IH[OF 1(1)] by auto
    next
      case False
      then show ?thesis using Cons.prems(2) 1(2) a by (auto simp: placeable_def)
    qed
  qed
qed simp

lemma dispatch_ref_complete:
  "dispatch_ref agents jobs l = (asg, blk, l') \<Longrightarrow>
   mset (map fst asg) + mset (map fst blk) = mset (map qj_id jobs)
   \<and> (\<forall>(j, stage) \<in> set blk. \<exists>job \<in> set jobs. qj_id job = j
        \<and> stage = (if list_ex (candidate job) agents then ''capacity'' else ''capability''))"
proof (induction jobs arbitrary: l asg blk)
  case (Cons job jobs)
  show ?case
  proof (cases "List.find (placeable l job) agents")
    case None
    then obtain blk1 where "dispatch_ref agents jobs l = (asg, blk1, l')"
      "blk = (qj_id job, if list_ex (candidate job) agents then ''capacity'' else ''capability'') # blk1"
      using Cons.prems by (auto split: prod.splits)
    then show ?thesis using Cons.IH[of l asg blk1] by fastforce
  next
    case (Some a)
    then obtain asg1 where "dispatch_ref agents jobs (acquired a job l) = (asg1, blk, l')"
      "asg = (qj_id job, ae_id a) # asg1"
      using Cons.prems by (auto split: prod.splits)
    then show ?thesis using Cons.IH[of "acquired a job l" asg1 blk] by fastforce
  qed
qed simp

section \<open>Histories of the dispatcher\<close>

inductive dispatcher_reachable :: "(string \<Rightarrow> string) \<Rightarrow> dispatcher \<Rightarrow> bool" for hash where
  reach_dispatcher_new: "dispatcher_reachable hash new_dispatcher"
| reach_set_agents:
    "dispatcher_reachable hash d \<Longrightarrow> distinct (map ae_id agents) \<Longrightarrow> dispatcher_reachable hash (set_agents agents d)"
| reach_dispatch:
    "dispatcher_reachable hash d \<Longrightarrow> \<forall>job \<in> set jobs. keyed hash job \<Longrightarrow>
     dispatch jobs d l = (rnd, d', l') \<Longrightarrow> dispatcher_reachable hash d'"

definition dispatcher_ok :: "(string \<Rightarrow> string) \<Rightarrow> dispatcher \<Rightarrow> bool" where
  "dispatcher_ok hash d \<longleftrightarrow> distinct (map ae_id (di_agents d)) \<and> cache_ok hash (di_agents d) (di_eligibility d)"

lemma dispatch_ok:
  assumes "inj hash" "dispatcher_ok hash d" "\<forall>job \<in> set jobs. keyed hash job"
    and "dispatch jobs d l = (rnd, d', l')"
  shows "dispatch_ref (di_agents d) jobs l = (assignment_pairs rnd, blocked_pairs rnd, l')"
    and "dispatcher_ok hash d'" and "di_agents d' = di_agents d"
proof -
  let ?r0 = "\<lparr> dr_assignments = [], dr_blocked = [] \<rparr>"
  obtain elig where loop: "dispatch_loop (di_agents d) jobs (di_eligibility d) l ?r0 = (rnd, elig, l')"
    and d': "d' = d \<lparr> di_eligibility := elig \<rparr>"
    using assms(4) by (auto simp: dispatch_def split: prod.splits)
  have "distinct (map ae_id (di_agents d))" "cache_ok hash (di_agents d) (di_eligibility d)"
    using assms(2) by (auto simp: dispatcher_ok_def)
  from dispatch_loop_ref[OF assms(1) this(1) assms(3) this(2) loop]
  show "dispatch_ref (di_agents d) jobs l = (assignment_pairs rnd, blocked_pairs rnd, l')"
    and "dispatcher_ok hash d'"
    using assms(2) by (auto simp: assignment_pairs_def blocked_pairs_def dispatcher_ok_def d')
  show "di_agents d' = di_agents d" by (simp add: d')
qed

lemma dispatcher_reachable_ok: "dispatcher_reachable hash d \<Longrightarrow> inj hash \<Longrightarrow> dispatcher_ok hash d"
proof (induction rule: dispatcher_reachable.induct)
  case reach_dispatcher_new
  then show ?case by (simp add: dispatcher_ok_def new_dispatcher_def cache_ok_def)
next
  case (reach_set_agents d agents)
  then show ?case by (simp add: dispatcher_ok_def set_agents_def cache_ok_def cached_def)
next
  case (reach_dispatch d jobs l rnd d' l')
  show ?case
    by (rule dispatch_ok(2)[OF reach_dispatch.prems reach_dispatch.IH[OF reach_dispatch.prems] reach_dispatch.hyps(2,3)])
qed

lemma placed_reachable: "capacity.placed l ps l' \<Longrightarrow> ledger_reachable l \<Longrightarrow> ledger_reachable l'"
  by (induction rule: capacity.placed.induct) (auto intro: reach_acquire)

text \<open>
  A streaming agent meets every requirement of a job with a canonical path, and is still refused at
  admission, which asks for a mount.
\<close>

lemma streaming_agent_refused:
  assumes "cap_transport (ae_capability a) = Stream" "cap_mounts (ae_capability a) = []"
  shows "satisfies (ae_capability a) [R_MountCovers p] = Inr () \<and> admits a [R_MountCovers p] \<noteq> None"
  using assms by (simp add: mount_covered_def requires_mount_coverage_def)

definition sample_agent :: agent_entry where
  "sample_agent =
     \<lparr> ae_id = ''a'', ae_capability = default_capability \<lparr> cap_classes := [AC_Audio], cap_encoders := [Eac3],
         cap_muxers := [Matroska] \<rparr>, ae_commit_eligible = True, ae_accepting = True, ae_workarea_free_bytes = 0 \<rparr>"

definition sample_job :: queued_job where
  "sample_job =
     \<lparr> qj_id = ''j'', qj_class = JC_Audio, qj_size_bucket = Small,
       qj_requirements = [R_AgentClass AC_Audio, R_Encoder Eac3],
       qj_bucket_key = bucket_key (\<lambda>s. s) [R_AgentClass AC_Audio, R_Encoder Eac3], qj_excluded_agents = [] \<rparr>"

lemma sample_dispatcher: "dispatcher_reachable (\<lambda>s. s) (set_agents [sample_agent] new_dispatcher)"
  by (intro reach_set_agents reach_dispatcher_new) simp

lemma sample_ledger: "ledger_reachable (set_limits ''a'' (flat_limits 1 1) new_ledger)"
  by (intro reach_limits reach_new)

section \<open>Properties\<close>

text \<open>
  C10. The eligibility cache never changes an answer: a pass of any dispatcher with a history of fleet
  changes and passes gives the same assignments, the same blocked jobs with the same stages and the
  same ledger as the reference that places each job, in order, on the first agent that is a candidate,
  admits it and has capacity, checking every requirement afresh.
\<close>

theorem dispatch_equals_uncached:
  assumes "inj hash" "dispatcher_reachable hash d" "\<forall>job \<in> set jobs. keyed hash job"
    and "dispatch jobs d l = (rnd, d', l')"
  shows "dispatch_ref (di_agents d) jobs l = (assignment_pairs rnd, blocked_pairs rnd, l')"
  by (rule dispatch_ok(1)[OF assms(1) dispatcher_reachable_ok[OF assms(2,1)] assms(3,4)])

lemma dispatch_equals_uncached_witness:
  "assignment_pairs (fst (dispatch [sample_job] (set_agents [sample_agent] new_dispatcher)
      (set_limits ''a'' (flat_limits 1 1) new_ledger)))
   = fst (dispatch_ref [sample_agent] [sample_job] (set_limits ''a'' (flat_limits 1 1) new_ledger))"
proof -
  obtain rnd d' l' where d: "dispatch [sample_job] (set_agents [sample_agent] new_dispatcher)
      (set_limits ''a'' (flat_limits 1 1) new_ledger) = (rnd, d', l')" by (metis prod_cases3)
  have k: "\<forall>job \<in> set [sample_job]. keyed (\<lambda>s. s) job" by (simp add: keyed_def sample_job_def)
  have ag: "di_agents (set_agents [sample_agent] new_dispatcher) = [sample_agent]" by (simp add: set_agents_def)
  from dispatch_equals_uncached[OF inj_on_id2 sample_dispatcher k d]
  have "dispatch_ref [sample_agent] [sample_job] (set_limits ''a'' (flat_limits 1 1) new_ledger)
      = (assignment_pairs rnd, blocked_pairs rnd, l')" by (simp only: ag)
  then show ?thesis by (simp only: d fst_conv)
qed

text \<open>
  C9. Every assignment is sound and exclusive: it places a queued job on a known agent that accepts
  work, may install its output, has not rejected the job, meets its categorical requirements and
  passes its per-file admission; no job is assigned twice or was held before, and afterwards the
  ledger, still a legal one, has exactly that agent holding it.
\<close>

theorem dispatch_assignments_sound:
  assumes "inj hash" "dispatcher_reachable hash d" "ledger_reachable l" "\<forall>job \<in> set jobs. keyed hash job"
    and "dispatch jobs d l = (rnd, d', l')"
  shows "(\<forall>(j, i) \<in> set (assignment_pairs rnd).
            (\<exists>job \<in> set jobs. \<exists>a \<in> set (di_agents d). qj_id job = j \<and> ae_id a = i \<and> candidate job a
               \<and> admits a (qj_requirements job) = None)
          \<and> holder_of l j = None \<and> holder_of l' j = Some i)
       \<and> distinct (map fst (assignment_pairs rnd)) \<and> ledger_reachable l'"
proof -
  note ref = dispatch_ok(1)[OF assms(1) dispatcher_reachable_ok[OF assms(2,1)] assms(4,5)]
  note p = dispatch_ref_placed[OF ref]
  have ok: "ledger_ok l" using assms(3) by (rule reachable_ok)
  show ?thesis
    using dispatch_ref_assigned[OF ref] capacity.placed_distinct[OF p ok] capacity.placed_holds[OF p ok]
      placed_reachable[OF p assms(3)]
    by force
qed

lemma dispatch_assignments_sound_witness:
  "ledger_reachable (snd (snd (dispatch [sample_job] (set_agents [sample_agent] new_dispatcher)
      (set_limits ''a'' (flat_limits 1 1) new_ledger))))"
proof -
  obtain rnd d' l' where d: "dispatch [sample_job] (set_agents [sample_agent] new_dispatcher)
      (set_limits ''a'' (flat_limits 1 1) new_ledger) = (rnd, d', l')" by (metis prod_cases3)
  have "\<forall>job \<in> set [sample_job]. keyed (\<lambda>s. s) job" by (simp add: keyed_def sample_job_def)
  from dispatch_assignments_sound[OF inj_on_id2 sample_dispatcher sample_ledger this d] show ?thesis
    by (simp add: d)
qed

text \<open>
  No job disappears: a pass accounts for every queued job exactly once, as an assignment or as a
  block, and a block says \<open>capability\<close> exactly when no agent is a candidate for the job, which an
  operator must fix, and \<open>capacity\<close> otherwise.
\<close>

lemma dispatch_accounts_for_every_job:
  assumes "inj hash" "dispatcher_reachable hash d" "\<forall>job \<in> set jobs. keyed hash job"
    and "dispatch jobs d l = (rnd, d', l')"
  shows "mset (map fst (assignment_pairs rnd)) + mset (map fst (blocked_pairs rnd)) = mset (map qj_id jobs)
       \<and> (\<forall>(j, stage) \<in> set (blocked_pairs rnd). \<exists>job \<in> set jobs. qj_id job = j
            \<and> stage = (if list_ex (candidate job) (di_agents d) then ''capacity'' else ''capability''))"
  by (rule dispatch_ref_complete[OF dispatch_ok(1)[OF assms(1) dispatcher_reachable_ok[OF assms(2,1)] assms(3,4)]])

lemma dispatch_accounts_for_every_job_witness:
  "let rnd = fst (dispatch [sample_job] new_dispatcher new_ledger) in
   mset (map fst (assignment_pairs rnd)) + mset (map fst (blocked_pairs rnd)) = {# ''j'' #}"
proof -
  obtain rnd d' l' where d: "dispatch [sample_job] new_dispatcher new_ledger = (rnd, d', l')"
    by (metis prod_cases3)
  have "\<forall>job \<in> set [sample_job]. keyed (\<lambda>s. s) job" by (simp add: keyed_def sample_job_def)
  from dispatch_accounts_for_every_job[OF inj_on_id2 reach_dispatcher_new this d, THEN conjunct1]
  show ?thesis unfolding Let_def d fst_conv by (simp add: sample_job_def)
qed

end
