(* ===== verification/Failure.thy ===== *)
theory Failure
  imports Prelude
begin

text \<open>
  \<open>crates/transcodarr-core/src/failure.rs\<close>: the classes and codes of a failed run, and
  \<open>classify_failure\<close>, which reads the exit status, the signal and the tail of standard error.
  The lemmas say that the code fixes the class, and which codes exclude an agent.
\<close>

datatype failure_class = Transient | CapabilityDrift | Permanent

datatype failure_code =
    EncoderSessionExhausted
  | DecodeUnsupported
  | EncoderUnavailable
  | SourceChanged
  | DiskFull
  | PermissionDenied
  | CorruptSource
  | Killed
  | Unknown

definition classify_failure :: "int \<Rightarrow> int option \<Rightarrow> string \<Rightarrow> failure_class \<times> failure_code" where
  "classify_failure exit signal stderr_tail =
     (if signal \<noteq> None then (Transient, Killed)
      else let s = to_lower stderr_tail in
      if contains s ''outofmemory'' \<and> contains s ''nvenc''
         \<or> contains s ''no free encoding sessions''
         \<or> contains s ''openencodesessionex failed''
      then (Transient, EncoderSessionExhausted)
      else if contains s ''no space left on device'' \<or> contains s ''enospc''
      then (Transient, DiskFull)
      else if contains s ''permission denied''
      then (Transient, PermissionDenied)
      else if contains s ''no decoder surfaces left''
         \<or> contains s ''hwaccel initialisation returned error''
         \<or> contains s ''hwaccel initialization returned error''
         \<or> contains s ''failed setup for format cuda''
         \<or> exit = 69
      then (CapabilityDrift, DecodeUnsupported)
      else if contains s ''unknown encoder'' \<or> contains s ''encoder not found''
      then (CapabilityDrift, EncoderUnavailable)
      else if contains s ''invalid data found when processing input''
         \<or> contains s ''moov atom not found''
      then (Permanent, CorruptSource)
      else if contains s ''no such file or directory''
      then (Transient, SourceChanged)
      else (Transient, Unknown))"

fun excludes_agent :: "failure_class \<Rightarrow> bool" where
  "excludes_agent CapabilityDrift = True"
| "excludes_agent _ = False"

fun may_dead_letter :: "failure_class \<Rightarrow> bool" where
  "may_dead_letter Transient = False"
| "may_dead_letter _ = True"

definition show_failure_class :: "failure_class \<Rightarrow> string" where
  "show_failure_class c =
     (case c of Transient \<Rightarrow> ''Transient'' | CapabilityDrift \<Rightarrow> ''CapabilityDrift''
      | Permanent \<Rightarrow> ''Permanent'')"

section \<open>What the classification promises\<close>

text \<open>The intended class of each code: the abstract reading of the module's table.\<close>

fun class_of_code :: "failure_code \<Rightarrow> failure_class" where
  "class_of_code DecodeUnsupported = CapabilityDrift"
| "class_of_code EncoderUnavailable = CapabilityDrift"
| "class_of_code CorruptSource = Permanent"
| "class_of_code _ = Transient"

lemma classify_failure_signal [simp]: "classify_failure e (Some g) s = (Transient, Killed)"
  by (simp add: classify_failure_def)

lemma classify_failure_class: "fst (classify_failure e g s) = class_of_code (snd (classify_failure e g s))"
  by (simp add: classify_failure_def Let_def)

lemma excludes_agent_iff: "excludes_agent c \<longleftrightarrow> c = CapabilityDrift"
  by (cases c) auto

lemma may_dead_letter_iff: "may_dead_letter c \<longleftrightarrow> c \<noteq> Transient"
  by (cases c) auto

lemma session_exhausted_first:
  "contains (to_lower s) ''no free encoding sessions'' \<Longrightarrow>
   classify_failure e None s = (Transient, EncoderSessionExhausted)"
  by (simp add: classify_failure_def Let_def)

section \<open>Properties\<close>

text \<open>
  The code of a failure fixes its class (the table of the module), whatever the exit status,
  the signal and the text; an agent is excluded exactly for a missing decoder or encoder. In
  particular neither a signal nor exhausted encoder sessions ever excludes an agent, not even
  with the exit status 69 that elsewhere means a missing decoder.
\<close>

lemma classify_failure_table:
  "fst (classify_failure e g s) = class_of_code (snd (classify_failure e g s))
   \<and> (excludes_agent (fst (classify_failure e g s)) \<longleftrightarrow>
        snd (classify_failure e g s) = DecodeUnsupported \<or> snd (classify_failure e g s) = EncoderUnavailable)
   \<and> (g \<noteq> None \<or> contains (to_lower s) ''no free encoding sessions'' \<longrightarrow>
        \<not> excludes_agent (fst (classify_failure 69 g s)))"
  by (auto simp: classify_failure_class excludes_agent_iff classify_failure_def Let_def)

lemma classify_failure_table_witness:
  "\<not> excludes_agent (fst (classify_failure 69 (Some 9) ''unknown encoder''))"
  using classify_failure_table[of 0 "Some 9" "''unknown encoder''"] by blast

end
