(* ===== verification/Hardening.thy ===== *)
theory Hardening
  imports Failure
begin

text \<open>
  \<open>crates/transcodarr-server/src/hardening.rs\<close>: what to do about a failed attempt, and which agents
  are out of rotation. Attempt numbers are unbounded integers (the code's 64-bit ones do not come near
  their bounds), failure counters are natural numbers. The lemmas bound the retries and their delays
  and characterise quarantine by the history of an agent.
\<close>

definition quarantine_after_consecutive_failures :: nat where
  "quarantine_after_consecutive_failures = 5"

definition retry_base_seconds :: i64 where
  "retry_base_seconds = 30"

definition retry_max_seconds :: i64 where
  "retry_max_seconds = 3600"

datatype retry_decision =
    RD_RetryAfter i64 i64
  | RD_DeadLetter string
  | RD_Permanent string

text \<open>\<open>attempt.clamp(0, 16)\<close>; shifting one by that much never leaves 64 bits.\<close>

definition clamp_attempt :: "i64 \<Rightarrow> nat" where
  "clamp_attempt attempt = nat (max 0 (min 16 attempt))"

definition decide_retry :: "failure_class \<Rightarrow> i64 \<Rightarrow> i64 \<Rightarrow> retry_decision" where
  "decide_retry cls attempt max_attempts =
     (if cls = Permanent
      then RD_Permanent ''the job itself is bad; retrying anywhere fails the same way''
      else
        let next_attempt = attempt + 1 in
        if next_attempt \<ge> max_attempts
        then RD_DeadLetter (show_int max_attempts @ '' attempts exhausted; last failure was ''
                            @ show_failure_class cls)
        else
          let seconds = min (sat_i64 (retry_base_seconds * 2 ^ clamp_attempt attempt)) retry_max_seconds
          in RD_RetryAfter seconds next_attempt)"

record agent_health =
  ah_consecutive_failures :: "(string \<times> nat) list"
  ah_quarantined :: "(string \<times> string) list"

definition new_health :: agent_health where
  "new_health = \<lparr> ah_consecutive_failures = [], ah_quarantined = [] \<rparr>"

definition record_success :: "string \<Rightarrow> agent_health \<Rightarrow> agent_health" where
  "record_success agent h =
     h \<lparr> ah_consecutive_failures := AList.delete agent (ah_consecutive_failures h) \<rparr>"

definition is_quarantined :: "agent_health \<Rightarrow> string \<Rightarrow> bool" where
  "is_quarantined h agent \<longleftrightarrow> map_of (ah_quarantined h) agent \<noteq> None"

definition record_failure :: "string \<Rightarrow> string \<Rightarrow> agent_health \<Rightarrow> bool \<times> agent_health" where
  "record_failure agent detail h =
     (let n = or_default 0 (map_of (ah_consecutive_failures h) agent) + 1;
          h = h \<lparr> ah_consecutive_failures := AList.update agent n (ah_consecutive_failures h) \<rparr>
      in if n \<ge> quarantine_after_consecutive_failures \<and> \<not> is_quarantined h agent
         then (True, h \<lparr> ah_quarantined :=
                AList.update agent (show_nat n @ '' consecutive failures with no success; last: '' @ detail)
                  (ah_quarantined h) \<rparr>)
         else (False, h))"

definition quarantine_reason :: "agent_health \<Rightarrow> string \<Rightarrow> string option" where
  "quarantine_reason h agent = map_of (ah_quarantined h) agent"

definition consecutive_failures :: "agent_health \<Rightarrow> string \<Rightarrow> nat" where
  "consecutive_failures h agent = or_default 0 (map_of (ah_consecutive_failures h) agent)"

definition clear_quarantine :: "string \<Rightarrow> agent_health \<Rightarrow> agent_health" where
  "clear_quarantine agent h =
     h \<lparr> ah_quarantined := AList.delete agent (ah_quarantined h),
         ah_consecutive_failures := AList.delete agent (ah_consecutive_failures h) \<rparr>"

section \<open>Retries\<close>

lemma retry_seconds_bounds:
  "decide_retry c a m = RD_RetryAfter s n \<Longrightarrow>
   retry_base_seconds \<le> s \<and> s \<le> retry_max_seconds \<and> n = a + 1 \<and> n < m \<and> c \<noteq> Permanent"
proof -
  assume d: "decide_retry c a m = RD_RetryAfter s n"
  have one: "(1 :: int) \<le> 2 ^ clamp_attempt a" by simp
  have "30 \<le> sat_i64 (30 * 2 ^ clamp_attempt a)"
    using one by (simp add: sat_i64_def i64_max_def i64_min_def le_max_iff_disj)
  then show ?thesis
    using d by (auto simp: decide_retry_def Let_def retry_base_seconds_def retry_max_seconds_def split: if_splits)
qed

lemma retry_seconds_mono:
  assumes "decide_retry c a m = RD_RetryAfter s n" "decide_retry d b k = RD_RetryAfter t n'" "a \<le> b"
  shows "s \<le> t"
proof -
  have "clamp_attempt a \<le> clamp_attempt b"
    using assms(3) by (auto simp: clamp_attempt_def intro!: nat_mono max.mono min.mono)
  then have "(2 :: int) ^ clamp_attempt a \<le> 2 ^ clamp_attempt b" by (rule power_increasing) simp
  then have "sat_i64 (30 * 2 ^ clamp_attempt a) \<le> sat_i64 (30 * 2 ^ clamp_attempt b)"
    by (intro sat_i64_mono) simp
  then show ?thesis
    using assms(1,2) by (auto simp: decide_retry_def Let_def retry_base_seconds_def split: if_splits)
qed

text \<open>
  The life of a job whose attempt \<open>n\<close> fails with class \<open>cls n\<close>: the delays before its further
  attempts. The recursion ends because every retry raises the attempt number towards its maximum.
\<close>

function retry_delays :: "(i64 \<Rightarrow> failure_class) \<Rightarrow> i64 \<Rightarrow> i64 \<Rightarrow> i64 list" where
  "retry_delays cls attempt max_attempts =
     (case decide_retry (cls attempt) attempt max_attempts of
        RD_RetryAfter seconds next_attempt \<Rightarrow> seconds # retry_delays cls next_attempt max_attempts
      | _ \<Rightarrow> [])"
  by pat_completeness auto
termination
  by (relation "measure (\<lambda>(_, a, m). nat (m - a))") (auto dest: retry_seconds_bounds)

declare retry_delays.simps [simp del]

lemma retry_delays_length: "int (length (retry_delays cls a m)) \<le> max 0 (m - a - 1)"
proof (induction cls a m rule: retry_delays.induct)
  case (1 cls a m)
  show ?case
  proof (cases "decide_retry (cls a) a m")
    case (RD_RetryAfter s n)
    have "n = a + 1" "n < m" using retry_seconds_bounds[OF RD_RetryAfter] by auto
    then show ?thesis using "1.IH"[OF RD_RetryAfter] RD_RetryAfter by (subst retry_delays.simps) simp
  qed (subst retry_delays.simps, simp)+
qed

lemma retry_delays_bounds: "s \<in> set (retry_delays cls a m) \<Longrightarrow> 30 \<le> s \<and> s \<le> 3600"
proof (induction cls a m rule: retry_delays.induct)
  case (1 cls a m)
  show ?case
  proof (cases "decide_retry (cls a) a m")
    case (RD_RetryAfter t n)
    then show ?thesis
      using 1 retry_seconds_bounds[OF RD_RetryAfter]
      by (subst (asm) (2) retry_delays.simps) (auto simp: retry_base_seconds_def retry_max_seconds_def)
  next
    case (RD_DeadLetter r)
    then show ?thesis using 1(2) by (subst (asm) retry_delays.simps) simp
  next
    case (RD_Permanent r)
    then show ?thesis using 1(2) by (subst (asm) retry_delays.simps) simp
  qed
qed

text \<open>A transient failure is dead-lettered when its attempts run out, although its class is one that
  \<open>may_dead_letter\<close> excludes.\<close>

lemma transient_dead_lettered:
  "\<not> may_dead_letter Transient \<and> (\<exists>r. decide_retry Transient 2 3 = RD_DeadLetter r)"
  by (simp add: decide_retry_def)

section \<open>Quarantine\<close>

datatype health_event = Succeeds string | Fails string string | Clears string

fun health_step :: "health_event \<Rightarrow> agent_health \<Rightarrow> agent_health" where
  "health_step (Succeeds a) h = record_success a h"
| "health_step (Fails a d) h = snd (record_failure a d h)"
| "health_step (Clears a) h = clear_quarantine a h"

definition health_run :: "health_event list \<Rightarrow> agent_health" where
  "health_run es = fold health_step es new_health"

text \<open>The failures of an agent since its last success or clearance.\<close>

definition resets :: "string \<Rightarrow> health_event \<Rightarrow> bool" where
  "resets a e \<longleftrightarrow> e = Succeeds a \<or> e = Clears a"

definition fails :: "string \<Rightarrow> health_event \<Rightarrow> bool" where
  "fails a e \<longleftrightarrow> (case e of Fails b _ \<Rightarrow> b = a | _ \<Rightarrow> False)"

definition streak :: "string \<Rightarrow> health_event list \<Rightarrow> nat" where
  "streak a es = length (filter (fails a) (takeWhile (\<lambda>e. \<not> resets a e) (rev es)))"

lemma health_run_snoc: "health_run (es @ [e]) = health_step e (health_run es)"
  by (simp add: health_run_def)

lemma streak_snoc:
  "streak a (es @ [e]) = (if resets a e then 0 else if fails a e then Suc (streak a es) else streak a es)"
  by (simp add: streak_def)

lemma failures_streak: "consecutive_failures (health_run es) a = streak a es"
proof (induction es rule: rev_induct)
  case Nil
  then show ?case by (simp add: health_run_def streak_def consecutive_failures_def new_health_def)
next
  case (snoc e es)
  then show ?case
    by (cases e) (auto simp: health_run_snoc streak_snoc resets_def fails_def consecutive_failures_def
        record_success_def record_failure_def clear_quarantine_def Let_def)
qed

lemma is_quarantined_snoc:
  "is_quarantined (health_run (es @ [e])) a \<longleftrightarrow>
     e \<noteq> Clears a \<and> (is_quarantined (health_run es) a \<or> (fails a e \<and> 5 \<le> streak a (es @ [e])))"
proof (cases e)
  case (Fails b d)
  have "or_default 0 (map_of (ah_consecutive_failures (health_run es)) b) = streak b es"
    using failures_streak[of es b] by (simp add: consecutive_failures_def)
  then show ?thesis
    using Fails
    by (auto simp: health_run_snoc streak_snoc resets_def fails_def record_failure_def is_quarantined_def
        quarantine_after_consecutive_failures_def Let_def)
qed (auto simp: health_run_snoc resets_def fails_def record_success_def clear_quarantine_def is_quarantined_def)

lemma quarantine_history:
  "is_quarantined (health_run es) a \<longleftrightarrow>
     (\<exists>n \<le> length es. 5 \<le> streak a (take n es) \<and> Clears a \<notin> set (drop n es))"
proof (induction es rule: rev_induct)
  case Nil
  then show ?case by (simp add: health_run_def new_health_def is_quarantined_def streak_def)
next
  case (snoc e es)
  have split: "(\<exists>n \<le> length (es @ [e]). 5 \<le> streak a (take n (es @ [e])) \<and> Clears a \<notin> set (drop n (es @ [e])))
      \<longleftrightarrow> 5 \<le> streak a (es @ [e])
        \<or> (e \<noteq> Clears a \<and> (\<exists>n \<le> length es. 5 \<le> streak a (take n es) \<and> Clears a \<notin> set (drop n es)))"
    (is "?L \<longleftrightarrow> ?R")
  proof
    assume ?L
    then obtain n where n: "n \<le> Suc (length es)" "5 \<le> streak a (take n (es @ [e]))"
      "Clears a \<notin> set (drop n (es @ [e]))" by auto
    show ?R
    proof (cases "n = Suc (length es)")
      case False
      then have "n \<le> length es" using n(1) by simp
      then show ?thesis using n by auto
    qed (use n in simp)
  next
    assume ?R
    then show ?L
    proof
      assume "5 \<le> streak a (es @ [e])"
      then show ?L by (intro exI[of _ "Suc (length es)"]) simp
    next
      assume "e \<noteq> Clears a \<and> (\<exists>n \<le> length es. 5 \<le> streak a (take n es) \<and> Clears a \<notin> set (drop n es))"
      then obtain n where "n \<le> length es" "5 \<le> streak a (take n es)" "Clears a \<notin> set (drop n es)" "e \<noteq> Clears a"
        by blast
      then show ?L by (intro exI[of _ n]) auto
    qed
  qed
  have long: "5 \<le> streak a (es @ [e]) \<Longrightarrow> e \<noteq> Clears a \<and> (fails a e \<or> 5 \<le> streak a es)"
    by (auto simp: streak_snoc resets_def split: if_splits)
  have now: "5 \<le> streak a es \<Longrightarrow> is_quarantined (health_run es) a"
    unfolding snoc.IH by (intro exI[of _ "length es"]) simp
  show ?case
    unfolding split is_quarantined_snoc snoc.IH[symmetric] using long now by blast
qed

section \<open>Properties\<close>

text \<open>
  A failing job does not retry for ever: whatever the failures are, from attempt zero it is run
  again at most \<open>max_attempts - 1\<close> times, every delay is between 30 seconds and an hour, a later
  attempt never waits less than an earlier one, and a permanent failure is never retried.
\<close>

lemma retries_bounded:
  "int (length (retry_delays cls 0 m)) \<le> max 0 (m - 1)
   \<and> (\<forall>s \<in> set (retry_delays cls 0 m). 30 \<le> s \<and> s \<le> 3600)
   \<and> (decide_retry c a m = RD_RetryAfter s n \<longrightarrow> decide_retry d b m = RD_RetryAfter t k \<longrightarrow> a \<le> b \<longrightarrow> s \<le> t)
   \<and> (\<exists>r. decide_retry Permanent a m = RD_Permanent r)"
proof (intro conjI impI ballI)
  show "int (length (retry_delays cls 0 m)) \<le> max 0 (m - 1)"
    using retry_delays_length[of cls 0 m] by simp
  show "30 \<le> s" "s \<le> 3600" if "s \<in> set (retry_delays cls 0 m)" for s
    using retry_delays_bounds[OF that] by auto
  show "s \<le> t" if "decide_retry c a m = RD_RetryAfter s n" "decide_retry d b m = RD_RetryAfter t k" "a \<le> b"
    by (rule retry_seconds_mono[OF that])
  show "\<exists>r. decide_retry Permanent a m = RD_Permanent r" by (simp add: decide_retry_def)
qed

lemma retries_bounded_witness: "(60 :: i64) \<le> 240"
  by (rule retries_bounded[THEN conjunct2, THEN conjunct2, THEN conjunct1, rule_format,
        of Transient 1 9 60 2 CapabilityDrift 3 240 4])
    (simp_all add: decide_retry_def clamp_attempt_def retry_base_seconds_def retry_max_seconds_def
      sat_i64_def i64_max_def i64_min_def Let_def)

text \<open>
  An agent is out of rotation exactly when, at some point of its history, it had five failures
  since its last success or clearance, and nobody has cleared it since: a success alone never brings
  it back, and four failures never take it out.
\<close>

lemma quarantine_iff_history:
  "is_quarantined (health_run es) a \<longleftrightarrow>
     (\<exists>n. n \<le> length es \<and> 5 \<le> streak a (take n es) \<and> Clears a \<notin> set (drop n es))"
  by (rule quarantine_history)

end
