(* ===== verification/Reconcile.thy ===== *)
theory Reconcile
  imports Job
begin

text \<open>
  \<open>crates/transcodarr-server/src/reconcile.rs\<close>: what to do about the jobs of agents that went quiet.
  The set of connected agents is a list here. Times are unbounded integers. The lemmas say that work
  in good hands is left alone and that a job in the middle of its commit is only ever escalated.
\<close>

definition lease_grace_seconds :: i64 where
  "lease_grace_seconds = 90"

datatype reconcile_action =
    Requeue string job_state string
  | Escalate string string
  | ReleaseCapacity string

record in_flight_job =
  if_job_id :: string
  if_state :: job_state
  if_agent_id :: "string option"
  if_lease_expires_unix :: "i64 option"
  if_has_live_intent :: bool

record reconciler =
  rc_grace_seconds :: i64

definition default_reconciler :: reconciler where
  "default_reconciler = \<lparr> rc_grace_seconds = lease_grace_seconds \<rparr>"

definition with_grace :: "i64 \<Rightarrow> reconciler" where
  "with_grace g = \<lparr> rc_grace_seconds = g \<rparr>"

definition agent_present :: "string list \<Rightarrow> in_flight_job \<Rightarrow> bool" where
  "agent_present live job = or_default False (map_option (\<lambda>a. a \<in> set live) (if_agent_id job))"

definition lease_ok :: "reconciler \<Rightarrow> i64 \<Rightarrow> in_flight_job \<Rightarrow> bool" where
  "lease_ok r now_unix job =
     or_default False (map_option (\<lambda>exp. now_unix \<le> exp + rc_grace_seconds r) (if_lease_expires_unix job))"

definition reconcile_job :: "reconciler \<Rightarrow> string list \<Rightarrow> i64 \<Rightarrow> in_flight_job \<Rightarrow> reconcile_action list" where
  "reconcile_job r live now_unix job =
     (if agent_present live job \<and> lease_ok r now_unix job then []
      else if if_state job = Committing \<or> if_has_live_intent job
      then [Escalate (if_job_id job)
              (''agent '' @ or_default ''(none)'' (if_agent_id job)
               @ '' went away mid-commit; the outcome is on disk, not in the database'')]
      else [ReleaseCapacity (if_job_id job),
            Requeue (if_job_id job) (if_state job)
              (if agent_present live job
               then ''lease expired at '' @ show_int (or_default 0 (if_lease_expires_unix job))
                    @ '' and was not renewed''
               else ''agent '' @ or_default ''(none)'' (if_agent_id job) @ '' is no longer connected'')])"

fun reconcile :: "reconciler \<Rightarrow> in_flight_job list \<Rightarrow> string list \<Rightarrow> i64 \<Rightarrow> reconcile_action list" where
  "reconcile r [] live now_unix = []"
| "reconcile r (job # jobs) live now_unix =
     reconcile_job r live now_unix job @ reconcile r jobs live now_unix"

section \<open>Lemmas\<close>

fun action_job :: "reconcile_action \<Rightarrow> string" where
  "action_job (Requeue j _ _) = j"
| "action_job (Escalate j _) = j"
| "action_job (ReleaseCapacity j) = j"

definition in_good_hands :: "reconciler \<Rightarrow> string list \<Rightarrow> i64 \<Rightarrow> in_flight_job \<Rightarrow> bool" where
  "in_good_hands r live now job \<longleftrightarrow>
     (\<exists>a e. if_agent_id job = Some a \<and> a \<in> set live
        \<and> if_lease_expires_unix job = Some e \<and> now \<le> e + rc_grace_seconds r)"

definition mid_commit :: "in_flight_job \<Rightarrow> bool" where
  "mid_commit job \<longleftrightarrow> if_state job = Committing \<or> if_has_live_intent job"

lemma in_good_hands_iff: "agent_present c job \<and> lease_ok r now job \<longleftrightarrow> in_good_hands r c now job"
  by (cases "if_agent_id job"; cases "if_lease_expires_unix job")
    (auto simp: agent_present_def lease_ok_def in_good_hands_def)

lemma reconcile_job_cases:
  "in_good_hands r c now job \<Longrightarrow> reconcile_job r c now job = []"
  "\<not> in_good_hands r c now job \<Longrightarrow> mid_commit job \<Longrightarrow> \<exists>d. reconcile_job r c now job = [Escalate (if_job_id job) d]"
  "\<not> in_good_hands r c now job \<Longrightarrow> \<not> mid_commit job \<Longrightarrow>
     \<exists>why. reconcile_job r c now job = [ReleaseCapacity (if_job_id job), Requeue (if_job_id job) (if_state job) why]"
  using in_good_hands_iff[of c job r now] by (auto simp: reconcile_job_def mid_commit_def)

lemma reconcile_concat: "reconcile r jobs c now = concat (map (reconcile_job r c now) jobs)"
  by (induction jobs) auto

lemma reconcile_job_action_job: "x \<in> set (reconcile_job r c now job) \<Longrightarrow> action_job x = if_job_id job"
  by (auto simp: reconcile_job_def split: if_splits)

text \<open>The actions about one job are the ones its own entry gives.\<close>

lemma filter_reconcile:
  assumes "distinct (map if_job_id jobs)" "job \<in> set jobs"
  shows "filter (\<lambda>x. action_job x = if_job_id job) (reconcile r jobs c now) = reconcile_job r c now job"
  using assms
proof (induction jobs)
  case (Cons k jobs)
  have own: "filter (\<lambda>x. action_job x = if_job_id k) (reconcile_job r c now k) = reconcile_job r c now k" for k
    using reconcile_job_action_job by (auto simp: filter_id_conv)
  have other: "if_job_id k \<noteq> if_job_id m \<Longrightarrow>
      filter (\<lambda>x. action_job x = if_job_id m) (reconcile_job r c now k) = []" for k m
    using reconcile_job_action_job by (force simp: filter_empty_conv)
  show ?case
  proof (cases "job = k")
    case True
    have "filter (\<lambda>x. action_job x = if_job_id k) (reconcile r jobs c now) = []"
    proof -
      have ne: "\<forall>m \<in> set jobs. if_job_id m \<noteq> if_job_id k"
        using Cons.prems(1) by simp (metis image_eqI)
      have "action_job x \<noteq> if_job_id k" if x: "x \<in> set (reconcile r jobs c now)" for x
      proof -
        obtain m where "m \<in> set jobs" "x \<in> set (reconcile_job r c now m)"
          using x by (auto simp: reconcile_concat)
        then show ?thesis using ne reconcile_job_action_job by metis
      qed
      then show ?thesis by (simp add: filter_empty_conv)
    qed
    then show ?thesis using own True by simp
  next
    case False
    then have "job \<in> set jobs" using Cons.prems(2) by simp
    moreover from this have "if_job_id k \<noteq> if_job_id job" using Cons.prems(1) by simp (metis image_eqI)
    ultimately show ?thesis using Cons other by simp
  qed
qed simp

section \<open>Properties\<close>

text \<open>
  C13. The reconciler never guesses and never steals: about a job whose agent is connected with a
  current lease it does nothing; about one in the middle of a commit it only escalates; about any
  other it first releases the capacity and then requeues from the state it was found in. No action
  ever reports success.
\<close>

theorem reconcile_per_job:
  assumes "distinct (map if_job_id jobs)" "job \<in> set jobs"
  shows "let mine = filter (\<lambda>x. action_job x = if_job_id job) (reconcile r jobs live now) in
         (in_good_hands r live now job \<longrightarrow> mine = [])
       \<and> (\<not> in_good_hands r live now job \<and> mid_commit job \<longrightarrow>
            (\<exists>d. mine = [Escalate (if_job_id job) d]))
       \<and> (\<not> in_good_hands r live now job \<and> \<not> mid_commit job \<longrightarrow>
            (\<exists>why. mine = [ReleaseCapacity (if_job_id job), Requeue (if_job_id job) (if_state job) why]))"
  unfolding Let_def filter_reconcile[OF assms] using reconcile_job_cases by blast

lemma reconcile_per_job_witness:
  "\<exists>d. filter (\<lambda>x. action_job x = ''j'')
     (reconcile default_reconciler
        [\<lparr> if_job_id = ''i'', if_state = Running, if_agent_id = None, if_lease_expires_unix = None,
           if_has_live_intent = False \<rparr>,
         \<lparr> if_job_id = ''j'', if_state = Committing, if_agent_id = Some ''a'', if_lease_expires_unix = Some 10,
           if_has_live_intent = False \<rparr>] [''a''] 101) = [Escalate ''j'' d]"
proof -
  let ?j = "\<lparr> if_job_id = ''j'', if_state = Committing, if_agent_id = Some ''a'', if_lease_expires_unix = Some 10,
           if_has_live_intent = False \<rparr>"
  let ?js = "[\<lparr> if_job_id = ''i'', if_state = Running, if_agent_id = None, if_lease_expires_unix = None,
           if_has_live_intent = False \<rparr>, ?j]"
  have "\<not> in_good_hands default_reconciler [''a''] 101 ?j" "mid_commit ?j"
    by (simp_all add: in_good_hands_def mid_commit_def default_reconciler_def lease_grace_seconds_def)
  with reconcile_per_job[of ?js ?j default_reconciler "[''a'']" 101] show ?thesis
    by (simp add: Let_def)
qed

end
