(* ===== verification/Schedule.thy ===== *)
theory Schedule
  imports Job
begin

text \<open>
  \<open>crates/transcodarr-server/src/schedule.rs\<close>: recurring windows, expiring overrides, the limits in
  force and the clock they are read against. The lemmas describe the wrapping windows, the precedence
  of the limits and the arithmetic of the clock.
\<close>

unbundle bit_operations_syntax

definition minutes_per_day :: i64 where
  "minutes_per_day = 24 * 60"

record schedule_window =
  sw_name :: string
  sw_enabled :: bool
  sw_days_mask :: u8
  sw_start_minute :: i64
  sw_end_minute :: i64
  sw_priority :: i64
  sw_total_slots :: "u32 option"
  sw_per_class :: "(job_class \<times> u32) list"

definition covers :: "schedule_window \<Rightarrow> u8 \<Rightarrow> i64 \<Rightarrow> bool" where
  "covers w weekday minute_of_day =
     (if \<not> sw_enabled w \<or> weekday > 6 then False
      else if sw_days_mask w AND push_bit (unat weekday) 1 = 0 then False
      else
        let m = minute_of_day mod minutes_per_day in
        if sw_start_minute w \<le> sw_end_minute w
        then m \<ge> sw_start_minute w \<and> m < sw_end_minute w
        else m \<ge> sw_start_minute w \<or> m < sw_end_minute w)"

record override =
  ov_scope :: string
  ov_class :: "job_class option"
  ov_slots :: u32
  ov_expires_unix :: i64
  ov_reason :: string

definition active :: "override \<Rightarrow> i64 \<Rightarrow> bool" where
  "active o' now_unix \<longleftrightarrow> now_unix < ov_expires_unix o'"

definition applies_to :: "override \<Rightarrow> string \<Rightarrow> bool" where
  "applies_to o' agent_id \<longleftrightarrow> ov_scope o' = ''*'' \<or> ov_scope o' = agent_id"

record effective_limits =
  el_total_slots :: u32
  el_per_class :: "(job_class \<times> u32) list"
  el_source :: string

definition is_paused :: "effective_limits \<Rightarrow> bool" where
  "is_paused l \<longleftrightarrow> el_total_slots l = 0"

record schedule_engine =
  se_windows :: "schedule_window list"
  se_overrides :: "override list"

definition new_engine :: schedule_engine where
  "new_engine = \<lparr> se_windows = [], se_overrides = [] \<rparr>"

definition paused_until :: "i64 \<Rightarrow> string \<Rightarrow> schedule_engine" where
  "paused_until expires_unix reason =
     \<lparr> se_windows = [],
       se_overrides = [\<lparr> ov_scope = ''*'', ov_class = None, ov_slots = 0, ov_expires_unix = expires_unix,
                         ov_reason = reason \<rparr>] \<rparr>"

definition set_windows :: "schedule_window list \<Rightarrow> schedule_engine \<Rightarrow> schedule_engine" where
  "set_windows ws e = e \<lparr> se_windows := ws \<rparr>"

definition set_overrides :: "override list \<Rightarrow> schedule_engine \<Rightarrow> schedule_engine" where
  "set_overrides os e = e \<lparr> se_overrides := os \<rparr>"

definition expire :: "i64 \<Rightarrow> schedule_engine \<Rightarrow> override list \<times> schedule_engine" where
  "expire now_unix e =
     (filter (\<lambda>x. \<not> active x now_unix) (se_overrides e),
      e \<lparr> se_overrides := filter (\<lambda>x. active x now_unix) (se_overrides e) \<rparr>)"

text \<open>\<open>max_by_key\<close>: the last of the greatest.\<close>

fun max_by_priority :: "schedule_window list \<Rightarrow> schedule_window option" where
  "max_by_priority [] = None"
| "max_by_priority (w # ws) =
     (case max_by_priority ws of
        None \<Rightarrow> Some w
      | Some v \<Rightarrow> if sw_priority w > sw_priority v then Some w else Some v)"

definition apply_window :: "schedule_window \<Rightarrow> effective_limits \<Rightarrow> effective_limits" where
  "apply_window w l =
     l \<lparr> el_total_slots := or_default (el_total_slots l) (sw_total_slots w),
         el_per_class := fold (\<lambda>(class, slots). AList.update class slots) (sw_per_class w) (el_per_class l),
         el_source := ''window '' @ [CHR 0x27] @ sw_name w @ [CHR 0x27] \<rparr>"

definition apply_override :: "override \<Rightarrow> effective_limits \<Rightarrow> effective_limits" where
  "apply_override x l =
     (case ov_class x of
        Some class \<Rightarrow> l \<lparr> el_per_class := AList.update class (ov_slots x) (el_per_class l) \<rparr>
      | None \<Rightarrow> l \<lparr> el_total_slots := ov_slots x \<rparr>)
     \<lparr> el_source := ''override ('' @ ov_reason x @ '')'' \<rparr>"

definition effective ::
    "schedule_engine \<Rightarrow> string \<Rightarrow> u32 \<Rightarrow> (job_class \<times> u32) list \<Rightarrow> u8 \<Rightarrow> i64 \<Rightarrow> i64 \<Rightarrow> effective_limits" where
  "effective e agent_id baseline_total baseline_per_class weekday minute_of_day now_unix =
     (let limits = \<lparr> el_total_slots = baseline_total, el_per_class = baseline_per_class,
                     el_source = ''baseline'' \<rparr>;
          limits = (case max_by_priority (filter (\<lambda>w. covers w weekday minute_of_day) (se_windows e)) of
                      Some w \<Rightarrow> apply_window w limits
                    | None \<Rightarrow> limits)
      in fold apply_override (filter (\<lambda>x. active x now_unix \<and> applies_to x agent_id) (se_overrides e)) limits)"

definition clock :: "i64 \<Rightarrow> u8 \<times> i64" where
  "clock now_unix =
     (let days = now_unix div 86400;
          weekday = (word_of_int ((days + 3) mod 7) :: u8);
          minute_of_day = (now_unix mod 86400) div 60
      in (weekday, minute_of_day))"

definition should_interrupt_running :: "schedule_engine \<Rightarrow> bool" where
  "should_interrupt_running e = False"

section \<open>Windows\<close>

text \<open>A window counts for a weekday.\<close>

definition on_day :: "schedule_window \<Rightarrow> u8 \<Rightarrow> bool" where
  "on_day w d \<longleftrightarrow> sw_enabled w \<and> d \<le> 6 \<and> bit (sw_days_mask w) (unat d)"

lemma and_push_bit_1: "(x :: u8) AND push_bit n 1 = 0 \<longleftrightarrow> \<not> bit x n"
  using bit_iff_and_push_bit_not_eq_0[of x n] by blast

lemma covers_iff:
  "covers w d t \<longleftrightarrow>
     on_day w d \<and>
     (let m = t mod 1440 in
      if sw_start_minute w \<le> sw_end_minute w then sw_start_minute w \<le> m \<and> m < sw_end_minute w
      else sw_start_minute w \<le> m \<or> m < sw_end_minute w)"
  unfolding covers_def on_day_def and_push_bit_1 by (auto simp: minutes_per_day_def Let_def not_less not_le)

definition swapped :: "schedule_window \<Rightarrow> schedule_window" where
  "swapped w = w \<lparr> sw_start_minute := sw_end_minute w, sw_end_minute := sw_start_minute w \<rparr>"

text \<open>
  A window that wraps past midnight is tied to one weekday bit on both sides of midnight: a window
  for Fridays alone from 22:00 to 06:00 covers the early hours of Friday and not those of Saturday.
\<close>

lemma overnight_window_same_day:
  "let w = \<lparr> sw_name = ''night'', sw_enabled = True, sw_days_mask = 16, sw_start_minute = 22 * 60,
             sw_end_minute = 6 * 60, sw_priority = 0, sw_total_slots = None, sw_per_class = [] \<rparr> in
   covers w 4 (2 * 60) \<and> covers w 4 (23 * 60) \<and> \<not> covers w 5 (2 * 60)"
  by (simp add: covers_def minutes_per_day_def Let_def)

lemma max_by_priority_None: "max_by_priority ws = None \<longleftrightarrow> ws = []"
  by (cases ws) (auto split: option.splits)

lemma max_by_priority_props:
  "max_by_priority ws = Some w \<Longrightarrow> w \<in> set ws \<and> (\<forall>v \<in> set ws. sw_priority v \<le> sw_priority w)"
  by (induction ws arbitrary: w) (auto simp: max_by_priority_None split: option.splits if_splits)

section \<open>Precedence\<close>

text \<open>The overrides in force for an agent, and the last one that sets the total.\<close>

definition in_force :: "schedule_engine \<Rightarrow> string \<Rightarrow> i64 \<Rightarrow> override list" where
  "in_force e agent now = filter (\<lambda>x. active x now \<and> applies_to x agent) (se_overrides e)"

definition last_total :: "override list \<Rightarrow> u32 option" where
  "last_total os = map_option ov_slots (List.find (\<lambda>x. ov_class x = None) (rev os))"

definition last_class :: "job_class \<Rightarrow> override list \<Rightarrow> u32 option" where
  "last_class c os = map_option ov_slots (List.find (\<lambda>x. ov_class x = Some c) (rev os))"

lemma find_append: "List.find P (xs @ ys) = (case List.find P xs of Some x \<Rightarrow> Some x | None \<Rightarrow> List.find P ys)"
  by (induction xs) auto

lemma fold_override_total:
  "el_total_slots (fold apply_override os l) = or_default (el_total_slots l) (last_total os)"
  by (induction os rule: rev_induct) (auto simp: last_total_def apply_override_def split: option.splits)

lemma fold_override_class:
  "map_of (el_per_class (fold apply_override os l)) c =
     (case last_class c os of Some s \<Rightarrow> Some s | None \<Rightarrow> map_of (el_per_class l) c)"
  by (induction os rule: rev_induct) (auto simp: last_class_def apply_override_def split: option.splits)

lemma effective_total:
  "el_total_slots (effective e a bt bc d m now) =
     (case last_total (in_force e a now) of
        Some s \<Rightarrow> s
      | None \<Rightarrow>
          (case max_by_priority (filter (\<lambda>w. covers w d m) (se_windows e)) of
             Some w \<Rightarrow> or_default bt (sw_total_slots w)
           | None \<Rightarrow> bt))"
  by (auto simp: effective_def in_force_def fold_override_total apply_window_def Let_def split: option.splits)

lemma effective_expire: "effective (snd (expire now e)) a bt bc d m now = effective e a bt bc d m now"
  by (simp add: effective_def expire_def conj_commute)

section \<open>The clock\<close>

lemma clock_parts:
  "uint (fst (clock t)) = (t div 86400 + 3) mod 7" "snd (clock t) = (t mod 86400) div 60"
proof -
  have "0 \<le> (t div 86400 + 3) mod 7" "(t div 86400 + 3) mod 7 < 7" by simp_all
  then have "uint (word_of_int ((t div 86400 + 3) mod 7) :: u8) = (t div 86400 + 3) mod 7"
    by (simp add: uint_word_of_int)
  then show "uint (fst (clock t)) = (t div 86400 + 3) mod 7" by (simp add: clock_def Let_def)
  show "snd (clock t) = (t mod 86400) div 60" by (simp add: clock_def Let_def)
qed

section \<open>Properties\<close>

text \<open>
  An overnight window is the complement of the daytime one: on a day both count for, of a window
  with distinct ends within the day and the same window with its ends swapped, exactly one covers any
  given minute; a window with equal ends covers nothing; and a window only ever covers its own days
  and when enabled.
\<close>

lemma window_wraps:
  "(on_day w d \<longrightarrow> sw_start_minute w \<noteq> sw_end_minute w \<longrightarrow> covers (swapped w) d t = (\<not> covers w d t))
   \<and> (sw_start_minute w = sw_end_minute w \<longrightarrow> \<not> covers w d t)
   \<and> (covers w d t \<longrightarrow> on_day w d)"
  by (auto simp: covers_iff swapped_def on_day_def Let_def)

lemma window_wraps_witness:
  "let w = \<lparr> sw_name = ''night'', sw_enabled = True, sw_days_mask = 127, sw_start_minute = 1320,
             sw_end_minute = 360, sw_priority = 0, sw_total_slots = None, sw_per_class = [] \<rparr> in
   covers (swapped w) 2 700 = (\<not> covers w 2 700)"
  unfolding Let_def
  by (rule window_wraps[THEN conjunct1, rule_format]) (simp_all add: on_day_def bit_simps)

text \<open>
  The total in force follows the stated precedence: the last active override of the total that
  applies to the agent, zero included, else the total of a covering window of greatest priority, else
  the baseline. Dropping expired overrides never changes the limits, and a pause of the fleet stops
  every agent until it expires and leaves the baseline afterwards.
\<close>

lemma effective_precedence:
  "(\<forall>s. last_total (in_force e a now) = Some s \<longrightarrow> el_total_slots (effective e a bt bc d m now) = s)
   \<and> (last_total (in_force e a now) = None \<longrightarrow>
        (case max_by_priority (filter (\<lambda>w. covers w d m) (se_windows e)) of
           Some w \<Rightarrow> covers w d m \<and> w \<in> set (se_windows e)
                   \<and> (\<forall>v \<in> set (se_windows e). covers v d m \<longrightarrow> sw_priority v \<le> sw_priority w)
                   \<and> el_total_slots (effective e a bt bc d m now) = or_default bt (sw_total_slots w)
         | None \<Rightarrow> (\<forall>v \<in> set (se_windows e). \<not> covers v d m)
                   \<and> el_total_slots (effective e a bt bc d m now) = bt))
   \<and> effective (snd (expire now e)) a bt bc d m now = effective e a bt bc d m now
   \<and> el_total_slots (effective (paused_until x r) a bt bc d m now) = (if now < x then 0 else bt)"
proof (intro conjI allI impI)
  show "effective (snd (expire now e)) a bt bc d m now = effective e a bt bc d m now"
    by (rule effective_expire)
  show "el_total_slots (effective (paused_until x r) a bt bc d m now) = (if now < x then 0 else bt)"
    by (simp add: effective_total in_force_def paused_until_def last_total_def active_def applies_to_def)
  show "el_total_slots (effective e a bt bc d m now) = s" if "last_total (in_force e a now) = Some s" for s
    using that by (simp add: effective_total)
next
  assume n: "last_total (in_force e a now) = None"
  show "case max_by_priority (filter (\<lambda>w. covers w d m) (se_windows e)) of
           Some w \<Rightarrow> covers w d m \<and> w \<in> set (se_windows e)
                   \<and> (\<forall>v \<in> set (se_windows e). covers v d m \<longrightarrow> sw_priority v \<le> sw_priority w)
                   \<and> el_total_slots (effective e a bt bc d m now) = or_default bt (sw_total_slots w)
         | None \<Rightarrow> (\<forall>v \<in> set (se_windows e). \<not> covers v d m)
                   \<and> el_total_slots (effective e a bt bc d m now) = bt"
    using n by (auto simp: effective_total max_by_priority_None filter_empty_conv
        split: option.splits dest: max_by_priority_props)
qed

lemma effective_precedence_witness:
  "el_total_slots (effective (set_overrides
      [\<lparr> ov_scope = ''a'', ov_class = None, ov_slots = 0, ov_expires_unix = 10, ov_reason = ''x'' \<rparr>] new_engine)
      ''a'' 4 [] 0 0 5) = 0"
  by (rule effective_precedence[THEN conjunct1, rule_format])
    (simp add: last_total_def in_force_def set_overrides_def active_def applies_to_def)

text \<open>
  The clock is the UTC calendar: the epoch is a Thursday at midnight, the weekday is one of seven
  and the minute one of 1440, a day later it is the next weekday at the same minute, and the time of
  day can be recovered from day, minute and second.
\<close>

lemma clock_calendar:
  "clock 0 = (3, 0)
   \<and> uint (fst (clock t)) \<in> {0..6} \<and> snd (clock t) \<in> {0..1439}
   \<and> uint (fst (clock (t + 86400))) = (uint (fst (clock t)) + 1) mod 7
   \<and> snd (clock (t + 86400)) = snd (clock t)
   \<and> t = 86400 * (t div 86400) + 60 * snd (clock t) + t mod 60"
proof (intro conjI)
  show "clock 0 = (3, 0)" by (simp add: clock_def)
  show "uint (fst (clock t)) \<in> {0..6}" unfolding clock_parts using pos_mod_bound[of 7 "t div 86400 + 3"] by simp
  have r: "0 \<le> t mod 86400" "t mod 86400 < 86400" by simp_all
  then have "0 \<le> t mod 86400 div 60" "t mod 86400 div 60 < 1440" by (simp_all add: pos_imp_zdiv_nonneg_iff)
  then show "snd (clock t) \<in> {0..1439}" unfolding clock_parts by simp
  show "uint (fst (clock (t + 86400))) = (uint (fst (clock t)) + 1) mod 7"
    unfolding clock_parts by (simp add: mod_simps algebra_simps)
  show "snd (clock (t + 86400)) = snd (clock t)" unfolding clock_parts by simp
  have "t mod 86400 mod 60 = t mod 60" by (rule mod_mod_cancel) simp
  then have "60 * (t mod 86400 div 60) + t mod 60 = t mod 86400"
    using mult_div_mod_eq[of 60 "t mod 86400"] by simp
  then show "t = 86400 * (t div 86400) + 60 * snd (clock t) + t mod 60"
    unfolding clock_parts using mult_div_mod_eq[of 86400 t] by linarith
qed

end
