(* ===== verification/Database.thy ===== *)
theory Database
  imports Prelude Job Facts "HOL-Library.List_Lexorder" "HOL-Library.Char_ord"
begin

text \<open>
  The tables the store's repositories work on (\<open>crates/transcodarr-store/migrations/0001_initial.sql\<close>), the errors of the store and the
  write operations of \<open>writer.rs\<close>. A table is the list of its rows in the order they were
  inserted; enumerations are stored as text, as the schema has them. Columns no statement of the
  modelled repositories writes are left out. The checks of the schema (primary keys, the partial
  unique indexes, foreign keys, \<open>CHECK\<close> lists) are the branches of the insertions and updates.
\<close>

section \<open>Errors and acknowledgements\<close>

datatype sql_error = PrimaryKeyTaken | UniqueIndexTaken | ForeignKeyMissing | CheckFailed

datatype store_error =
    SE_Sqlite sql_error
  | SE_WriterStopped
  | SE_NotFound string string
  | SE_UnknownEnum string string
  | SE_IllegalTransition string string string
  | SE_TransitionRaceLost string string

record write_ack =
  ack_rows :: nat
  ack_last_id :: "i64 option"

definition ack_of_rows :: "nat \<Rightarrow> write_ack" where
  "ack_of_rows n = \<lparr> ack_rows = n, ack_last_id = None \<rparr>"

section \<open>Tables\<close>

record job_row =
  jt_id :: string
  jt_file_id :: i64
  jt_library_id :: string
  jt_class :: string
  jt_size_bucket :: string
  jt_state :: string
  jt_priority :: i64
  jt_order_key :: i64
  jt_requirements_json :: string
  jt_bucket_key :: string
  jt_content_sig :: string
  jt_rules_version :: string
  jt_attempt :: i64
  jt_max_attempts :: i64
  jt_agent_id :: "string option"
  jt_fencing_epoch :: i64
  jt_parent :: "string option"
  jt_terminal_reason :: "string option"
  jt_created :: i64
  jt_updated :: i64
  jt_started :: "i64 option"
  jt_finished :: "i64 option"

record event_row =
  et_id :: i64
  et_job :: string
  et_at :: i64
  et_from :: "string option"
  et_to :: string
  et_attempt :: i64
  et_reason :: "string option"
  et_detail :: "string option"

record intent_row =
  it_id :: string
  it_job_id :: string
  it_attempt :: i64
  it_agent_id :: string
  it_agent_uid :: string
  it_fencing_epoch :: i64
  it_source_path :: string
  it_temp_path :: string
  it_final_path :: string
  it_content_sig :: string
  it_phase :: string
  it_state :: string
  it_resolution :: "string option"
  it_created :: i64
  it_updated :: i64
  it_resolved :: "i64 option"

record trash_row =
  tt_id :: i64
  tt_file_id :: "i64 option"
  tt_job_id :: "string option"
  tt_original_path :: string
  tt_trash_path :: string
  tt_size_bytes :: i64
  tt_at :: i64
  tt_purge_after :: i64
  tt_restored :: "i64 option"

text \<open>What a probe wrote of a file; booleans are the 0 or 1 of the schema.\<close>

record probe_columns =
  pc_container :: "string option"
  pc_duration_s :: "f64 option"
  pc_bitrate_bps :: "i64 option"
  pc_video_codec :: "string option"
  pc_video_profile :: "string option"
  pc_video_bit_depth :: "i64 option"
  pc_video_pix_fmt :: "string option"
  pc_video_width :: "i64 option"
  pc_video_height :: "i64 option"
  pc_is_hdr :: i64
  pc_is_dovi :: i64
  pc_dovi_profile :: "i64 option"
  pc_has_object_audio :: i64
  pc_audio_codecs :: "string option"
  pc_audio_track_count :: i64
  pc_subtitle_track_count :: i64

record file_row =
  ft_id :: i64
  ft_library_id :: string
  ft_canonical_path :: string
  ft_path_hash :: string
  ft_size_bytes :: i64
  ft_mtime_unix :: i64
  ft_mtime_ns :: i64
  ft_inode :: "i64 option"
  ft_dev :: "i64 option"
  ft_nlink :: i64
  ft_size_bucket :: "string option"
  ft_content_sig :: "string option"
  ft_probe :: probe_columns
  ft_probe_json :: "string option"
  ft_probe_at :: "i64 option"
  ft_probe_tool :: "string option"
  ft_state :: string
  ft_decision :: "string option"
  ft_decision_reason :: "string option"
  ft_eval_rules_version :: "string option"
  ft_eval_at :: "i64 option"
  ft_streak :: i64
  ft_first_seen :: i64
  ft_last_seen :: i64
  ft_scan_generation :: i64

record library_row =
  lt_id :: string
  lt_name :: string
  lt_root_path :: string
  lt_work_dir :: string
  lt_trash_dir :: string
  lt_exclude_globs_json :: string
  lt_enabled :: bool
  lt_scan_parallelism :: i64
  lt_priority :: i64
  lt_min_mtime_age_s :: i64
  lt_created :: i64
  lt_updated :: i64

record scan_row =
  st_id :: i64
  st_library_id :: string
  st_mode :: string
  st_started :: i64
  st_finished :: "i64 option"
  st_status :: string
  st_files_seen :: i64
  st_files_new :: i64
  st_files_changed :: i64
  st_files_missing :: i64
  st_probe_errors :: i64
  st_duration_ms :: "i64 option"
  st_scan_generation :: i64
  st_aborted_reason :: "string option"

record agent_row =
  at_id :: string
  at_agent_uid :: string
  at_boot_id :: "string option"
  at_hostname :: "string option"
  at_platform :: "string option"
  at_arch :: "string option"
  at_agent_version :: "string option"
  at_proto_version :: "i64 option"
  at_ffmpeg_version :: "string option"
  at_ffprobe_version :: "string option"
  at_driver_version :: "string option"
  at_classes_json :: string
  at_capability_json :: string
  at_capability_hash :: "string option"
  at_effective_cores :: "f64 option"
  at_physical_cores :: "i64 option"
  at_mounts_json :: string
  at_rename_probe_status :: string
  at_commit_eligible :: i64
  at_fencing_epoch :: i64
  at_status :: string
  at_admin_state :: string
  at_quarantine_reason :: "string option"
  at_connected_since :: "i64 option"
  at_last_register :: "i64 option"
  at_last_heartbeat :: "i64 option"
  at_lease_expires :: "i64 option"

record history_row =
  ht_id :: i64
  ht_agent_id :: string
  ht_at :: i64
  ht_capability_hash :: string
  ht_capability_json :: string
  ht_agent_version :: "string option"
  ht_ffmpeg_version :: "string option"
  ht_driver_version :: "string option"
  ht_diff_summary :: "string option"

record block_row =
  bt_job_id :: string
  bt_at :: i64
  bt_stage :: string
  bt_detail_json :: "string option"

record database =
  db_files :: "file_row list"
  db_file_seq :: nat
  db_libraries :: "library_row list"
  db_scans :: "scan_row list"
  db_scan_seq :: nat
  db_agents :: "agent_row list"
  db_history :: "history_row list"
  db_history_seq :: nat
  db_jobs :: "job_row list"
  db_events :: "event_row list"
  db_event_seq :: nat
  db_intents :: "intent_row list"
  db_trash :: "trash_row list"
  db_trash_seq :: nat
  db_blocks :: "block_row list"

text \<open>A database with files, libraries and agents and nothing else yet.\<close>

definition empty_database :: "file_row list \<Rightarrow> library_row list \<Rightarrow> agent_row list \<Rightarrow> database" where
  "empty_database fs ls as = \<lparr> db_files = fs, db_file_seq = foldr (\<lambda>f n. max (nat (ft_id f)) n) fs 0,
     db_libraries = ls, db_scans = [], db_scan_seq = 0, db_agents = as, db_history = [], db_history_seq = 0,
     db_jobs = [], db_events = [], db_event_seq = 0, db_intents = [], db_trash = [], db_trash_seq = 0,
     db_blocks = [] \<rparr>"

text \<open>Rows for the witnesses: a file, a library and an agent.\<close>

definition no_probe :: probe_columns where
  "no_probe = \<lparr> pc_container = None, pc_duration_s = None, pc_bitrate_bps = None, pc_video_codec = None,
     pc_video_profile = None, pc_video_bit_depth = None, pc_video_pix_fmt = None, pc_video_width = None,
     pc_video_height = None, pc_is_hdr = 0, pc_is_dovi = 0, pc_dovi_profile = None, pc_has_object_audio = 0,
     pc_audio_codecs = None, pc_audio_track_count = 0, pc_subtitle_track_count = 0 \<rparr>"

definition sample_file :: file_row where
  "sample_file = \<lparr> ft_id = 1, ft_library_id = ''l'', ft_canonical_path = ''/m/f'', ft_path_hash = ''h'',
     ft_size_bytes = 9, ft_mtime_unix = 5, ft_mtime_ns = 0, ft_inode = Some 7, ft_dev = Some 1, ft_nlink = 1,
     ft_size_bucket = None, ft_content_sig = None, ft_probe = no_probe, ft_probe_json = None, ft_probe_at = None,
     ft_probe_tool = None, ft_state = ''Discovered'', ft_decision = None, ft_decision_reason = None,
     ft_eval_rules_version = None, ft_eval_at = None, ft_streak = 0, ft_first_seen = 1, ft_last_seen = 1,
     ft_scan_generation = 1 \<rparr>"

definition sample_library :: library_row where
  "sample_library = \<lparr> lt_id = ''l'', lt_name = ''l'', lt_root_path = ''/m'', lt_work_dir = ''/m/w'',
     lt_trash_dir = ''/m/t'', lt_exclude_globs_json = ''[]'', lt_enabled = True, lt_scan_parallelism = 4,
     lt_priority = 0, lt_min_mtime_age_s = 300, lt_created = 1, lt_updated = 1 \<rparr>"

definition sample_agent :: agent_row where
  "sample_agent = \<lparr> at_id = ''a'', at_agent_uid = ''u'', at_boot_id = Some ''b'', at_hostname = None,
     at_platform = None, at_arch = None, at_agent_version = Some ''1.0.0'', at_proto_version = Some 2,
     at_ffmpeg_version = None, at_ffprobe_version = None, at_driver_version = None, at_classes_json = ''[]'',
     at_capability_json = ''{}'', at_capability_hash = None, at_effective_cores = Some 4,
     at_physical_cores = None, at_mounts_json = ''[]'', at_rename_probe_status = ''ok'', at_commit_eligible = 1,
     at_fencing_epoch = 1, at_status = ''Online'', at_admin_state = ''Enabled'', at_quarantine_reason = None,
     at_connected_since = Some 1, at_last_register = Some 1, at_last_heartbeat = Some 1, at_lease_expires = Some 100 \<rparr>"

lemma sample_ids [simp]: "ft_id sample_file = 1" "lt_id sample_library = ''l''" "at_id sample_agent = ''a''"
  by (simp_all add: sample_file_def sample_library_def sample_agent_def)

section \<open>Statements\<close>

text \<open>\<open>UPDATE t SET f WHERE P\<close>: the rows afterwards and how many were affected.\<close>

definition sql_update :: "('r \<Rightarrow> bool) \<Rightarrow> ('r \<Rightarrow> 'r) \<Rightarrow> 'r list \<Rightarrow> 'r list \<times> nat" where
  "sql_update P f rows = (map (\<lambda>r. if P r then f r else r) rows, length (filter P rows))"

definition sql_delete :: "('r \<Rightarrow> bool) \<Rightarrow> 'r list \<Rightarrow> 'r list \<times> nat" where
  "sql_delete P rows = (filter (\<lambda>r. \<not> P r) rows, length (filter P rows))"

definition query_row :: "('r \<Rightarrow> bool) \<Rightarrow> 'r list \<Rightarrow> 'r option" where
  "query_row P rows = List.find P rows"

text \<open>The states the partial index on open jobs leaves out.\<close>

definition closed_states :: "string list" where
  "closed_states = [''Succeeded'', ''Failed'', ''Cancelled'', ''DeadLettered'', ''NeedsOperator'']"

definition row_open :: "job_row \<Rightarrow> bool" where
  "row_open r \<longleftrightarrow> jt_state r \<notin> set closed_states"

definition job_checks :: "job_row \<Rightarrow> bool" where
  "job_checks r \<longleftrightarrow> jt_class r \<in> {''Audio'', ''VideoGpu'', ''VideoCpu'', ''Probe'', ''Verify''}
     \<and> jt_size_bucket r \<in> {''Small'', ''Medium'', ''Large''}
     \<and> jt_state r \<in> {''Pending'', ''Blocked'', ''Eligible'', ''Assigned'', ''Running'', ''Verifying'',
         ''Committing'', ''Retrying'', ''Succeeded'', ''Failed'', ''Cancelled'', ''DeadLettered'',
         ''NeedsOperator''}"

definition job_parents :: "database \<Rightarrow> job_row \<Rightarrow> bool" where
  "job_parents db r \<longleftrightarrow> jt_file_id r \<in> ft_id ` set (db_files db) \<and> jt_library_id r \<in> lt_id ` set (db_libraries db)
     \<and> (case jt_agent_id r of None \<Rightarrow> True | Some a \<Rightarrow> a \<in> at_id ` set (db_agents db))
     \<and> (case jt_parent r of None \<Rightarrow> True | Some p \<Rightarrow> p = jt_id r \<or> p \<in> jt_id ` set (db_jobs db))"

definition insert_job :: "job_row \<Rightarrow> database \<Rightarrow> store_error + database" where
  "insert_job r db =
     (if \<not> job_checks r then Inl (SE_Sqlite CheckFailed)
      else if list_ex (\<lambda>q. jt_id q = jt_id r) (db_jobs db) then Inl (SE_Sqlite PrimaryKeyTaken)
      else if row_open r \<and> list_ex (\<lambda>q. row_open q \<and> jt_file_id q = jt_file_id r) (db_jobs db)
      then Inl (SE_Sqlite UniqueIndexTaken)
      else if \<not> job_parents db r then Inl (SE_Sqlite ForeignKeyMissing)
      else Inr (db\<lparr> db_jobs := db_jobs db @ [r] \<rparr>))"

text \<open>\<open>UPDATE job SET f WHERE P\<close>, with the number of rows affected.\<close>

definition update_job :: "(job_row \<Rightarrow> bool) \<Rightarrow> (job_row \<Rightarrow> job_row) \<Rightarrow> database \<Rightarrow> store_error + (nat \<times> database)" where
  "update_job P f db =
     (let (rows, n) = sql_update P f (db_jobs db); changed = map f (filter P (db_jobs db))
      in if \<not> list_all job_checks changed then Inl (SE_Sqlite CheckFailed)
         else if \<not> distinct (map jt_file_id (filter row_open rows)) then Inl (SE_Sqlite UniqueIndexTaken)
         else if \<not> list_all (job_parents db) changed then Inl (SE_Sqlite ForeignKeyMissing)
         else Inr (n, db\<lparr> db_jobs := rows \<rparr>))"

text \<open>The event's \<open>AUTOINCREMENT\<close> id is one more than any the table ever had.\<close>

definition insert_event :: "event_row \<Rightarrow> database \<Rightarrow> store_error + database" where
  "insert_event e db =
     (if et_job e \<notin> jt_id ` set (db_jobs db) then Inl (SE_Sqlite ForeignKeyMissing)
      else Inr (db\<lparr> db_events := db_events db @ [e\<lparr> et_id := int (Suc (db_event_seq db)) \<rparr>],
                   db_event_seq := Suc (db_event_seq db) \<rparr>))"

section \<open>Write operations\<close>

text \<open>
  A write operation reads the clock and the connection; it answers an acknowledgement or an error,
  and leaves the connection as its statements left it, which the writer keeps or rolls back.
\<close>

record write_op =
  op_name :: string
  op_run :: "i64 \<Rightarrow> database \<Rightarrow> (store_error + write_ack) \<times> database"

definition new_op :: "string \<Rightarrow> (i64 \<Rightarrow> database \<Rightarrow> (store_error + nat) \<times> database) \<Rightarrow> write_op" where
  "new_op name run = \<lparr> op_name = name,
     op_run = (\<lambda>now db. case run now db of
         (Inl e, db') \<Rightarrow> (Inl e, db') | (Inr n, db') \<Rightarrow> (Inr (ack_of_rows n), db')) \<rparr>"

definition new_op_with_id :: "string \<Rightarrow> (i64 \<Rightarrow> database \<Rightarrow> (store_error + (nat \<times> i64)) \<times> database) \<Rightarrow> write_op" where
  "new_op_with_id name run = \<lparr> op_name = name,
     op_run = (\<lambda>now db. case run now db of
         (Inl e, db') \<Rightarrow> (Inl e, db')
       | (Inr (n, i), db') \<Rightarrow> (Inr \<lparr> ack_rows = n, ack_last_id = Some i \<rparr>, db')) \<rparr>"

text \<open>What the writer's savepoint makes of an operation: its effect if it succeeds, nothing otherwise.\<close>

definition apply_op :: "write_op \<Rightarrow> i64 \<Rightarrow> database \<Rightarrow> (store_error + write_ack) \<times> database" where
  "apply_op op now db = (case op_run op now db of
     (Inl e, db') \<Rightarrow> (Inl e, db) | (Inr a, db') \<Rightarrow> (Inr a, db'))"

definition run_writes :: "(i64 \<times> write_op) list \<Rightarrow> database \<Rightarrow> database" where
  "run_writes steps db = foldl (\<lambda>db (now, op). snd (apply_op op now db)) db steps"

lemma run_writes_simps [simp]:
  "run_writes [] db = db"
  "run_writes ((now, op) # steps) db = run_writes steps (snd (apply_op op now db))"
  "run_writes (steps @ steps') db = run_writes steps' (run_writes steps db)"
  by (simp_all add: run_writes_def)

lemma op_run_new_op:
  "op_run (new_op name run) now db = (case run now db of
     (Inl e, db') \<Rightarrow> (Inl e, db') | (Inr n, db') \<Rightarrow> (Inr (ack_of_rows n), db'))"
  by (simp add: new_op_def)

lemma op_run_new_op_with_id:
  "op_run (new_op_with_id name run) now db = (case run now db of
     (Inl e, db') \<Rightarrow> (Inl e, db')
   | (Inr (n, i), db') \<Rightarrow> (Inr \<lparr> ack_rows = n, ack_last_id = Some i \<rparr>, db'))"
  by (simp add: new_op_with_id_def)

lemma op_name_simps [simp]: "op_name (new_op name run) = name" "op_name (new_op_with_id name run') = name"
  by (simp_all add: new_op_def new_op_with_id_def)

text \<open>
  The interface between a repository and whoever submits its writes: an invariant of the database
  that every operation of a family keeps when it succeeds. A failing operation has no effect, so
  the invariant is kept by any operation of the family, whatever its outcome, and by any sequence.
\<close>

locale guarded_writes =
  fixes inv :: "database \<Rightarrow> bool"
    and ops :: "write_op set"
  assumes kept: "op \<in> ops \<Longrightarrow> inv db \<Longrightarrow> op_run op now db = (Inr ack, db') \<Longrightarrow> inv db'"
begin

lemma apply_kept: "op \<in> ops \<Longrightarrow> inv db \<Longrightarrow> inv (snd (apply_op op now db))"
  by (auto simp: apply_op_def split: prod.splits sum.splits dest: kept)

lemma run_kept:
  "\<forall>(now, op) \<in> set steps. op \<in> ops \<Longrightarrow> inv db
   \<Longrightarrow> inv (run_writes steps db)"
proof (induction steps arbitrary: db)
  case (Cons s steps)
  obtain now op where s: "s = (now, op)" by (cases s) auto
  from Cons.prems(1) s have "op \<in> ops" by simp
  from apply_kept[OF this Cons.prems(2), of now] Cons.IH Cons.prems(1) show ?case by (simp add: s)
qed simp

end

section \<open>Lemmas on statements\<close>

lemma sql_update_none: "\<forall>r \<in> set rows. \<not> P r \<Longrightarrow> sql_update P f rows = (rows, 0)"
  by (auto simp: sql_update_def filter_empty_conv intro: map_idI)

lemma fst_sql_update [simp]: "fst (sql_update P f rows) = map (\<lambda>r. if P r then f r else r) rows"
  by (simp add: sql_update_def)

lemma map_same: "(\<And>r. g (f r) = g r) \<Longrightarrow> map (\<lambda>r. g (if P r then f r else r)) rows = map g rows"
  by (simp add: if_distrib cong: if_cong)

lemma map_key_update: "(\<And>r. k r = i \<Longrightarrow> k (f r) = i) \<Longrightarrow> map k (map (\<lambda>r. if k r = i then f r else r) rows) = map k rows"
  by (induction rows) auto

lemma distinct_mapI: "distinct (map f xs) \<Longrightarrow> distinct xs"
  by (simp add: distinct_map)

lemma filter_unique:
  "distinct (map k rows) \<Longrightarrow> r \<in> set rows \<Longrightarrow> filter (\<lambda>q. k q = k r \<and> Q q) rows = (if Q r then [r] else [])"
proof (induction rows)
  case (Cons x rows)
  show ?case
  proof (cases "x = r")
    case True
    then have "filter (\<lambda>q. k q = k r \<and> Q q) rows = []"
      using Cons.prems(1) by (auto simp: filter_empty_conv) (metis image_eqI)
    then show ?thesis using True by simp
  next
    case False
    then have "k x \<noteq> k r" using Cons.prems by (auto intro: imageI)
    then show ?thesis using Cons False by simp
  qed
qed simp

lemma sql_update_one:
  assumes "distinct (map k rows)" "r \<in> set rows" "Q r"
  shows "sql_update (\<lambda>q. k q = k r \<and> Q q) f rows = (map (\<lambda>q. if q = r then f q else q) rows, 1)"
proof -
  have fil: "filter (\<lambda>q. k q = k r \<and> Q q) rows = [r]" using filter_unique[OF assms(1,2), of Q] assms(3) by simp
  then have "k q = k r \<and> Q q \<longleftrightarrow> q = r" if "q \<in> set rows" for q
  proof -
    have "q \<in> set (filter (\<lambda>q. k q = k r \<and> Q q) rows) \<longleftrightarrow> k q = k r \<and> Q q" using that by simp
    then show ?thesis by (simp add: fil)
  qed
  then have "map (\<lambda>q. if k q = k r \<and> Q q then f q else q) rows = map (\<lambda>q. if q = r then f q else q) rows"
    by (intro map_cong refl) auto
  then show ?thesis by (simp add: sql_update_def fil)
qed

text \<open>An update that keeps a row's key cannot break a partial unique index the row was in.\<close>

lemma distinct_after_update:
  assumes "distinct rows" "distinct (map p (filter L rows))" "p (f r) = p r" "L r"
  shows "distinct (map p (filter L (map (\<lambda>q. if q = r then f q else q) rows)))"
proof -
  let ?g = "\<lambda>q. if q = r then f q else q"
  have keys: "p (?g q) = p q" for q using assms(3) by simp
  have "set (filter (\<lambda>q. L (?g q)) rows) \<subseteq> set (filter L rows)" using assms(4) by auto
  moreover have "inj_on p (set (filter L rows))" using assms(2) by (simp add: distinct_map)
  ultimately have "inj_on p (set (filter (\<lambda>q. L (?g q)) rows))" by (meson inj_on_subset)
  then have "distinct (map p (filter (\<lambda>q. L (?g q)) rows))" unfolding distinct_map using assms(1) by simp
  then show ?thesis unfolding filter_map map_map o_def keys .
qed

lemma closed_iff_terminal: "job_state_as_str s \<in> set closed_states \<longleftrightarrow> is_terminal s"
  by (cases s) (simp_all add: closed_states_def is_terminal_def)

lemma state_checks: "job_state_as_str s \<in> {''Pending'', ''Blocked'', ''Eligible'', ''Assigned'', ''Running'', ''Verifying'',
         ''Committing'', ''Retrying'', ''Succeeded'', ''Failed'', ''Cancelled'', ''DeadLettered'',
         ''NeedsOperator''}"
  by (cases s) simp_all

lemma job_checks_spelled:
  "job_checks r \<longleftrightarrow> (\<exists>c b s. jt_class r = job_class_as_str c \<and> jt_size_bucket r = size_bucket_as_str b
                              \<and> jt_state r = job_state_as_str s)"
proof
  assume c: "job_checks r"
  have "\<exists>c. jt_class r = job_class_as_str c"
    using c unfolding job_checks_def
    by (metis insertE empty_iff job_class_as_str.simps)
  moreover have "\<exists>b. jt_size_bucket r = size_bucket_as_str b"
    using c unfolding job_checks_def by (metis insertE empty_iff size_bucket_as_str.simps)
  moreover have "\<exists>s. jt_state r = job_state_as_str s"
    using c unfolding job_checks_def by (metis insertE empty_iff job_state_as_str.simps)
  ultimately show "\<exists>c b s. jt_class r = job_class_as_str c \<and> jt_size_bucket r = size_bucket_as_str b
                              \<and> jt_state r = job_state_as_str s" by metis
next
  assume "\<exists>c b s. jt_class r = job_class_as_str c \<and> jt_size_bucket r = size_bucket_as_str b
                              \<and> jt_state r = job_state_as_str s"
  then obtain c b s where e: "jt_class r = job_class_as_str c" "jt_size_bucket r = size_bucket_as_str b"
    "jt_state r = job_state_as_str s" by auto
  show "job_checks r" unfolding job_checks_def e using state_checks[of s]
    by (cases c; cases b) simp_all
qed

end
