(* ===== verification/Job_Store.thy ===== *)
theory Job_Store
  imports Database
begin

text \<open>
  The job repository (\<open>crates/transcodarr-store/src/repo/job.rs\<close>): creation, the attempt counter,
  assignment, the compare-and-swap transition with its ledger of events, and the reads. The clock
  reading \<open>now\<close> of each operation is an argument.
\<close>

section \<open>Records\<close>

record new_job =
  nj_id :: string
  nj_file_id :: i64
  nj_library_id :: string
  nj_class :: job_class
  nj_size_bucket :: size_bucket
  nj_requirements_json :: string
  nj_bucket_key :: string
  nj_content_sig :: string
  nj_rules_version :: string
  nj_priority :: i64
  nj_parent :: "string option"

record job_record =
  jr_id :: string
  jr_file_id :: i64
  jr_library_id :: string
  jr_class :: job_class
  jr_size_bucket :: size_bucket
  jr_state :: job_state
  jr_priority :: i64
  jr_requirements_json :: string
  jr_bucket_key :: string
  jr_content_sig :: string
  jr_rules_version :: string
  jr_attempt :: i64
  jr_max_attempts :: i64
  jr_agent_id :: "string option"
  jr_fencing_epoch :: i64
  jr_parent :: "string option"
  jr_terminal_reason :: "string option"

record job_event =
  je_at :: i64
  je_from :: "job_state option"
  je_to :: job_state
  je_attempt :: i64
  je_reason :: "string option"
  je_detail :: "string option"

definition parse_enum :: "string \<Rightarrow> string \<Rightarrow> (string \<Rightarrow> 'a option) \<Rightarrow> store_error + 'a" where
  "parse_enum column raw parse =
     (case parse raw of Some v \<Rightarrow> Inr v | None \<Rightarrow> Inl (SE_UnknownEnum column raw))"

definition from_row :: "job_row \<Rightarrow> store_error + job_record" where
  "from_row r =
     bindR (parse_enum ''job.class'' (jt_class r) job_class_parse) (\<lambda>cls.
     bindR (parse_enum ''job.size_bucket'' (jt_size_bucket r) size_bucket_parse) (\<lambda>bucket.
     bindR (parse_enum ''job.state'' (jt_state r) job_state_parse) (\<lambda>state.
       Inr \<lparr> jr_id = jt_id r, jr_file_id = jt_file_id r, jr_library_id = jt_library_id r,
         jr_class = cls, jr_size_bucket = bucket, jr_state = state, jr_priority = jt_priority r,
         jr_requirements_json = jt_requirements_json r, jr_bucket_key = jt_bucket_key r,
         jr_content_sig = jt_content_sig r, jr_rules_version = jt_rules_version r,
         jr_attempt = jt_attempt r, jr_max_attempts = jt_max_attempts r,
         jr_agent_id = jt_agent_id r, jr_fencing_epoch = jt_fencing_epoch r,
         jr_parent = jt_parent r, jr_terminal_reason = jt_terminal_reason r \<rparr>)))"

section \<open>Reads\<close>

text \<open>\<open>collect\<close> over results: the first error, or every value.\<close>

fun collect :: "('e + 'a) list \<Rightarrow> 'e + 'a list" where
  "collect [] = Inr []"
| "collect (r # rs) = bindR r (\<lambda>x. bindR (collect rs) (\<lambda>xs. Inr (x # xs)))"

definition get_job :: "string \<Rightarrow> database \<Rightarrow> store_error + job_record" where
  "get_job i db = (case query_row (\<lambda>r. jt_id r = i) (db_jobs db) of
     Some r \<Rightarrow> from_row r | None \<Rightarrow> Inl (SE_NotFound ''job'' i))"

definition open_for_file :: "i64 \<Rightarrow> database \<Rightarrow> store_error + job_record option" where
  "open_for_file f db = (case query_row (\<lambda>r. jt_file_id r = f \<and> jt_state r \<notin> set closed_states) (db_jobs db) of
     None \<Rightarrow> Inr None | Some r \<Rightarrow> bindR (from_row r) (\<lambda>j. Inr (Some j)))"

text \<open>\<open>ORDER BY priority DESC, order_key, id\<close>, least significant key first.\<close>

definition queue_order :: "job_row list \<Rightarrow> job_row list" where
  "queue_order rows =
     sort_key (\<lambda>r. - jt_priority r) (sort_key jt_order_key (sort_key jt_id rows))"

definition in_state :: "job_state \<Rightarrow> nat \<Rightarrow> database \<Rightarrow> store_error + job_record list" where
  "in_state s limit db =
     collect (map from_row (take limit (queue_order (filter (\<lambda>r. jt_state r = job_state_as_str s) (db_jobs db)))))"

definition parse_event :: "event_row \<Rightarrow> store_error + job_event" where
  "parse_event e =
     bindR (case et_from e of None \<Rightarrow> Inr None
            | Some s \<Rightarrow> bindR (parse_enum ''job_event.from_state'' s job_state_parse) (\<lambda>v. Inr (Some v))) (\<lambda>from.
     bindR (parse_enum ''job_event.to_state'' (et_to e) job_state_parse) (\<lambda>to.
       Inr \<lparr> je_at = et_at e, je_from = from, je_to = to, je_attempt = et_attempt e,
             je_reason = et_reason e, je_detail = et_detail e \<rparr>))"

definition job_events :: "string \<Rightarrow> database \<Rightarrow> store_error + job_event list" where
  "job_events i db =
     collect (map parse_event (sort_key et_at (sort_key et_id (filter (\<lambda>e. et_job e = i) (db_events db)))))"

section \<open>Writes\<close>

definition new_job_row :: "new_job \<Rightarrow> i64 \<Rightarrow> job_row" where
  "new_job_row j now = \<lparr> jt_id = nj_id j, jt_file_id = nj_file_id j, jt_library_id = nj_library_id j,
     jt_class = job_class_as_str (nj_class j), jt_size_bucket = size_bucket_as_str (nj_size_bucket j),
     jt_state = ''Pending'', jt_priority = nj_priority j, jt_order_key = 0,
     jt_requirements_json = nj_requirements_json j, jt_bucket_key = nj_bucket_key j,
     jt_content_sig = nj_content_sig j, jt_rules_version = nj_rules_version j, jt_attempt = 0,
     jt_max_attempts = 3, jt_agent_id = None, jt_fencing_epoch = 0, jt_parent = nj_parent j,
     jt_terminal_reason = None, jt_created = now, jt_updated = now, jt_started = None,
     jt_finished = None \<rparr>"

definition new_event :: "string \<Rightarrow> i64 \<Rightarrow> string option \<Rightarrow> string \<Rightarrow> i64 \<Rightarrow> string option \<Rightarrow> string option \<Rightarrow> event_row" where
  "new_event i ts from to attempt reason detail = \<lparr> et_id = 0, et_job = i, et_at = ts, et_from = from,
     et_to = to, et_attempt = attempt, et_reason = reason, et_detail = detail \<rparr>"

definition create_op :: "new_job \<Rightarrow> write_op" where
  "create_op j = new_op (''job.create:'' @ nj_id j) (\<lambda>now db.
     case insert_job (new_job_row j now) db of
       Inl e \<Rightarrow> (Inl e, db)
     | Inr db1 \<Rightarrow>
         (case insert_event (new_event (nj_id j) (now * 1000) None ''Pending'' 0 (Some ''created'') None) db1 of
            Inl e \<Rightarrow> (Inl e, db1)
          | Inr db2 \<Rightarrow> (Inr 1, db2)))"

definition bump_attempt_op :: "string \<Rightarrow> write_op" where
  "bump_attempt_op i = new_op (''job.bump_attempt:'' @ i) (\<lambda>now db.
     case update_job (\<lambda>r. jt_id r = i) (\<lambda>r. r\<lparr> jt_attempt := jt_attempt r + 1, jt_updated := now \<rparr>) db of
       Inl e \<Rightarrow> (Inl e, db)
     | Inr (n, db') \<Rightarrow> (Inr n, db'))"

text \<open>The sub-query \<open>(SELECT attempt FROM job WHERE id = ?1)\<close>.\<close>

definition attempt_of :: "string \<Rightarrow> database \<Rightarrow> i64" where
  "attempt_of i db = (case query_row (\<lambda>r. jt_id r = i) (db_jobs db) of Some r \<Rightarrow> jt_attempt r | None \<Rightarrow> 0)"

definition assign_op :: "string \<Rightarrow> string \<Rightarrow> i64 \<Rightarrow> write_op" where
  "assign_op i agent epoch = new_op (''job.assign:'' @ i) (\<lambda>now db.
     case update_job (\<lambda>r. jt_id r = i \<and> jt_state r = ''Eligible'')
            (\<lambda>r. r\<lparr> jt_state := ''Assigned'', jt_agent_id := Some agent, jt_fencing_epoch := epoch,
                    jt_updated := now \<rparr>) db of
       Inl e \<Rightarrow> (Inl e, db)
     | Inr (n, db1) \<Rightarrow>
         if n = 0 then (Inl (SE_TransitionRaceLost i ''Eligible''), db1)
         else (case insert_event (new_event i (now * 1000) (Some ''Eligible'') ''Assigned'' (attempt_of i db1)
                      (Some ''dispatched'') (Some (''to '' @ agent @ '' at epoch '' @ show_int epoch))) db1 of
                 Inl e \<Rightarrow> (Inl e, db1)
               | Inr db2 \<Rightarrow> (Inr n, db2)))"

definition transition_row :: "string \<Rightarrow> i64 \<Rightarrow> string option \<Rightarrow> job_row \<Rightarrow> job_row" where
  "transition_row to now reason r = r\<lparr> jt_state := to, jt_updated := now,
     jt_started := (if to = ''Running'' \<and> jt_started r = None then Some now else jt_started r),
     jt_finished := (if to \<in> set closed_states then Some now else jt_finished r),
     jt_terminal_reason := (case reason of Some s \<Rightarrow> Some s | None \<Rightarrow> jt_terminal_reason r) \<rparr>"

definition transition_op :: "string \<Rightarrow> job_state \<Rightarrow> job_state \<Rightarrow> string option \<Rightarrow> string option \<Rightarrow> write_op" where
  "transition_op i from to reason detail = new_op (''job.transition:'' @ i) (\<lambda>now db.
     if \<not> can_transition from to
     then (Inl (SE_IllegalTransition i (job_state_as_str from) (job_state_as_str to)), db)
     else case update_job (\<lambda>r. jt_id r = i \<and> jt_state r = job_state_as_str from)
                 (transition_row (job_state_as_str to) now reason) db of
       Inl e \<Rightarrow> (Inl e, db)
     | Inr (n, db1) \<Rightarrow>
         if n = 0 then (Inl (SE_TransitionRaceLost i (job_state_as_str from)), db1)
         else (case insert_event (new_event i (now * 1000) (Some (job_state_as_str from)) (job_state_as_str to)
                      (attempt_of i db1) reason detail) db1 of
                 Inl e \<Rightarrow> (Inl e, db1)
               | Inr db2 \<Rightarrow> (Inr n, db2)))"

section \<open>Invariant\<close>

text \<open>
  The moves the ledger records of a job, in the order they were written, and what a ledger that
  agrees with a state looks like: it opens in \<open>Pending\<close>, each entry leaves the state the previous
  one entered along an edge of the state machine, and the last one entered the state.
\<close>

definition job_moves :: "string \<Rightarrow> database \<Rightarrow> (string option \<times> string) list" where
  "job_moves i db = map (\<lambda>e. (et_from e, et_to e)) (filter (\<lambda>e. et_job e = i) (db_events db))"

inductive agrees :: "(string option \<times> string) list \<Rightarrow> job_state \<Rightarrow> bool" where
  opened: "agrees [(None, ''Pending'')] Pending"
| moved: "agrees ms a \<Longrightarrow> can_transition a b
    \<Longrightarrow> agrees (ms @ [(Some (job_state_as_str a), job_state_as_str b)]) b"

definition job_store_ok :: "database \<Rightarrow> bool" where
  "job_store_ok db \<longleftrightarrow>
     distinct (map jt_id (db_jobs db))
   \<and> distinct (map jt_file_id (filter row_open (db_jobs db)))
   \<and> (\<forall>r \<in> set (db_jobs db). job_checks r \<and> job_parents db r)
   \<and> (\<forall>r \<in> set (db_jobs db). \<exists>s. jt_state r = job_state_as_str s \<and> agrees (job_moves (jt_id r) db) s)
   \<and> (\<forall>e \<in> set (db_events db). et_job e \<in> jt_id ` set (db_jobs db) \<and> et_id e \<le> int (db_event_seq db))
   \<and> sorted (map et_id (db_events db))"

text \<open>The invariant depends on the job and event tables and the parents only.\<close>

lemma job_store_ok_cong:
  assumes "db_jobs db' = db_jobs db" "db_events db' = db_events db" "db_event_seq db' = db_event_seq db"
    "db_files db' = db_files db" "db_libraries db' = db_libraries db" "db_agents db' = db_agents db"
  shows "job_store_ok db' = job_store_ok db"
proof -
  have "job_parents db' r = job_parents db r" for r
    by (cases "jt_parent r"; cases "jt_agent_id r") (simp_all add: job_parents_def assms)
  moreover have "job_moves i db' = job_moves i db" for i by (simp add: job_moves_def assms)
  ultimately show ?thesis by (simp add: job_store_ok_def assms(1-3))
qed

definition job_ops :: "write_op set" where
  "job_ops = range create_op \<union> range bump_attempt_op \<union> {assign_op i a e | i a e. True}
     \<union> {transition_op i from to reason detail | i from to reason detail. True}"

lemma job_parents_mono:
  assumes "job_parents db r" "ft_id ` set (db_files db) \<subseteq> ft_id ` set (db_files db')"
    "lt_id ` set (db_libraries db) \<subseteq> lt_id ` set (db_libraries db')"
    "at_id ` set (db_agents db) \<subseteq> at_id ` set (db_agents db')" "jt_id ` set (db_jobs db) \<subseteq> jt_id ` set (db_jobs db')"
  shows "job_parents db' r"
  using assms by (auto simp: job_parents_def split: option.splits)

lemma job_opsI [simp, intro]:
  "create_op j \<in> job_ops" "bump_attempt_op i \<in> job_ops" "assign_op i a e \<in> job_ops"
  "transition_op i from to reason detail \<in> job_ops"
  unfolding job_ops_def by blast+

lemma update_job_Inr:
  assumes "update_job P f db = Inr (n, db')"
  shows "db' = db\<lparr> db_jobs := map (\<lambda>r. if P r then f r else r) (db_jobs db) \<rparr>"
    and "n = length (filter P (db_jobs db))"
    and "\<forall>r \<in> set (db_jobs db). P r \<longrightarrow> job_checks (f r) \<and> job_parents db (f r)"
    and "distinct (map jt_file_id (filter row_open (map (\<lambda>r. if P r then f r else r) (db_jobs db))))"
  using assms by (auto simp: update_job_def sql_update_def Let_def list_all_iff split: if_splits)

lemma insert_job_Inr:
  assumes "insert_job r db = Inr db'"
  shows "db' = db\<lparr> db_jobs := db_jobs db @ [r] \<rparr>" "job_checks r" "jt_id r \<notin> jt_id ` set (db_jobs db)"
    and "job_parents db r"
    and "row_open r \<Longrightarrow> jt_file_id r \<notin> jt_file_id ` set (filter row_open (db_jobs db))"
  using assms by (auto simp: insert_job_def list_ex_iff split: if_splits)

lemma insert_event_Inr:
  assumes "insert_event e db = Inr db'"
  shows "db' = db\<lparr> db_events := db_events db @ [e\<lparr> et_id := int (Suc (db_event_seq db)) \<rparr>],
                   db_event_seq := Suc (db_event_seq db) \<rparr>"
    and "et_job e \<in> jt_id ` set (db_jobs db)"
  using assms by (auto simp: insert_event_def split: if_splits)

lemma job_moves_append:
  "job_moves i (db\<lparr> db_events := db_events db @ [e], db_event_seq := q \<rparr>)
   = job_moves i db @ (if et_job e = i then [(et_from e, et_to e)] else [])"
  by (simp add: job_moves_def)

lemma job_moves_jobs [simp]: "job_moves i (db\<lparr> db_jobs := rows \<rparr>) = job_moves i db"
  by (simp add: job_moves_def)

lemma no_moves_without_row:
  "job_store_ok db \<Longrightarrow> i \<notin> jt_id ` set (db_jobs db) \<Longrightarrow> job_moves i db = []"
  by (auto simp: job_moves_def job_store_ok_def filter_empty_conv)

lemma create_kept:
  assumes ok: "job_store_ok db" and run: "op_run (create_op j) now db = (Inr ack, db')"
  shows "job_store_ok db'"
proof -
  let ?r = "new_job_row j now"
  let ?e = "new_event (nj_id j) (now * 1000) None ''Pending'' 0 (Some ''created'') None"
  obtain db1 where 1: "insert_job ?r db = Inr db1" and 2: "insert_event ?e db1 = Inr db'"
    using run by (auto simp: create_op_def op_run_new_op split: sum.splits)
  note i = insert_job_Inr[OF 1] and e = insert_event_Inr[OF 2]
  have new: "jt_id ?r = nj_id j" "row_open ?r" "jt_state ?r = ''Pending''"
    by (simp_all add: new_job_row_def row_open_def closed_states_def)
  have mv: "job_moves k db' = job_moves k db @ (if k = nj_id j then [(None, ''Pending'')] else [])" for k
    unfolding e(1) i(1) job_moves_append by (simp add: new_event_def)
  have fresh: "job_moves (nj_id j) db = []" using no_moves_without_row[OF ok] i(3) new(1) by simp
  have jobs: "db_jobs db' = db_jobs db @ [?r]" unfolding e(1) i(1) by simp
  have ag: "\<exists>s. jt_state r = job_state_as_str s \<and> agrees (job_moves (jt_id r) db') s"
    if r: "r \<in> set (db_jobs db')" for r
  proof (cases "jt_id r = nj_id j")
    case True
    then have "r \<notin> set (db_jobs db)" using i(3) new(1) by (metis image_eqI)
    then have "r = ?r" using r by (simp add: jobs)
    then show ?thesis using True by (auto simp: mv fresh new intro!: exI[of _ Pending] opened)
  next
    case False
    then have "r \<in> set (db_jobs db)" using r new(1) by (auto simp: jobs)
    then show ?thesis using ok False by (simp add: mv job_store_ok_def)
  qed
  have ids: "distinct (map jt_id (db_jobs db'))" using ok i(3) by (auto simp: jobs job_store_ok_def)
  have fs: "distinct (map jt_file_id (filter row_open (db_jobs db')))"
    using ok i(5)[OF new(2)] by (auto simp: jobs new(2) job_store_ok_def)
  have evs: "\<forall>x \<in> set (db_events db'). et_job x \<in> jt_id ` set (db_jobs db') \<and> et_id x \<le> int (db_event_seq db')"
    "sorted (map et_id (db_events db'))"
    using ok e(2) unfolding e(1) i(1) job_store_ok_def by (auto simp: sorted_append intro: order_trans)
  have par: "job_parents db' r" if "job_parents db r" for r
    by (rule job_parents_mono[OF that]) (auto simp: e(1) i(1))
  have "\<forall>r \<in> set (db_jobs db'). job_checks r \<and> job_parents db' r"
    using ok i(2,4) par by (auto simp: jobs job_store_ok_def)
  then show ?thesis unfolding job_store_ok_def using ids fs evs ag by blast
qed

lemma move_kept:
  assumes ok: "job_store_ok db" and edge: "can_transition a b"
    and upd: "update_job (\<lambda>r. jt_id r = i \<and> jt_state r = job_state_as_str a) f db = Inr (n, db1)" and n: "n \<noteq> 0"
    and f: "\<And>r. jt_id (f r) = jt_id r \<and> jt_state (f r) = job_state_as_str b"
    and ins: "insert_event (new_event i ts (Some (job_state_as_str a)) (job_state_as_str b) k reason detail) db1 = Inr db'"
  shows "job_store_ok db'"
proof -
  let ?P = "\<lambda>r. jt_id r = i \<and> jt_state r = job_state_as_str a"
  note u = update_job_Inr[OF upd] and e = insert_event_Inr[OF ins]
  obtain q where q: "q \<in> set (db_jobs db)" "?P q" using n u(2) by (auto simp: filter_empty_conv)
  have mv: "job_moves j db' = job_moves j db
      @ (if j = i then [(Some (job_state_as_str a), job_state_as_str b)] else [])" for j
    unfolding e(1) u(1) job_moves_append by (simp add: new_event_def)
  have jobs: "db_jobs db' = map (\<lambda>r. if ?P r then f r else r) (db_jobs db)" unfolding e(1) u(1) by simp
  have ids: "map jt_id (db_jobs db') = map jt_id (db_jobs db)"
    by (simp add: jobs o_def map_same[where g = jt_id] f)
  have qi: "r = q" if "r \<in> set (db_jobs db)" "jt_id r = i" for r
    using that q ok by (auto simp: job_store_ok_def distinct_map dest: inj_onD)
  have ag: "\<exists>s. jt_state r' = job_state_as_str s \<and> agrees (job_moves (jt_id r') db') s"
    if "r' \<in> set (db_jobs db')" for r'
  proof -
    from that obtain r where r: "r \<in> set (db_jobs db)" "r' = (if ?P r then f r else r)" by (auto simp: jobs)
    from ok r(1) obtain s where s: "jt_state r = job_state_as_str s" "agrees (job_moves (jt_id r) db) s"
      by (auto simp: job_store_ok_def)
    show ?thesis
    proof (cases "jt_id r = i")
      case True
      then have P: "?P r" using qi r(1) q by blast
      then have "s = a" using s by (simp add: job_state_spelling.as_str_inj)
      then show ?thesis using P r(2) s edge by (auto simp: f mv intro!: exI[of _ b] moved)
    next
      case False then show ?thesis using r(2) s by (auto simp: mv)
    qed
  qed
  have idset: "jt_id ` set (db_jobs db') = jt_id ` set (db_jobs db)" using ids by (metis set_map)
  have iq: "i \<in> jt_id ` set (db_jobs db)" using q by (metis image_eqI)
  have evs: "\<forall>x \<in> set (db_events db'). et_job x \<in> jt_id ` set (db_jobs db) \<and> et_id x \<le> int (db_event_seq db')"
    "sorted (map et_id (db_events db'))"
    using ok iq unfolding e(1) u(1) job_store_ok_def
    by (auto simp: sorted_append new_event_def intro: order_trans)
  have par: "job_parents db' r" if "job_parents db r" for r
    by (rule job_parents_mono[OF that]) (simp_all add: idset, simp_all add: e(1) u(1))
  have "\<forall>r \<in> set (db_jobs db'). job_checks r \<and> job_parents db' r"
    using ok u(3) par by (auto simp: jobs job_store_ok_def)
  moreover have "distinct (map jt_file_id (filter row_open (db_jobs db')))" using u(4) by (simp add: jobs)
  ultimately show ?thesis unfolding job_store_ok_def using ids evs ag ok
    by (simp add: idset job_store_ok_def)
qed

lemma bump_kept:
  assumes ok: "job_store_ok db" and run: "op_run (bump_attempt_op i) now db = (Inr ack, db')"
  shows "job_store_ok db'"
proof -
  let ?f = "\<lambda>r. r\<lparr> jt_attempt := jt_attempt r + 1, jt_updated := now \<rparr>"
  obtain n where u: "update_job (\<lambda>r. jt_id r = i) ?f db = Inr (n, db')"
    using run by (auto simp: bump_attempt_op_def op_run_new_op split: sum.splits)
  note u = update_job_Inr[OF this]
  have "map jt_id (db_jobs db') = map jt_id (db_jobs db)"
    by (simp add: u(1) o_def map_same[where g = jt_id])
  moreover from this have idset: "jt_id ` set (db_jobs db') = jt_id ` set (db_jobs db)" by (metis set_map)
  moreover have par: "job_parents db' r" if "job_parents db r" for r
    by (rule job_parents_mono[OF that]) (simp_all add: idset, simp_all add: u(1))
  moreover have "db_events db' = db_events db" "db_event_seq db' = db_event_seq db" by (simp_all add: u(1))
  moreover have "\<forall>r \<in> set (db_jobs db'). job_checks r \<and> job_parents db' r"
    using ok u(3) par by (auto simp: u(1) job_store_ok_def)
  moreover have "\<forall>r \<in> set (db_jobs db'). \<exists>s. jt_state r = job_state_as_str s \<and> agrees (job_moves (jt_id r) db') s"
    "distinct (map jt_file_id (filter row_open (db_jobs db')))"
    using ok u(3,4) by (auto simp: u(1) job_store_ok_def)
  ultimately show ?thesis using ok by (simp add: job_store_ok_def)
qed

lemma assign_kept:
  assumes "job_store_ok db" "op_run (assign_op i a e) now db = (Inr ack, db')"
  shows "job_store_ok db'"
proof -
  obtain n db1 where w:
    "update_job (\<lambda>r. jt_id r = i \<and> jt_state r = job_state_as_str Eligible)
       (\<lambda>r. r\<lparr> jt_state := ''Assigned'', jt_agent_id := Some a, jt_fencing_epoch := e, jt_updated := now \<rparr>) db
     = Inr (n, db1)" "n \<noteq> 0"
    "insert_event (new_event i (now * 1000) (Some (job_state_as_str Eligible)) (job_state_as_str Assigned)
       (attempt_of i db1) (Some ''dispatched'') (Some (''to '' @ a @ '' at epoch '' @ show_int e))) db1 = Inr db'"
    using assms(2) by (auto simp: assign_op_def op_run_new_op split: sum.splits if_splits)
  show ?thesis by (rule move_kept[OF assms(1) _ w(1,2) _ w(3)]) (simp_all add: can_transition_def is_terminal_def)
qed

lemma transition_kept:
  assumes "job_store_ok db" "op_run (transition_op i from to reason detail) now db = (Inr ack, db')"
  shows "job_store_ok db'"
proof -
  obtain n db1 where w: "can_transition from to"
    "update_job (\<lambda>r. jt_id r = i \<and> jt_state r = job_state_as_str from)
       (transition_row (job_state_as_str to) now reason) db = Inr (n, db1)" "n \<noteq> 0"
    "insert_event (new_event i (now * 1000) (Some (job_state_as_str from)) (job_state_as_str to)
       (attempt_of i db1) reason detail) db1 = Inr db'"
    using assms(2) by (auto simp: transition_op_def op_run_new_op split: sum.splits if_splits)
  show ?thesis by (rule move_kept[OF assms(1) w(1,2,3) _ w(4)]) (simp add: transition_row_def)
qed

interpretation job_writes: guarded_writes job_store_ok job_ops
  by unfold_locales (auto simp: job_ops_def dest: create_kept bump_kept assign_kept transition_kept)

section \<open>Reading back\<close>

lemma empty_ok [simp]: "job_store_ok (empty_database fs ls as)"
  by (simp add: job_store_ok_def empty_database_def)

lemma job_run_ok: "\<forall>(now, op) \<in> set steps. op \<in> job_ops \<Longrightarrow> job_store_ok (run_writes steps (empty_database fs ls as))"
  by (rule job_writes.run_kept) auto

lemma collect_append:
  "collect (xs @ ys) = bindR (collect xs) (\<lambda>a. bindR (collect ys) (\<lambda>b. Inr (a @ b)))"
proof (induction xs)
  case (Cons x xs)
  then show ?case by (cases x; cases "collect xs"; cases "collect ys") auto
qed (cases "collect ys", auto)

definition ledger_of :: "job_event list \<Rightarrow> job_state \<Rightarrow> bool" where
  "ledger_of evs s \<longleftrightarrow> evs \<noteq> [] \<and> je_from (hd evs) = None \<and> je_to (hd evs) = Pending
   \<and> (\<forall>k. Suc k < length evs \<longrightarrow> je_from (evs ! Suc k) = Some (je_to (evs ! k))
          \<and> can_transition (je_to (evs ! k)) (je_to (evs ! Suc k)))
   \<and> je_to (last evs) = s"

lemma ledger_of_snoc:
  assumes "ledger_of evs a" "je_from e = Some a" "can_transition a (je_to e)"
  shows "ledger_of (evs @ [e]) (je_to e)"
proof -
  have "k = length evs - 1" if "Suc k = length evs" for k using that by simp
  then show ?thesis using assms by (auto simp: ledger_of_def nth_append last_conv_nth less_Suc_eq)
qed

lemma agrees_parses:
  "agrees ms s \<Longrightarrow> ms = map (\<lambda>e. (et_from e, et_to e)) es
   \<Longrightarrow> \<exists>evs. collect (map parse_event es) = Inr evs \<and> ledger_of evs s"
proof (induction arbitrary: es rule: agrees.induct)
  case opened
  then obtain e where "es = [e]" "et_from e = None" "et_to e = ''Pending''" by (auto simp: map_eq_Cons_conv)
  then show ?case using job_state_spelling.parse_eq_Some[of "''Pending''" Pending]
    by (simp add: parse_event_def parse_enum_def ledger_of_def)
next
  case (moved ms a b)
  from moved.prems obtain es' e where es: "es = es' @ [e]" "ms = map (\<lambda>e. (et_from e, et_to e)) es'"
    "et_from e = Some (job_state_as_str a)" "et_to e = job_state_as_str b"
    by (auto simp: map_eq_append_conv append_eq_map_conv)
  obtain evs where evs: "collect (map parse_event es') = Inr evs" "ledger_of evs a"
    using moved.IH[OF es(2)] by blast
  let ?e = "\<lparr> je_at = et_at e, je_from = Some a, je_to = b, je_attempt = et_attempt e,
      je_reason = et_reason e, je_detail = et_detail e \<rparr>"
  have p: "job_state_parse (job_state_as_str c) = Some c" for c
    by (simp add: job_state_spelling.parse_eq_Some)
  have "parse_event e = Inr ?e" using es(3,4) by (simp add: parse_event_def parse_enum_def p)
  then have "collect (map parse_event es) = Inr (evs @ [?e])"
    using evs(1) by (simp add: es(1) collect_append)
  moreover have "ledger_of (evs @ [?e]) b" using ledger_of_snoc[OF evs(2), of ?e] moved.hyps by simp
  ultimately show ?case by blast
qed

text \<open>Every successful write adds at most one event, at the time it ran.\<close>

lemma events_step:
  assumes "op \<in> job_ops"
  shows "db_events (snd (apply_op op now db)) = db_events db
       \<or> (\<exists>e. db_events (snd (apply_op op now db)) = db_events db @ [e] \<and> et_at e = now * 1000)"
  using assms
  by (auto simp: job_ops_def apply_op_def op_run_new_op create_op_def bump_attempt_op_def assign_op_def
      transition_op_def new_event_def dest!: update_job_Inr(1) insert_job_Inr(1) insert_event_Inr(1)
      split: sum.splits prod.splits if_splits)

lemma events_in_time:
  "\<forall>(now, op) \<in> set steps. op \<in> job_ops \<Longrightarrow> sorted (map fst steps)
   \<Longrightarrow> sorted (map et_at (db_events (run_writes steps (empty_database fs ls as))))
     \<and> (\<forall>e \<in> set (db_events (run_writes steps (empty_database fs ls as))). steps \<noteq> [] \<and> et_at e \<le> fst (last steps) * 1000)"
proof (induction steps rule: rev_induct)
  case Nil show ?case by (simp add: run_writes_def empty_database_def)
next
  case (snoc s steps)
  obtain now op where s: "s = (now, op)" by (cases s) auto
  let ?db = "run_writes steps (empty_database fs ls as)"
  have run: "run_writes (steps @ [s]) (empty_database fs ls as) = snd (apply_op op now ?db)"
    by (simp add: run_writes_def s)
  have ih: "sorted (map et_at (db_events ?db))"
    "\<forall>e \<in> set (db_events ?db). steps \<noteq> [] \<and> et_at e \<le> fst (last steps) * 1000"
    using snoc by (simp_all add: sorted_append)
  have "fst (last steps) \<le> now" if "steps \<noteq> []" using snoc.prems(2) that by (simp add: sorted_append s)
  then have le: "\<forall>e \<in> set (db_events ?db). et_at e \<le> now * 1000" using ih(2) by fastforce
  have "op \<in> job_ops" using snoc.prems(1) s by simp
  from events_step[OF this, of now ?db] show ?case using ih le by (auto simp: run[unfolded s] s sorted_append)
qed

lemma from_row_ok: "job_checks r \<Longrightarrow> \<exists>j. from_row r = Inr j"
  unfolding job_checks_spelled from_row_def parse_enum_def
  by (auto simp: job_class_spelling.parse_eq_Some size_bucket_spelling.parse_eq_Some
      job_state_spelling.parse_eq_Some split: option.splits)
    (metis job_class_spelling.parse_eq_None size_bucket_spelling.parse_eq_None
      job_state_spelling.parse_eq_None rangeI)+

lemma from_row_Inr:
  "from_row r = Inr j \<Longrightarrow> jr_id j = jt_id r \<and> jr_file_id j = jt_file_id r \<and> jt_state r = job_state_as_str (jr_state j)"
  by (auto simp: from_row_def parse_enum_def bindR_Inr_iff job_state_spelling.parse_eq_Some split: option.splits)

lemma query_row_unique:
  "distinct (map k rows) \<Longrightarrow> r \<in> set rows \<Longrightarrow> query_row (\<lambda>q. k q = k r) rows = Some r"
  by (induction rows) (auto simp: query_row_def)

lemma query_row_SomeD: "query_row P rows = Some r \<Longrightarrow> r \<in> set rows \<and> P r"
  unfolding query_row_def by (rule find_SomeD)

lemma query_row_None: "query_row P rows = None \<longleftrightarrow> (\<forall>r \<in> set rows. \<not> P r)"
  by (auto simp: query_row_def find_None_iff)

lemma get_job_Inr:
  assumes "get_job i db = Inr j"
  obtains r where "r \<in> set (db_jobs db)" "jt_id r = i" "from_row r = Inr j"
  using assms by (auto simp: get_job_def split: option.splits dest!: query_row_SomeD)

lemma get_job_row:
  "job_store_ok db \<Longrightarrow> r \<in> set (db_jobs db) \<Longrightarrow> get_job (jt_id r) db = from_row r"
  by (simp add: get_job_def job_store_ok_def query_row_unique[where k = jt_id])

lemma row_open_iff: "from_row r = Inr j \<Longrightarrow> row_open r \<longleftrightarrow> \<not> is_terminal (jr_state j)"
  by (drule from_row_Inr) (simp add: row_open_def closed_iff_terminal)

lemma query_row_map: "(\<And>q. q \<in> set rows \<Longrightarrow> P (g q) = P q) \<Longrightarrow> query_row P (map g rows) = map_option g (query_row P rows)"
  by (induction rows) (auto simp: query_row_def)

lemma update_job_none:
  assumes "job_store_ok db" "r \<in> set (db_jobs db)" "jt_state r \<noteq> s"
  shows "update_job (\<lambda>q. jt_id q = jt_id r \<and> jt_state q = s) f db = Inr (0, db)"
proof -
  have e: "filter (\<lambda>q. jt_id q = jt_id r \<and> jt_state q = s) (db_jobs db) = []"
    using filter_unique[of jt_id "db_jobs db" r "\<lambda>q. jt_state q = s"] assms by (simp add: job_store_ok_def)
  then have "sql_update (\<lambda>q. jt_id q = jt_id r \<and> jt_state q = s) f (db_jobs db) = (db_jobs db, 0)"
    by (intro sql_update_none) (simp add: filter_empty_conv)
  then show ?thesis using assms(1) e by (simp add: update_job_def job_store_ok_def)
qed

lemma update_job_one:
  assumes ok: "job_store_ok db" and r: "r \<in> set (db_jobs db)" "jt_state r = s"
    and f: "job_checks (f r)" "job_parents db (f r)" "jt_file_id (f r) = jt_file_id r" "row_open r"
  shows "update_job (\<lambda>q. jt_id q = jt_id r \<and> jt_state q = s) f db
       = Inr (1, db\<lparr> db_jobs := map (\<lambda>q. if q = r then f q else q) (db_jobs db) \<rparr>)"
proof -
  have d: "distinct (map jt_id (db_jobs db))" "distinct (map jt_file_id (filter row_open (db_jobs db)))"
    using ok by (simp_all add: job_store_ok_def)
  show ?thesis
    using sql_update_one[where k = jt_id and Q = "\<lambda>q. jt_state q = s", OF d(1) r, of f]
      filter_unique[of jt_id "db_jobs db" r "\<lambda>q. jt_state q = s"] d(1) r f(1,2)
      distinct_after_update[where p = jt_file_id and L = row_open and f = f and r = r, OF distinct_mapI[OF d(1)] d(2) f(3,4)]
    by (simp add: update_job_def)
qed

lemma transition_row_checks: "job_checks r \<Longrightarrow> job_checks (transition_row (job_state_as_str s) now reason r)"
  using state_checks[of s] by (simp add: job_checks_def transition_row_def)

lemma transition_row_parents: "job_parents db r \<Longrightarrow> job_parents db (transition_row s now reason r)"
  by (cases "jt_parent r") (simp_all add: job_parents_def transition_row_def)

lemma from_row_transition:
  "from_row r = Inr j \<Longrightarrow> from_row (transition_row (job_state_as_str s) now reason r)
     = Inr (j\<lparr> jr_state := s, jr_terminal_reason :=
         (case reason of Some t \<Rightarrow> Some t | None \<Rightarrow> jr_terminal_reason j) \<rparr>)"
  using job_state_spelling.parse_eq_Some[of "job_state_as_str s" s]
  by (auto simp: from_row_def parse_enum_def bindR_Inr_iff transition_row_def split: option.splits)

section \<open>Properties\<close>


definition sample_new_job :: new_job where
  "sample_new_job = \<lparr> nj_id = ''j'', nj_file_id = 1, nj_library_id = ''l'', nj_class = JC_Audio,
     nj_size_bucket = Small, nj_requirements_json = ''[]'', nj_bucket_key = ''k'', nj_content_sig = ''s'',
     nj_rules_version = ''v'', nj_priority = 0, nj_parent = None \<rparr>"

definition sample_steps :: "(i64 \<times> write_op) list" where
  "sample_steps = [(10, create_op sample_new_job), (20, transition_op ''j'' Pending Eligible None None),
     (30, assign_op ''j'' ''a'' 7)]"

lemma sample_steps_ops: "\<forall>(now, op) \<in> set sample_steps. op \<in> job_ops" "sorted (map fst sample_steps)"
  by (simp_all add: sample_steps_def)

lemmas run_sample = run_writes_def sample_steps_def apply_op_def op_run_new_op create_op_def transition_op_def
  assign_op_def insert_job_def update_job_def insert_event_def sql_update_def empty_database_def
  new_job_row_def sample_new_job_def new_event_def transition_row_def job_checks_def row_open_def
  closed_states_def job_parents_def can_transition_def is_terminal_def get_job_def query_row_def
  from_row_def parse_enum_def

lemma sample_state: "\<exists>j. get_job ''j'' (run_writes sample_steps (empty_database [sample_file] [sample_library] [sample_agent])) = Inr j
    \<and> jr_state j = Assigned \<and> jr_file_id j = 1"
  using job_class_spelling.parse_eq_Some[of "''Audio''" JC_Audio]
    size_bucket_spelling.parse_eq_Some[of "''Small''" Small]
    job_state_spelling.parse_eq_Some[of "''Assigned''" Assigned]
  by (simp add: run_sample)


text \<open>
  One open job per file: in any store the job writes can produce, two jobs of one file that have
  not ended are the same job, \<open>open_for_file\<close> answers it, and creating another job for that file
  fails and leaves the store as it was.
\<close>

theorem one_open_job_per_file:
  assumes "\<forall>(now, op) \<in> set steps. op \<in> job_ops"
    and db: "db = run_writes steps (empty_database fs ls as)"
    and "get_job i db = Inr j" "\<not> is_terminal (jr_state j)"
  shows "open_for_file (jr_file_id j) db = Inr (Some j)
       \<and> (\<forall>k j'. get_job k db = Inr j' \<longrightarrow> jr_file_id j' = jr_file_id j \<longrightarrow> \<not> is_terminal (jr_state j') \<longrightarrow> j' = j)
       \<and> (\<forall>nj now. nj_file_id nj = jr_file_id j \<longrightarrow> (\<exists>e. apply_op (create_op nj) now db = (Inl e, db)))"
proof -
  have ok: "job_store_ok db" unfolding db by (rule job_run_ok[OF assms(1)])
  obtain r where r: "r \<in> set (db_jobs db)" "from_row r = Inr j" using assms(3) by (rule get_job_Inr)
  have op: "row_open r" "jt_file_id r = jr_file_id j"
    using assms(4) row_open_iff[OF r(2)] from_row_Inr[OF r(2)] by simp_all
  have inj: "inj_on jt_file_id (set (filter row_open (db_jobs db)))"
    using ok by (simp add: job_store_ok_def distinct_map)
  have un: "r' = r" if "r' \<in> set (db_jobs db)" "row_open r'" "jt_file_id r' = jr_file_id j" for r'
    by (rule inj_onD[OF inj]) (use that r(1) op in simp_all)
  have "query_row (\<lambda>r. jt_file_id r = jr_file_id j \<and> jt_state r \<notin> set closed_states) (db_jobs db) = Some r"
  proof (cases "query_row (\<lambda>r. jt_file_id r = jr_file_id j \<and> jt_state r \<notin> set closed_states) (db_jobs db)")
    case None then show ?thesis using r(1) op by (auto simp: query_row_None row_open_def)
  next
    case (Some q) then show ?thesis using un[of q] by (auto dest!: query_row_SomeD simp: row_open_def)
  qed
  then have "open_for_file (jr_file_id j) db = Inr (Some j)" by (simp add: open_for_file_def r(2))
  moreover have "j' = j" if j': "get_job k db = Inr j'" "jr_file_id j' = jr_file_id j" "\<not> is_terminal (jr_state j')" for k j'
  proof -
    obtain r' where r': "r' \<in> set (db_jobs db)" "from_row r' = Inr j'" using j'(1) by (rule get_job_Inr)
    have "r' = r" using un[OF r'(1)] j' row_open_iff[OF r'(2)] from_row_Inr[OF r'(2)] by simp
    then show ?thesis using r r' by simp
  qed
  moreover have "\<exists>e. apply_op (create_op nj) now db = (Inl e, db)" if "nj_file_id nj = jr_file_id j" for nj now
  proof (cases "insert_job (new_job_row nj now) db")
    case (Inl e) then show ?thesis by (simp add: apply_op_def create_op_def op_run_new_op)
  next
    case (Inr db1)
    have "row_open (new_job_row nj now)" "jt_file_id (new_job_row nj now) = jr_file_id j"
      using that by (simp_all add: new_job_row_def row_open_def closed_states_def)
    with insert_job_Inr(5)[OF Inr] r(1) op show ?thesis by (auto simp: image_iff)
  qed
  ultimately show ?thesis by blast
qed

lemma one_open_job_per_file_witness:
  "\<exists>e. apply_op (create_op (sample_new_job\<lparr> nj_id := ''k'' \<rparr>)) 40 (run_writes sample_steps (empty_database [sample_file] [sample_library] [sample_agent]))
     = (Inl e, run_writes sample_steps (empty_database [sample_file] [sample_library] [sample_agent]))"
proof -
  obtain j where j: "get_job ''j'' (run_writes sample_steps (empty_database [sample_file] [sample_library] [sample_agent])) = Inr j"
    "jr_state j = Assigned" "jr_file_id j = 1" using sample_state by blast
  show ?thesis
    by (rule one_open_job_per_file[OF sample_steps_ops(1) refl j(1), THEN conjunct2, THEN conjunct2, rule_format])
      (simp_all add: j is_terminal_def sample_new_job_def)
qed

lemma transition_effect:
  assumes ok: "job_store_ok db"
    and get: "get_job i db = Inr j"
    and run: "apply_op (transition_op i from to reason detail) now db = (res, db')"
  shows "if \<not> can_transition from to
         then res = Inl (SE_IllegalTransition i (job_state_as_str from) (job_state_as_str to)) \<and> db' = db
         else if jr_state j \<noteq> from then res = Inl (SE_TransitionRaceLost i (job_state_as_str from)) \<and> db' = db
         else res = Inr (ack_of_rows 1)
           \<and> (\<forall>k. get_job k db' = (if k = i
                then Inr (j\<lparr> jr_state := to, jr_terminal_reason :=
                       (case reason of Some s \<Rightarrow> Some s | None \<Rightarrow> jr_terminal_reason j) \<rparr>)
                else get_job k db))"
proof -
  obtain r where r: "r \<in> set (db_jobs db)" "jt_id r = i" "from_row r = Inr j" using get_job_Inr[OF get] by blast
  have st: "jt_state r = job_state_as_str (jr_state j)" using from_row_Inr[OF r(3)] by simp
  let ?f = "transition_row (job_state_as_str to) now reason"
  consider (illegal) "\<not> can_transition from to" | (lost) "can_transition from to" "jr_state j \<noteq> from"
    | (moves) "can_transition from to" "jr_state j = from" by blast
  then show ?thesis
  proof cases
    case illegal
    then show ?thesis using run by (simp add: apply_op_def transition_op_def op_run_new_op)
  next
    case lost
    then have "jt_state r \<noteq> job_state_as_str from" by (simp add: st job_state_spelling.as_str_inj)
    then have "update_job (\<lambda>q. jt_id q = i \<and> jt_state q = job_state_as_str from) ?f db = Inr (0, db)"
      using update_job_none[OF ok r(1)] r(2) by simp
    then show ?thesis using lost run by (simp add: apply_op_def transition_op_def op_run_new_op)
  next
    case moves
    have chk: "job_checks r" "job_parents db r" using ok r(1) by (auto simp: job_store_ok_def)
    have "\<not> is_terminal from" using can_transition_terminal moves(1) by blast
    then have op: "row_open r" using row_open_iff[OF r(3)] moves(2) by simp
    have u: "update_job (\<lambda>q. jt_id q = i \<and> jt_state q = job_state_as_str from) ?f db
      = Inr (1, db\<lparr> db_jobs := map (\<lambda>q. if q = r then ?f q else q) (db_jobs db) \<rparr>)"
      using update_job_one[OF ok r(1), of "job_state_as_str from" ?f] st moves(2) r(2) op chk
      by (simp add: transition_row_checks transition_row_parents) (simp add: transition_row_def)
    let ?db1 = "db\<lparr> db_jobs := map (\<lambda>q. if q = r then ?f q else q) (db_jobs db) \<rparr>"
    have "i \<in> jt_id ` set (db_jobs ?db1)" using r by (force simp: transition_row_def)
    then obtain db2 where e: "insert_event (new_event i (now * 1000) (Some (job_state_as_str from)) (job_state_as_str to)
        (attempt_of i ?db1) reason detail) ?db1 = Inr db2" "db_jobs db2 = db_jobs ?db1"
      by (simp add: insert_event_def new_event_def)
    have res: "res = Inr (ack_of_rows 1)" "db' = db2"
      using moves(1) run u e(1) by (simp_all add: apply_op_def transition_op_def op_run_new_op)
    have "get_job k db' = (case query_row (\<lambda>q. jt_id q = k) (db_jobs db) of
        None \<Rightarrow> Inl (SE_NotFound ''job'' k) | Some q \<Rightarrow> from_row (if q = r then ?f q else q))" for k
      unfolding get_job_def res(2) e(2)
      by (simp add: query_row_map transition_row_def split: option.splits)
    moreover have "query_row (\<lambda>q. jt_id q = i) (db_jobs db) = Some r"
      using ok r query_row_unique[of jt_id "db_jobs db" r] by (simp add: job_store_ok_def)
    ultimately show ?thesis using moves res(1) r
      by (auto simp: from_row_transition[OF r(3)] get_job_def split: option.splits dest!: query_row_SomeD)
  qed
qed

text \<open>An agent's name and epoch on an eligible job, and one more attempt.\<close>

lemma assign_effect:
  assumes ok: "job_store_ok db" and get: "get_job i db = Inr j" and e: "jr_state j = Eligible"
    and a: "a \<in> at_id ` set (db_agents db)"
    and run: "apply_op (assign_op i a epoch) now db = (res, db')"
  shows "res = Inr (ack_of_rows 1) \<and> (\<forall>k. get_job k db' = (if k = i
    then Inr (j\<lparr> jr_state := Assigned, jr_agent_id := Some a, jr_fencing_epoch := epoch \<rparr>) else get_job k db))"
proof -
  obtain r where r: "r \<in> set (db_jobs db)" "jt_id r = i" "from_row r = Inr j" using get_job_Inr[OF get] by blast
  have st: "jt_state r = ''Eligible''" using from_row_Inr[OF r(3)] e by simp
  define f where "f = (\<lambda>r :: job_row. r\<lparr> jt_state := ''Assigned'', jt_agent_id := Some a, jt_fencing_epoch := epoch, jt_updated := now \<rparr>)"
  have chk: "job_checks r" "job_parents db r" using ok r(1) by (auto simp: job_store_ok_def)
  have op: "row_open r" using row_open_iff[OF r(3)] e by (simp add: is_terminal_def)
  have fr: "job_checks (f r)" "job_parents db (f r)" "jt_file_id (f r) = jt_file_id r"
    using chk a by (simp_all add: f_def job_checks_def job_parents_def split: option.splits)
  note u = update_job_one[where f = f, OF ok r(1) st fr op, unfolded r(2)]
  let ?db1 = "db\<lparr> db_jobs := map (\<lambda>q. if q = r then f q else q) (db_jobs db) \<rparr>"
  have "i \<in> jt_id ` set (db_jobs ?db1)" using r by (force simp: f_def)
  then obtain db2 where ev: "insert_event (new_event i (now * 1000) (Some ''Eligible'') ''Assigned''
      (attempt_of i ?db1) (Some ''dispatched'') (Some (''to '' @ a @ '' at epoch '' @ show_int epoch))) ?db1 = Inr db2"
    "db_jobs db2 = db_jobs ?db1"
    by (simp add: insert_event_def new_event_def)
  have res: "res = Inr (ack_of_rows 1)" "db' = db2"
    using run u ev(1) by (simp_all add: apply_op_def assign_op_def op_run_new_op f_def[symmetric])
  have q: "query_row (\<lambda>q. jt_id q = i) (db_jobs db) = Some r"
    using ok r query_row_unique[of jt_id "db_jobs db" r] by (simp add: job_store_ok_def)
  have fj: "from_row (f r) = Inr (j\<lparr> jr_state := Assigned, jr_agent_id := Some a, jr_fencing_epoch := epoch \<rparr>)"
    using r(3) job_state_spelling.parse_eq_Some[of "job_state_as_str Assigned" Assigned] by (auto simp: from_row_def f_def parse_enum_def bindR_Inr_iff split: option.splits)
  have "get_job k db' = (case query_row (\<lambda>q. jt_id q = k) (db_jobs db) of
      None \<Rightarrow> Inl (SE_NotFound ''job'' k) | Some q \<Rightarrow> from_row (if q = r then f q else q))" for k
    unfolding get_job_def res(2) ev(2) by (simp add: query_row_map f_def split: option.splits)
  then show ?thesis using res(1) r q
    by (auto simp: fj get_job_def split: option.splits dest!: query_row_SomeD)
qed

lemma bump_effect:
  assumes ok: "job_store_ok db" and get: "get_job i db = Inr j"
    and run: "apply_op (bump_attempt_op i) now db = (res, db')"
  shows "res = Inr (ack_of_rows 1) \<and> (\<forall>k. get_job k db' = (if k = i
    then Inr (j\<lparr> jr_attempt := jr_attempt j + 1 \<rparr>) else get_job k db))"
proof -
  obtain r where r: "r \<in> set (db_jobs db)" "jt_id r = i" "from_row r = Inr j" using get_job_Inr[OF get] by blast
  define f where "f = (\<lambda>r :: job_row. r\<lparr> jt_attempt := jt_attempt r + 1, jt_updated := now \<rparr>)"
  have d: "distinct (map jt_id (db_jobs db))" "distinct (map jt_file_id (filter row_open (db_jobs db)))"
    and chk: "job_checks r" "job_parents db r" using ok r(1) by (auto simp: job_store_ok_def)
  have fr: "job_checks (f r)" "job_parents db (f r)" "jt_file_id (f r) = jt_file_id r"
    using chk by (simp_all add: f_def job_checks_def job_parents_def split: option.splits)
  have only: "filter (\<lambda>q. jt_id q = i) (db_jobs db) = [r]"
    using filter_unique[of jt_id "db_jobs db" r "\<lambda>_. True"] d(1) r by simp
  have rows: "sql_update (\<lambda>q. jt_id q = i) f (db_jobs db) = (map (\<lambda>q. if q = r then f q else q) (db_jobs db), 1)"
    using sql_update_one[where k = jt_id and Q = "\<lambda>q. True", OF d(1) r(1), of f] r(2) by simp
  have op: "filter row_open (map (\<lambda>q. if q = r then f q else q) (db_jobs db))
      = map (\<lambda>q. if q = r then f q else q) (filter row_open (db_jobs db))"
    by (induction "db_jobs db") (auto simp: filter_map o_def f_def row_open_def intro!: arg_cong[where f = "map _"] filter_cong)
  have "map jt_file_id (filter row_open (map (\<lambda>q. if q = r then f q else q) (db_jobs db))) = map jt_file_id (filter row_open (db_jobs db))"
    unfolding op by (simp add: f_def)
  then have u: "update_job (\<lambda>q. jt_id q = i) f db = Inr (1, db\<lparr> db_jobs := map (\<lambda>q. if q = r then f q else q) (db_jobs db) \<rparr>)"
    using rows only d(2) fr by (simp add: update_job_def)
  have res: "res = Inr (ack_of_rows 1)" "db' = db\<lparr> db_jobs := map (\<lambda>q. if q = r then f q else q) (db_jobs db) \<rparr>"
    using run u by (simp_all add: apply_op_def bump_attempt_op_def op_run_new_op f_def[symmetric])
  have q: "query_row (\<lambda>q. jt_id q = i) (db_jobs db) = Some r"
    using ok r query_row_unique[of jt_id "db_jobs db" r] by (simp add: job_store_ok_def)
  have fj: "from_row (f r) = Inr (j\<lparr> jr_attempt := jr_attempt j + 1 \<rparr>)"
    using r(3) by (auto simp: from_row_def f_def parse_enum_def bindR_Inr_iff split: option.splits)
  have "get_job k db' = (case query_row (\<lambda>q. jt_id q = k) (db_jobs db) of
      None \<Rightarrow> Inl (SE_NotFound ''job'' k) | Some q \<Rightarrow> from_row (if q = r then f q else q))" for k
    unfolding get_job_def res(2) by (simp add: query_row_map f_def split: option.splits)
  then show ?thesis using res(1) r q
    by (auto simp: fj get_job_def split: option.splits dest!: query_row_SomeD)
qed

text \<open>
  C15. \<open>transition_op\<close> is a compare-and-swap: an edge the state machine forbids is an error; a job that
  has left the expected state is a lost race; both leave the store as it was. Otherwise exactly this
  job changes, to the new state and the reason when one is given, and every other job reads the same.
\<close>

theorem transition_compare_and_swap:
  assumes "\<forall>(now, op) \<in> set steps. op \<in> job_ops"
    and db: "db = run_writes steps (empty_database fs ls as)"
    and get: "get_job i db = Inr j"
    and "apply_op (transition_op i from to reason detail) now db = (res, db')"
  shows "if \<not> can_transition from to
         then res = Inl (SE_IllegalTransition i (job_state_as_str from) (job_state_as_str to)) \<and> db' = db
         else if jr_state j \<noteq> from then res = Inl (SE_TransitionRaceLost i (job_state_as_str from)) \<and> db' = db
         else res = Inr (ack_of_rows 1)
           \<and> (\<forall>k. get_job k db' = (if k = i
                then Inr (j\<lparr> jr_state := to, jr_terminal_reason :=
                       (case reason of Some s \<Rightarrow> Some s | None \<Rightarrow> jr_terminal_reason j) \<rparr>)
                else get_job k db))"
proof -
  have "job_store_ok db" unfolding db by (rule job_run_ok[OF assms(1)])
  from transition_effect[OF this get assms(4)] show ?thesis .
qed

lemma transition_compare_and_swap_witness:
  "fst (apply_op (transition_op ''j'' Eligible Assigned None None) 40
      (run_writes sample_steps (empty_database [sample_file] [sample_library] [sample_agent]))) = Inl (SE_TransitionRaceLost ''j'' ''Eligible'')"
proof -
  let ?db = "run_writes sample_steps (empty_database [sample_file] [sample_library] [sample_agent])"
  obtain j where j: "get_job ''j'' ?db = Inr j" "jr_state j = Assigned" using sample_state by blast
  obtain res db' where r: "apply_op (transition_op ''j'' Eligible Assigned None None) 40 ?db = (res, db')"
    by (metis prod.exhaust)
  show ?thesis
    using transition_compare_and_swap[OF sample_steps_ops(1) refl j(1) r] j(2)
    by (simp add: r can_transition_def is_terminal_def)
qed

end
