(* ===== verification/Commit_Intent.thy ===== *)
theory Commit_Intent
  imports Job_Store
begin

text \<open>
  The server-side commit ledger (\<open>crates/transcodarr-store/src/repo/commit_intent.rs\<close>): granting,
  advancing and resolving the intent to replace a file, and the reads over it. The partial unique
  index on the final path of live intents is a branch of the insertion.
\<close>

section \<open>Records and reads\<close>

record new_intent =
  ni_id :: string
  ni_job_id :: string
  ni_attempt :: i64
  ni_agent_id :: string
  ni_agent_uid :: string
  ni_fencing_epoch :: i64
  ni_source_path :: string
  ni_temp_path :: string
  ni_final_path :: string
  ni_content_sig :: string

definition get_intent :: "string \<Rightarrow> database \<Rightarrow> intent_row option" where
  "get_intent i db = query_row (\<lambda>t. it_id t = i) (db_intents db)"

definition live_for_job :: "string \<Rightarrow> database \<Rightarrow> intent_row option" where
  "live_for_job j db = query_row (\<lambda>t. it_job_id t = j \<and> it_state t = ''live'') (db_intents db)"

definition live_for_path :: "string \<Rightarrow> database \<Rightarrow> intent_row option" where
  "live_for_path p db = query_row (\<lambda>t. it_final_path t = p \<and> it_state t = ''live'') (db_intents db)"

definition live_intents :: "database \<Rightarrow> intent_row list" where
  "live_intents db = sort_key it_created (filter (\<lambda>t. it_state t = ''live'') (db_intents db))"

section \<open>Writes\<close>

definition intent_checks :: "intent_row \<Rightarrow> bool" where
  "intent_checks t \<longleftrightarrow> it_phase t \<in> {''Granted'', ''Retired'', ''Installed''} \<and> it_state t \<in> {''live'', ''resolved''}"

definition insert_intent :: "intent_row \<Rightarrow> database \<Rightarrow> store_error + database" where
  "insert_intent t db =
     (if \<not> intent_checks t then Inl (SE_Sqlite CheckFailed)
      else if list_ex (\<lambda>q. it_id q = it_id t) (db_intents db) then Inl (SE_Sqlite PrimaryKeyTaken)
      else if it_state t = ''live''
              \<and> list_ex (\<lambda>q. it_state q = ''live'' \<and> it_final_path q = it_final_path t) (db_intents db)
      then Inl (SE_Sqlite UniqueIndexTaken)
      else if it_job_id t \<notin> jt_id ` set (db_jobs db) then Inl (SE_Sqlite ForeignKeyMissing)
      else Inr (db\<lparr> db_intents := db_intents db @ [t] \<rparr>))"

definition update_intent :: "(intent_row \<Rightarrow> bool) \<Rightarrow> (intent_row \<Rightarrow> intent_row) \<Rightarrow> database \<Rightarrow> store_error + (nat \<times> database)" where
  "update_intent P f db =
     (let (rows, n) = sql_update P f (db_intents db); changed = map f (filter P (db_intents db))
      in if \<not> list_all intent_checks changed then Inl (SE_Sqlite CheckFailed)
         else if \<not> distinct (map it_final_path (filter (\<lambda>t. it_state t = ''live'') rows))
         then Inl (SE_Sqlite UniqueIndexTaken)
         else Inr (n, db\<lparr> db_intents := rows \<rparr>))"

definition new_intent_row :: "new_intent \<Rightarrow> i64 \<Rightarrow> intent_row" where
  "new_intent_row n ms = \<lparr> it_id = ni_id n, it_job_id = ni_job_id n, it_attempt = ni_attempt n,
     it_agent_id = ni_agent_id n, it_agent_uid = ni_agent_uid n, it_fencing_epoch = ni_fencing_epoch n,
     it_source_path = ni_source_path n, it_temp_path = ni_temp_path n, it_final_path = ni_final_path n,
     it_content_sig = ni_content_sig n, it_phase = ''Granted'', it_state = ''live'',
     it_resolution = None, it_created = ms, it_updated = ms, it_resolved = None \<rparr>"

definition grant_op :: "new_intent \<Rightarrow> write_op" where
  "grant_op n = new_op (''commit_intent.grant:'' @ ni_id n) (\<lambda>now db.
     case insert_intent (new_intent_row n (now * 1000)) db of
       Inl e \<Rightarrow> (Inl e, db) | Inr db' \<Rightarrow> (Inr 1, db'))"

definition advance_op :: "string \<Rightarrow> string \<Rightarrow> write_op" where
  "advance_op i phase = new_op (''commit_intent.advance:'' @ i) (\<lambda>now db.
     case update_intent (\<lambda>t. it_id t = i \<and> it_state t = ''live'')
            (\<lambda>t. t\<lparr> it_phase := phase, it_updated := now * 1000 \<rparr>) db of
       Inl e \<Rightarrow> (Inl e, db) | Inr (n, db') \<Rightarrow> (Inr n, db'))"

definition resolve_op :: "string \<Rightarrow> string \<Rightarrow> write_op" where
  "resolve_op i resolution = new_op (''commit_intent.resolve:'' @ i) (\<lambda>now db.
     case update_intent (\<lambda>t. it_id t = i \<and> it_state t = ''live'')
            (\<lambda>t. t\<lparr> it_state := ''resolved'', it_resolution := Some resolution,
                    it_resolved := Some (now * 1000), it_updated := now * 1000 \<rparr>) db of
       Inl e \<Rightarrow> (Inl e, db) | Inr (n, db') \<Rightarrow> (Inr n, db'))"

section \<open>Invariant\<close>

definition intents_ok :: "database \<Rightarrow> bool" where
  "intents_ok db \<longleftrightarrow>
     distinct (map it_id (db_intents db))
   \<and> distinct (map it_final_path (filter (\<lambda>t. it_state t = ''live'') (db_intents db)))
   \<and> (\<forall>t \<in> set (db_intents db). intent_checks t \<and> (it_resolution t = None \<longleftrightarrow> it_state t = ''live''))"

definition intent_ops :: "write_op set" where
  "intent_ops = range grant_op \<union> {advance_op i p | i p. True} \<union> {resolve_op i r | i r. True}"

definition ledger_ops :: "write_op set" where
  "ledger_ops = job_ops \<union> intent_ops"

lemma intent_opsI [simp, intro]: "grant_op n \<in> intent_ops" "advance_op i p \<in> intent_ops" "resolve_op i r \<in> intent_ops"
  unfolding intent_ops_def by blast+

lemma job_op_frame:
  assumes "op \<in> job_ops" "op_run op now db = (res, db')"
  shows "db_intents db' = db_intents db" "db_trash db' = db_trash db" "db_trash_seq db' = db_trash_seq db"
  using assms
  by (auto simp: job_ops_def op_run_new_op create_op_def bump_attempt_op_def assign_op_def transition_op_def
      dest!: update_job_Inr(1) insert_job_Inr(1) insert_event_Inr(1) split: sum.splits prod.splits if_splits)

lemma intent_op_cases:
  assumes "op \<in> intent_ops"
  obtains (grant) n where "op = grant_op n" | (advance) i p where "op = advance_op i p"
    | (resolve) i r where "op = resolve_op i r"
  using assms by (auto simp: intent_ops_def)

lemma intent_op_frame:
  assumes "op \<in> intent_ops" "op_run op now db = (res, db')"
  shows "\<exists>rows. db' = db\<lparr> db_intents := rows \<rparr>"
proof -
  have same: "\<exists>rows. db = db\<lparr> db_intents := rows \<rparr>" by (rule exI[of _ "db_intents db"]) simp
  show ?thesis using assms(1)
  proof (cases rule: intent_op_cases)
    case grant
    then show ?thesis using assms(2) same unfolding grant
      by (auto simp: op_run_new_op grant_op_def insert_intent_def split: if_splits)
  next
    case advance
    then show ?thesis using assms(2) same unfolding advance
      by (auto simp: op_run_new_op advance_op_def update_intent_def Let_def split: prod.splits if_splits)
  next
    case resolve
    then show ?thesis using assms(2) same unfolding resolve
      by (auto simp: op_run_new_op resolve_op_def update_intent_def Let_def split: prod.splits if_splits)
  qed
qed

lemma job_store_ok_intents [simp]: "job_store_ok (db\<lparr> db_intents := rows \<rparr>) = job_store_ok db"
  by (rule job_store_ok_cong) simp_all

lemma grant_kept:
  assumes "intents_ok db" "op_run (grant_op n) now db = (Inr ack, db')"
  shows "intents_ok db'"
  using assms
  by (auto simp: grant_op_def op_run_new_op insert_intent_def intents_ok_def intent_checks_def list_ex_iff
      new_intent_row_def split: if_splits) blast+

lemma update_intent_kept:
  assumes ok: "intents_ok db" and u: "update_intent P f db = Inr (n, db')"
    and f: "\<And>t. it_id (f t) = it_id t" "\<And>t. P t \<Longrightarrow> it_state t = ''live'' \<Longrightarrow> it_resolution t = None \<Longrightarrow>
              (it_resolution (f t) = None) = (it_state (f t) = ''live'')" "\<And>t. P t \<Longrightarrow> it_state t = ''live''"
  shows "intents_ok db'"
proof -
  have rows: "db_intents db' = map (\<lambda>t. if P t then f t else t) (db_intents db)"
    and chk: "\<forall>t \<in> set (db_intents db). P t \<longrightarrow> intent_checks (f t)"
    and dis: "distinct (map it_final_path (filter (\<lambda>t. it_state t = ''live'') (db_intents db')))"
    using u by (auto simp: update_intent_def sql_update_def Let_def list_all_iff split: if_splits)
  have "map it_id (db_intents db') = map it_id (db_intents db)"
    by (simp add: rows o_def map_same[where g = it_id] f(1))
  moreover have "intent_checks t \<and> (it_resolution t = None \<longleftrightarrow> it_state t = ''live'')"
    if "t \<in> set (db_intents db')" for t
    using that ok chk f(2,3) by (auto simp: rows intents_ok_def)
  ultimately show ?thesis using ok dis by (simp add: intents_ok_def)
qed

lemma intent_op_kept:
  assumes "op \<in> intent_ops" "intents_ok db" "op_run op now db = (Inr ack, db')"
  shows "intents_ok db'"
proof -
  show ?thesis using assms(1)
  proof (cases rule: intent_op_cases)
    case grant then show ?thesis using grant_kept assms(2,3) by blast
  next
    case (advance i p)
    then obtain n where "update_intent (\<lambda>t. it_id t = i \<and> it_state t = ''live'')
            (\<lambda>t. t\<lparr> it_phase := p, it_updated := now * 1000 \<rparr>) db = Inr (n, db')"
      using assms(3) by (auto simp: advance_op_def op_run_new_op split: sum.splits)
    from update_intent_kept[OF assms(2) this] show ?thesis by simp
  next
    case (resolve i r)
    then obtain n where "update_intent (\<lambda>t. it_id t = i \<and> it_state t = ''live'')
            (\<lambda>t. t\<lparr> it_state := ''resolved'', it_resolution := Some r,
                    it_resolved := Some (now * 1000), it_updated := now * 1000 \<rparr>) db = Inr (n, db')"
      using assms(3) by (auto simp: resolve_op_def op_run_new_op split: sum.splits)
    from update_intent_kept[OF assms(2) this] show ?thesis by simp
  qed
qed

lemma intents_ok_cong: "db_intents db' = db_intents db \<Longrightarrow> intents_ok db' = intents_ok db"
  by (simp add: intents_ok_def)

interpretation intent_writes: guarded_writes "\<lambda>db. job_store_ok db \<and> intents_ok db" ledger_ops
proof
  fix op db now ack db'
  assume "op \<in> ledger_ops" and ok: "job_store_ok db \<and> intents_ok db" and run: "op_run op now db = (Inr ack, db')"
  then consider "op \<in> job_ops" | "op \<in> intent_ops" by (auto simp: ledger_ops_def)
  then show "job_store_ok db' \<and> intents_ok db'"
  proof cases
    case 1
    then show ?thesis
      using job_writes.kept[OF 1 _ run] job_op_frame(1)[OF 1 run] ok intents_ok_cong by blast
  next
    case 2
    then show ?thesis using intent_op_kept[OF 2 _ run] intent_op_frame[OF 2 run] ok by auto
  qed
qed

section \<open>Properties\<close>

lemma empty_intents_ok [simp]: "intents_ok (empty_database fs ls as)"
  by (simp add: intents_ok_def empty_database_def)

lemma ledger_run_ok:
  "\<forall>(now, op) \<in> set steps. op \<in> ledger_ops \<Longrightarrow>
   job_store_ok (run_writes steps (empty_database fs ls as)) \<and> intents_ok (run_writes steps (empty_database fs ls as))"
  by (rule intent_writes.run_kept) auto

lemma live_unique:
  "intents_ok db \<Longrightarrow> t \<in> set (db_intents db) \<Longrightarrow> it_state t = ''live'' \<Longrightarrow> t' \<in> set (db_intents db)
   \<Longrightarrow> it_state t' = ''live'' \<Longrightarrow> it_final_path t = it_final_path t' \<Longrightarrow> t = t'"
  by (rule inj_onD[of it_final_path "set (filter (\<lambda>t. it_state t = ''live'') (db_intents db))"])
    (simp_all add: intents_ok_def distinct_map)

lemma set_live_intents [simp]: "set (live_intents db) = {t \<in> set (db_intents db). it_state t = ''live''}"
  by (simp add: live_intents_def)

lemma live_for_path_iff:
  "intents_ok db \<Longrightarrow> live_for_path p db = Some t \<longleftrightarrow> t \<in> set (live_intents db) \<and> it_final_path t = p"
  unfolding live_for_path_def
  by (cases "query_row (\<lambda>t. it_final_path t = p \<and> it_state t = ''live'') (db_intents db)")
    (auto simp: query_row_None dest!: query_row_SomeD intro: live_unique)

text \<open>
  C16. One replacement at a time: in any store the job and intent writes can produce, at most one
  live intent exists for a final path and \<open>live_for_path\<close> finds it; a grant succeeds exactly when the
  path has none, the intent's id is new and its job exists, and a refused grant leaves the store as
  it was.
\<close>

theorem intent_path_exclusive:
  assumes "\<forall>(now, op) \<in> set steps. op \<in> ledger_ops"
    and db: "db = run_writes steps (empty_database fs ls as)"
    and g: "apply_op (grant_op n) now db = (res, db')"
  shows "(\<forall>p t. live_for_path p db = Some t \<longleftrightarrow> t \<in> set (live_intents db) \<and> it_final_path t = p)
       \<and> distinct (map it_final_path (live_intents db))
       \<and> (if live_for_path (ni_final_path n) db = None \<and> get_intent (ni_id n) db = None
              \<and> (\<exists>j. get_job (ni_job_id n) db = Inr j)
          then res = Inr (ack_of_rows 1) \<and> live_for_path (ni_final_path n) db' = Some (new_intent_row n (now * 1000))
          else (\<exists>e. res = Inl e) \<and> db' = db)"
proof -
  have ok: "job_store_ok db" "intents_ok db" using ledger_run_ok[OF assms(1)] by (simp_all add: db)
  let ?t = "new_intent_row n (now * 1000)"
  have free: "live_for_path (ni_final_path n) db = None \<longleftrightarrow>
      \<not> list_ex (\<lambda>q. it_state q = ''live'' \<and> it_final_path q = it_final_path ?t) (db_intents db)"
    by (auto simp: live_for_path_def query_row_None list_ex_iff new_intent_row_def)
  have fresh: "get_intent (ni_id n) db = None \<longleftrightarrow> \<not> list_ex (\<lambda>q. it_id q = it_id ?t) (db_intents db)"
    by (auto simp: get_intent_def query_row_None list_ex_iff new_intent_row_def)
  have job: "(\<exists>j. get_job (ni_job_id n) db = Inr j) \<longleftrightarrow> it_job_id ?t \<in> jt_id ` set (db_jobs db)"
  proof
    assume "\<exists>j. get_job (ni_job_id n) db = Inr j"
    then show "it_job_id ?t \<in> jt_id ` set (db_jobs db)"
      by (auto simp: new_intent_row_def image_iff elim!: get_job_Inr) metis
  next
    assume "it_job_id ?t \<in> jt_id ` set (db_jobs db)"
    then obtain r where r: "r \<in> set (db_jobs db)" "jt_id r = ni_job_id n" by (auto simp: new_intent_row_def)
    then have "job_checks r" using ok(1) by (auto simp: job_store_ok_def)
    then show "\<exists>j. get_job (ni_job_id n) db = Inr j"
      using from_row_ok get_job_row[OF ok(1) r(1)] r(2) by auto
  qed
  have chk: "intent_checks ?t" "it_state ?t = ''live''" "it_final_path ?t = ni_final_path n"
    by (simp_all add: intent_checks_def new_intent_row_def)
  have dis: "distinct (map it_final_path (live_intents db))"
    unfolding live_intents_def distinct_map using ok(2) by (simp add: intents_ok_def distinct_map)
  show ?thesis
  proof (cases "live_for_path (ni_final_path n) db = None \<and> get_intent (ni_id n) db = None
      \<and> (\<exists>j. get_job (ni_job_id n) db = Inr j)")
    case True
    then have i: "insert_intent ?t db = Inr (db\<lparr> db_intents := db_intents db @ [?t] \<rparr>)"
      using chk free fresh job by (simp add: insert_intent_def)
    then have d: "res = Inr (ack_of_rows 1)" "db' = db\<lparr> db_intents := db_intents db @ [?t] \<rparr>"
      using g by (simp_all add: grant_op_def apply_op_def op_run_new_op)
    have "intents_ok db'"
      by (rule grant_kept[OF ok(2), of n now "ack_of_rows 1"]) (simp add: grant_op_def op_run_new_op i d)
    then have "live_for_path (ni_final_path n) db' = Some ?t"
      using chk by (simp add: live_for_path_iff d(2))
    then show ?thesis using True d live_for_path_iff[OF ok(2)] dis by simp
  next
    case False
    then obtain e where "insert_intent ?t db = Inl e"
      using chk free fresh job by (auto simp: insert_intent_def)
    then have "res = Inl e" "db' = db" using g by (simp_all add: grant_op_def apply_op_def op_run_new_op)
    then show ?thesis using False live_for_path_iff[OF ok(2)] dis by (simp del: set_live_intents)
  qed
qed

definition sample_intent :: "string \<Rightarrow> new_intent" where
  "sample_intent i = \<lparr> ni_id = i, ni_job_id = ''j'', ni_attempt = 0, ni_agent_id = ''a'', ni_agent_uid = ''u'',
     ni_fencing_epoch = 7, ni_source_path = ''/m/f'', ni_temp_path = ''/m/w/f'', ni_final_path = ''/m/f'',
     ni_content_sig = ''s'' \<rparr>"

definition sample_ledger_steps :: "(i64 \<times> write_op) list" where
  "sample_ledger_steps = sample_steps @ [(40, grant_op (sample_intent ''j:0''))]"

lemma sample_ledger_ops: "\<forall>(now, op) \<in> set sample_ledger_steps. op \<in> ledger_ops"
  using sample_steps_ops(1) by (auto simp: sample_ledger_steps_def ledger_ops_def)

lemma sample_ledger_live:
  "live_for_path ''/m/f'' (run_writes sample_ledger_steps (empty_database [sample_file] [sample_library] [sample_agent]))
   = Some (new_intent_row (sample_intent ''j:0'') 40000)"
  by (simp add: sample_ledger_steps_def grant_op_def insert_intent_def intent_checks_def new_intent_row_def
      sample_intent_def live_for_path_def run_sample)

lemma intent_path_exclusive_witness:
  "\<exists>e. apply_op (grant_op (sample_intent ''k:0'')) 50 (run_writes sample_ledger_steps (empty_database [sample_file] [sample_library] [sample_agent]))
     = (Inl e, run_writes sample_ledger_steps (empty_database [sample_file] [sample_library] [sample_agent]))"
proof -
  let ?db = "run_writes sample_ledger_steps (empty_database [sample_file] [sample_library] [sample_agent])"
  obtain res db' where r: "apply_op (grant_op (sample_intent ''k:0'')) 50 ?db = (res, db')" by (metis prod.exhaust)
  have "live_for_path (ni_final_path (sample_intent ''k:0'')) ?db \<noteq> None"
    using sample_ledger_live by (simp add: sample_intent_def)
  then show ?thesis
    using intent_path_exclusive[OF sample_ledger_ops refl r, THEN conjunct2, THEN conjunct2] r by auto
qed

lemma query_row_append: "query_row P rows = Some r \<Longrightarrow> query_row P (rows @ rest) = Some r"
  by (induction rows) (auto simp: query_row_def split: if_splits)

lemma resolved_step:
  assumes "op \<in> ledger_ops" and t: "get_intent i db = Some t" "it_state t = ''resolved''"
  shows "get_intent i (snd (apply_op op now db)) = Some t"
proof (cases "op_run op now db")
  case (Pair res db')
  show ?thesis
  proof (cases res)
    case Inl then show ?thesis using t by (simp add: apply_op_def Pair)
  next
    case (Inr ack)
    have same: "get_intent i (db\<lparr> db_intents := map (\<lambda>t. if it_id t = k \<and> it_state t = ''live'' then f t else t) (db_intents db) \<rparr>)
        = Some t" if "\<And>t. it_id (f t) = it_id t" for k f
      using t that by (auto simp: get_intent_def query_row_map dest!: query_row_SomeD)
    have upd: "get_intent i db1 = Some t"
      if "update_intent (\<lambda>t. it_id t = k \<and> it_state t = ''live'') f db = Inr (n, db1)" "\<And>t. it_id (f t) = it_id t"
      for k f n db1
      using that same[OF that(2)] by (auto simp: update_intent_def sql_update_def Let_def split: if_splits)
    consider "op \<in> job_ops" | (grant) n where "op = grant_op n" | (advance) k p where "op = advance_op k p"
      | (resolve) k r where "op = resolve_op k r" using assms(1) by (auto simp: ledger_ops_def intent_ops_def)
    then have "get_intent i db' = Some t"
    proof cases
      case 1 then show ?thesis using job_op_frame(1)[OF 1 Pair] t by (simp add: get_intent_def)
    next
      case grant
      then show ?thesis using Pair Inr t
        by (auto simp: grant_op_def op_run_new_op insert_intent_def get_intent_def query_row_append
            split: if_splits)
    next
      case advance
      then show ?thesis using Pair Inr upd by (auto simp: advance_op_def op_run_new_op split: sum.splits)
    next
      case resolve
      then show ?thesis using Pair Inr upd by (auto simp: resolve_op_def op_run_new_op split: sum.splits)
    qed
    then show ?thesis by (simp add: apply_op_def Pair Inr)
  qed
qed

lemma update_intent_one:
  assumes ok: "intents_ok db" and t: "t \<in> set (db_intents db)" "it_state t = ''live''"
    and f: "intent_checks (f t)" "it_final_path (f t) = it_final_path t"
  shows "update_intent (\<lambda>q. it_id q = it_id t \<and> it_state q = ''live'') f db
       = Inr (1, db\<lparr> db_intents := map (\<lambda>q. if q = t then f q else q) (db_intents db) \<rparr>)"
proof -
  have d: "distinct (map it_id (db_intents db))"
    "distinct (map it_final_path (filter (\<lambda>t. it_state t = ''live'') (db_intents db)))"
    using ok by (simp_all add: intents_ok_def)
  show ?thesis
    using sql_update_one[where k = it_id and Q = "\<lambda>q. it_state q = ''live''", OF d(1) t, of f]
      filter_unique[of it_id "db_intents db" t "\<lambda>q. it_state q = ''live''"] d(1) t f(1)
      distinct_after_update[where p = it_final_path and L = "\<lambda>t. it_state t = ''live''" and f = f and r = t, OF distinct_mapI[OF d(1)] d(2) f(2) t(2)]
    by (simp add: update_intent_def)
qed

lemma resolve_resolved:
  assumes ok: "intents_ok db" and t: "get_intent i db = Some t" "it_state t = ''resolved''"
  shows "apply_op (resolve_op i how) now db = (Inr (ack_of_rows 0), db)"
proof -
  have m: "t \<in> set (db_intents db)" "it_id t = i" using t(1) by (auto simp: get_intent_def dest!: query_row_SomeD)
  have "filter (\<lambda>q. it_id q = i \<and> it_state q = ''live'') (db_intents db) = []"
    using filter_unique[of it_id "db_intents db" t "\<lambda>q. it_state q = ''live''"] ok m t(2)
    by (simp add: intents_ok_def)
  moreover from this have "sql_update (\<lambda>q. it_id q = i \<and> it_state q = ''live'') f (db_intents db) = (db_intents db, 0)" for f
    by (intro sql_update_none) (simp add: filter_empty_conv)
  ultimately show ?thesis using ok
    by (simp add: resolve_op_def apply_op_def op_run_new_op update_intent_def intents_ok_def)
qed

lemma resolved_run:
  "\<forall>(now, op) \<in> set later. op \<in> ledger_ops \<Longrightarrow> get_intent i db = Some t \<Longrightarrow> it_state t = ''resolved''
   \<Longrightarrow> get_intent i (run_writes later db) = Some t"
proof (induction later arbitrary: db)
  case (Cons s later)
  then show ?case using resolved_step by (cases s) auto
qed simp

text \<open>What a resolution and a grant leave to be read.\<close>

lemma resolve_effect:
  assumes ok: "intents_ok db" and run: "apply_op (resolve_op i how) now db = (res, db')"
  shows "(\<exists>n. res = Inr (ack_of_rows n)) \<and> (\<exists>rows. db' = db\<lparr> db_intents := rows \<rparr>)
       \<and> {t \<in> set (db_intents db'). it_state t = ''live''} = {t \<in> set (db_intents db). it_state t = ''live'' \<and> it_id t \<noteq> i}"
proof (cases "\<exists>t \<in> set (db_intents db). it_id t = i \<and> it_state t = ''live''")
  case True
  then obtain t where t: "t \<in> set (db_intents db)" "it_id t = i" "it_state t = ''live''" by blast
  define f where "f = (\<lambda>t :: intent_row. t\<lparr> it_state := ''resolved'', it_resolution := Some how,
                    it_resolved := Some (now * 1000), it_updated := now * 1000 \<rparr>)"
  have "intent_checks t" using ok t(1) by (simp add: intents_ok_def)
  then have f: "intent_checks (f t)" "it_final_path (f t) = it_final_path t" by (simp_all add: f_def intent_checks_def)
  have d: "res = Inr (ack_of_rows 1)" "db' = db\<lparr> db_intents := map (\<lambda>q. if q = t then f q else q) (db_intents db) \<rparr>"
    using update_intent_one[where f = f, OF ok t(1,3) f] run t(2) by (simp_all add: resolve_op_def apply_op_def op_run_new_op f_def[symmetric])
  have "q = t" if "q \<in> set (db_intents db)" "it_id q = i" for q
    using ok that t by (auto simp: intents_ok_def distinct_map inj_on_def)
  then have "{t \<in> set (db_intents db'). it_state t = ''live''} = {t \<in> set (db_intents db). it_state t = ''live'' \<and> it_id t \<noteq> i}"
    using t(2) by (auto simp: d(2) f_def)
  then show ?thesis using d by blast
next
  case False
  then have "filter (\<lambda>q. it_id q = i \<and> it_state q = ''live'') (db_intents db) = []" by (simp add: filter_empty_conv)
  moreover from this have "sql_update (\<lambda>q. it_id q = i \<and> it_state q = ''live'') f (db_intents db) = (db_intents db, 0)" for f
    by (intro sql_update_none) (simp add: filter_empty_conv)
  ultimately have "res = Inr (ack_of_rows 0)" "db' = db"
    using ok run by (simp_all add: resolve_op_def apply_op_def op_run_new_op update_intent_def intents_ok_def)
  then show ?thesis using False by (auto intro: exI[of _ "db_intents db"])
qed

lemma grant_effect:
  assumes free: "ni_id n \<notin> it_id ` set (db_intents db)" "live_for_path (ni_final_path n) db = None"
    and job: "ni_job_id n \<in> jt_id ` set (db_jobs db)"
  shows "apply_op (grant_op n) now db
       = (Inr (ack_of_rows 1), db\<lparr> db_intents := db_intents db @ [new_intent_row n (now * 1000)] \<rparr>)"
proof -
  have "\<not> list_ex (\<lambda>q. it_id q = ni_id n) (db_intents db)" using free(1) by (metis (mono_tags, lifting) list_ex_iff image_eqI)
  moreover have "\<not> list_ex (\<lambda>q. it_state q = ''live'' \<and> it_final_path q = ni_final_path n) (db_intents db)"
    using free(2) by (auto simp: list_ex_iff live_for_path_def query_row_None)
  ultimately show ?thesis using job
    by (simp add: grant_op_def apply_op_def op_run_new_op insert_intent_def intent_checks_def new_intent_row_def)
qed

text \<open>
  C17. A resolution is final, and frees its path: resolving a live intent acknowledges one row and
  leaves no live intent on its path; resolving it again acknowledges none; and whatever is written
  afterwards, the row with its resolution never changes, so a late tidy-up cannot overwrite how a
  replacement ended.
\<close>

theorem resolution_is_final:
  assumes "\<forall>(now, op) \<in> set steps. op \<in> ledger_ops"
    and db: "db = run_writes steps (empty_database fs ls as)"
    and t: "get_intent i db = Some t" "it_state t = ''live''"
    and r: "apply_op (resolve_op i how) now db = (res, db')"
    and more: "\<forall>(now, op) \<in> set later. op \<in> ledger_ops"
  shows "res = Inr (ack_of_rows 1) \<and> live_for_path (it_final_path t) db' = None
       \<and> (\<exists>t'. get_intent i (run_writes later db') = Some t' \<and> it_state t' = ''resolved'' \<and> it_resolution t' = Some how)
       \<and> fst (apply_op (resolve_op i how') now' (run_writes later db')) = Inr (ack_of_rows 0)"
proof -
  have ok: "job_store_ok db" "intents_ok db" using ledger_run_ok[OF assms(1)] by (simp_all add: db)
  have m: "t \<in> set (db_intents db)" "it_id t = i" using t(1) by (auto simp: get_intent_def dest!: query_row_SomeD)
  let ?f = "\<lambda>t. t\<lparr> it_state := ''resolved'', it_resolution := Some how,
                    it_resolved := Some (now * 1000), it_updated := now * 1000 \<rparr>"
  have "intent_checks t" using ok(2) m(1) by (simp add: intents_ok_def)
  then have "intent_checks (?f t)" by (simp add: intent_checks_def)
  from update_intent_one[where f = ?f, OF ok(2) m(1) t(2) this] m(2)
  have d: "res = Inr (ack_of_rows 1)" "db' = db\<lparr> db_intents := map (\<lambda>q. if q = t then ?f q else q) (db_intents db) \<rparr>"
    using r by (simp_all add: resolve_op_def apply_op_def op_run_new_op)
  have g: "get_intent i db' = Some (?f t)"
    using t(1) by (simp add: d(2) get_intent_def query_row_map)
  have free: "live_for_path (it_final_path t) db' = None"
    using live_unique[OF ok(2) _ _ m(1) t(2)] by (auto simp: d(2) live_for_path_def query_row_None)
  have mem: "resolve_op i how \<in> ledger_ops" by (simp add: ledger_ops_def)
  have ok': "intents_ok (run_writes later db')"
    using intent_writes.run_kept[OF more] intent_writes.apply_kept[OF mem, of db now] ok r by simp
  have "get_intent i (run_writes later db') = Some (?f t)" by (rule resolved_run[OF more g]) simp
  then show ?thesis using d(1) free resolve_resolved[OF ok'] by simp
qed

lemma resolution_is_final_witness:
  "\<exists>t'. get_intent ''j:0'' (run_writes [(60, resolve_op ''j:0'' ''abandoned'')]
        (snd (apply_op (resolve_op ''j:0'' ''installed'') 50
          (run_writes sample_ledger_steps (empty_database [sample_file] [sample_library] [sample_agent])))))
     = Some t' \<and> it_resolution t' = Some ''installed''"
proof -
  let ?db = "run_writes sample_ledger_steps (empty_database [sample_file] [sample_library] [sample_agent])"
  obtain res db' where r: "apply_op (resolve_op ''j:0'' ''installed'') 50 ?db = (res, db')" by (metis prod.exhaust)
  have "intents_ok ?db" using ledger_run_ok[OF sample_ledger_ops] by blast
  from live_for_path_iff[OF this] sample_ledger_live
  have m: "new_intent_row (sample_intent ''j:0'') 40000 \<in> set (db_intents ?db)" by auto
  with \<open>intents_ok ?db\<close> have g: "get_intent ''j:0'' ?db = Some (new_intent_row (sample_intent ''j:0'') 40000)"
    using query_row_unique[of it_id "db_intents ?db" "new_intent_row (sample_intent ''j:0'') 40000"]
    by (simp add: get_intent_def intents_ok_def new_intent_row_def sample_intent_def)
  have l: "\<forall>(now, op) \<in> set [(60 :: i64, resolve_op ''j:0'' ''abandoned'')]. op \<in> ledger_ops"
    by (simp add: ledger_ops_def)
  show ?thesis
    using resolution_is_final[OF sample_ledger_ops refl g _ r l, THEN conjunct2, THEN conjunct2, THEN conjunct1] r
    by (fastforce simp: new_intent_row_def)
qed

end
