(* ===== verification/Trash.thy ===== *)
theory Trash
  imports Database
begin

text \<open>
  Retained originals (\<open>crates/transcodarr-store/src/repo/trash.rs\<close>): retention with its floor, the
  hastening under pool pressure, restoring and reaping, and the reads. The clock of a read is an
  argument, as it is for the writes.
\<close>

section \<open>Reads\<close>

definition min_grace_seconds :: i64 where
  "min_grace_seconds = 6 * 3600"

definition reapable :: "i64 \<Rightarrow> nat \<Rightarrow> database \<Rightarrow> trash_row list" where
  "reapable now limit db =
     take limit (sort_key tt_at (filter (\<lambda>t. tt_restored t = None \<and> tt_purge_after t \<le> now
                                      \<and> tt_at t \<le> now - min_grace_seconds) (db_trash db)))"

definition retained :: "nat \<Rightarrow> database \<Rightarrow> trash_row list" where
  "retained limit db = take limit (sort_key (\<lambda>t. - tt_at t) (filter (\<lambda>t. tt_restored t = None) (db_trash db)))"

definition for_original_path :: "string \<Rightarrow> database \<Rightarrow> trash_row option" where
  "for_original_path p db =
     (case sort_key (\<lambda>t. - tt_at t) (filter (\<lambda>t. tt_original_path t = p \<and> tt_restored t = None) (db_trash db)) of
        [] \<Rightarrow> None | t # _ \<Rightarrow> Some t)"

definition retained_totals :: "database \<Rightarrow> i64 \<times> i64" where
  "retained_totals db =
     (let rows = filter (\<lambda>t. tt_restored t = None) (db_trash db)
      in (int (length rows), sum_list (map tt_size_bytes rows)))"

section \<open>Writes\<close>

definition retain_op :: "i64 option \<Rightarrow> string option \<Rightarrow> string \<Rightarrow> string \<Rightarrow> i64 \<Rightarrow> i64 \<Rightarrow> write_op" where
  "retain_op file_id job_id original trash_path size_bytes retention_seconds =
     new_op_with_id (''trash.retain:'' @ original) (\<lambda>now db.
       let retention = max retention_seconds min_grace_seconds;
           i = int (Suc (db_trash_seq db))
       in if (case file_id of None \<Rightarrow> True | Some f \<Rightarrow> f \<in> ft_id ` set (db_files db))
             \<and> (case job_id of None \<Rightarrow> True | Some j \<Rightarrow> j \<in> jt_id ` set (db_jobs db))
          then (Inr (1, i), db\<lparr> db_trash := db_trash db @ [\<lparr> tt_id = i, tt_file_id = file_id, tt_job_id = job_id,
                    tt_original_path = original, tt_trash_path = trash_path, tt_size_bytes = size_bytes,
                    tt_at = now, tt_purge_after = now + retention, tt_restored = None \<rparr>],
                 db_trash_seq := Suc (db_trash_seq db) \<rparr>)
          else (Inl (SE_Sqlite ForeignKeyMissing), db))"

definition reap_op :: "i64 \<Rightarrow> write_op" where
  "reap_op i = new_op (''trash.reap:'' @ show_int i) (\<lambda>now db.
     let (rows, n) = sql_delete (\<lambda>t. tt_id t = i) (db_trash db) in (Inr n, db\<lparr> db_trash := rows \<rparr>))"

definition restore_op :: "i64 \<Rightarrow> write_op" where
  "restore_op i = new_op (''trash.restore:'' @ show_int i) (\<lambda>now db.
     let (rows, n) = sql_update (\<lambda>t. tt_id t = i) (\<lambda>t. t\<lparr> tt_restored := Some now \<rparr>) (db_trash db)
     in (Inr n, db\<lparr> db_trash := rows \<rparr>))"

definition hasten_op :: "i64 \<Rightarrow> write_op" where
  "hasten_op seconds_earlier = new_op ''trash.hasten'' (\<lambda>now db.
     let (rows, n) = sql_update (\<lambda>t. tt_restored t = None)
           (\<lambda>t. t\<lparr> tt_purge_after := max (tt_at t + min_grace_seconds) (tt_purge_after t - max seconds_earlier 0) \<rparr>)
           (db_trash db)
     in (Inr n, db\<lparr> db_trash := rows \<rparr>))"

section \<open>Invariant\<close>

definition trash_ok :: "database \<Rightarrow> bool" where
  "trash_ok db \<longleftrightarrow> distinct (map tt_id (db_trash db))
     \<and> (\<forall>t \<in> set (db_trash db). tt_id t \<le> int (db_trash_seq db) \<and> tt_at t + min_grace_seconds \<le> tt_purge_after t)"

definition trash_ops :: "write_op set" where
  "trash_ops = {retain_op f j orig trash s r | f j orig trash s r. True} \<union> range reap_op \<union> range restore_op \<union> range hasten_op"

lemma trash_opsI [simp, intro]: "retain_op f j orig trash s r \<in> trash_ops" "reap_op i \<in> trash_ops"
  "restore_op i \<in> trash_ops" "hasten_op s \<in> trash_ops"
  unfolding trash_ops_def by blast+

lemmas trash_op_defs = op_run_new_op retain_op_def reap_op_def restore_op_def hasten_op_def op_run_new_op_with_id
  sql_delete_def sql_update_def

lemma trash_op_cases:
  assumes "op \<in> trash_ops"
  obtains (retain) f j orig trash s r where "op = retain_op f j orig trash s r" | (reap) i where "op = reap_op i"
    | (restore) i where "op = restore_op i" | (hasten) s where "op = hasten_op s"
  using assms by (auto simp: trash_ops_def)

lemma trash_op_frame:
  assumes "op \<in> trash_ops" "op_run op now db = (res, db')"
  shows "\<exists>rows n. db' = db\<lparr> db_trash := rows, db_trash_seq := n \<rparr>"
proof -
  have frame: "\<exists>rows' n. db\<lparr> db_trash := rows \<rparr> = db\<lparr> db_trash := rows', db_trash_seq := n \<rparr>" for rows
    by (rule exI[of _ rows], rule exI[of _ "db_trash_seq db"]) simp
  have same: "\<exists>rows n. db = db\<lparr> db_trash := rows, db_trash_seq := n \<rparr>"
    by (rule exI[of _ "db_trash db"], rule exI[of _ "db_trash_seq db"]) simp
  show ?thesis using assms(1)
  proof (cases rule: trash_op_cases)
    case retain
    then show ?thesis using assms(2) same unfolding retain by (auto simp: trash_op_defs Let_def split: if_splits)
  next
    case reap then show ?thesis using assms(2) frame unfolding reap by (auto simp: trash_op_defs)
  next
    case restore then show ?thesis using assms(2) frame unfolding restore by (auto simp: trash_op_defs)
  next
    case hasten then show ?thesis using assms(2) frame unfolding hasten by (auto simp: trash_op_defs)
  qed
qed

lemma trash_update_kept:
  assumes "trash_ok db" "\<And>t. tt_id (f t) = tt_id t" "\<And>t. tt_at (f t) = tt_at t"
    "\<And>t. tt_at t + min_grace_seconds \<le> tt_purge_after t \<Longrightarrow> tt_at t + min_grace_seconds \<le> tt_purge_after (f t)"
  shows "trash_ok (db\<lparr> db_trash := map (\<lambda>t. if P t then f t else t) (db_trash db) \<rparr>)"
proof -
  have "map tt_id (map (\<lambda>t. if P t then f t else t) (db_trash db)) = map tt_id (db_trash db)"
    by (simp add: o_def map_same[where g = tt_id] assms(2))
  then have "distinct (map tt_id (map (\<lambda>t. if P t then f t else t) (db_trash db)))"
    using assms(1) by (simp only: trash_ok_def)
  then show ?thesis using assms unfolding trash_ok_def by (auto simp del: map_map)
qed

interpretation trash_writes: guarded_writes trash_ok trash_ops
proof
  fix op db now ack db'
  assume "op \<in> trash_ops" and ok: "trash_ok db" and run: "op_run op now db = (Inr ack, db')"
  from this(1) show "trash_ok db'"
  proof (cases rule: trash_op_cases)
    case (retain f j orig trash s r)
    have "int (Suc (db_trash_seq db)) \<notin> tt_id ` set (db_trash db)" using ok by (force simp: trash_ok_def)
    then show ?thesis using run ok unfolding retain
      by (auto simp: trash_op_defs trash_ok_def Let_def split: if_splits) fastforce
  next
    case (reap i)
    then show ?thesis using run ok unfolding reap by (auto simp: trash_op_defs trash_ok_def distinct_map inj_on_def)
  next
    case (restore i)
    then show ?thesis
      using run trash_update_kept[OF ok, of "\<lambda>t. t\<lparr> tt_restored := Some now \<rparr>" "\<lambda>t. tt_id t = i"]
      unfolding restore by (auto simp: trash_op_defs)
  next
    case (hasten s)
    then show ?thesis
      using run trash_update_kept[OF ok, of "\<lambda>t. t\<lparr> tt_purge_after := max (tt_at t + min_grace_seconds)
          (tt_purge_after t - max s 0) \<rparr>" "\<lambda>t. tt_restored t = None"]
      unfolding hasten by (auto simp: trash_op_defs)
  qed
qed

lemma empty_trash_ok [simp]: "trash_ok (empty_database fs ls as)"
  by (simp add: trash_ok_def empty_database_def)

section \<open>Properties\<close>

text \<open>
  C18. No original is reaped within six hours: whatever retentions are asked for, negative ones
  included, and however often and however far they are brought forward, an entry the reaper is
  given was retained at least six hours before, has reached its purge time and has not been put
  back; and hastening never moves a purge time later nor below the floor.
\<close>

theorem trash_grace_floor:
  assumes "\<forall>(now, op) \<in> set steps. op \<in> trash_ops"
    and db: "db = run_writes steps (empty_database fs ls as)"
  shows "(\<forall>t \<in> set (reapable now limit db). tt_at t + 21600 \<le> now \<and> tt_purge_after t \<le> now \<and> tt_restored t = None)
       \<and> (\<forall>t \<in> set (db_trash (snd (apply_op (hasten_op s) now db))).
            \<exists>u \<in> set (db_trash db). tt_id u = tt_id t \<and> tt_at u = tt_at t \<and> tt_restored u = tt_restored t
              \<and> tt_at t + 21600 \<le> tt_purge_after t \<and> tt_purge_after t \<le> tt_purge_after u)"
proof -
  have "trash_ok db" unfolding db by (rule trash_writes.run_kept[OF assms(1)]) simp
  then have floor: "tt_at u + 21600 \<le> tt_purge_after u" if "u \<in> set (db_trash db)" for u
    using that by (auto simp: trash_ok_def min_grace_seconds_def)
  have "tt_at t + 21600 \<le> now \<and> tt_purge_after t \<le> now \<and> tt_restored t = None" if "t \<in> set (reapable now limit db)" for t
    using in_set_takeD[OF that[unfolded reapable_def]] by (auto simp: min_grace_seconds_def)
  moreover have "\<exists>u \<in> set (db_trash db). tt_id u = tt_id t \<and> tt_at u = tt_at t \<and> tt_restored u = tt_restored t
              \<and> tt_at t + 21600 \<le> tt_purge_after t \<and> tt_purge_after t \<le> tt_purge_after u"
    if t: "t \<in> set (db_trash (snd (apply_op (hasten_op s) now db)))" for t
  proof -
    from t obtain u where u: "u \<in> set (db_trash db)"
      "t = (if tt_restored u = None then u\<lparr> tt_purge_after := max (tt_at u + min_grace_seconds) (tt_purge_after u - max s 0) \<rparr> else u)"
      by (auto simp: apply_op_def hasten_op_def op_run_new_op sql_update_def)
    then show ?thesis using floor[OF u(1)] by (intro bexI[OF _ u(1)]) (auto simp: min_grace_seconds_def)
  qed
  ultimately show ?thesis by blast
qed

lemma trash_grace_floor_witness:
  "list_all (\<lambda>t. tt_at t + 21600 \<le> 99999) (reapable 99999 5 (run_writes [(90000, retain_op None None ''/m/f'' ''/t/f'' 1 (-7)), (90001, hasten_op 99999)]
      (empty_database [] [] [])))"
proof -
  have "\<forall>(now, op) \<in> set [(90000 :: i64, retain_op None None ''/m/f'' ''/t/f'' 1 (-7)), (90001, hasten_op 99999)]. op \<in> trash_ops"
    by simp
  from trash_grace_floor[OF this refl, of 99999 5] show ?thesis unfolding list_all_iff by blast
qed

text \<open>
  Pressure has an effect: hastened far enough, an entry still retained becomes reapable as soon as
  its six hours are over, and at that moment.
\<close>

lemma hasten_brings_due:
  assumes "t \<in> set (db_trash db)" "tt_restored t = None" "tt_purge_after t - tt_at t \<le> s"
  shows "tt_id t \<in> tt_id ` set (reapable (tt_at t + min_grace_seconds) (length (db_trash db))
           (snd (apply_op (hasten_op s) now db)))"
proof -
  let ?u = "t\<lparr> tt_purge_after := max (tt_at t + min_grace_seconds) (tt_purge_after t - max s 0) \<rparr>"
  let ?db = "snd (apply_op (hasten_op s) now db)"
  let ?now = "tt_at t + min_grace_seconds"
  have rows: "db_trash ?db = map (\<lambda>t. if tt_restored t = None then t\<lparr> tt_purge_after := max (tt_at t + min_grace_seconds)
      (tt_purge_after t - max s 0) \<rparr> else t) (db_trash db)"
    by (simp add: apply_op_def hasten_op_def op_run_new_op sql_update_def)
  have "?u \<in> set (db_trash ?db)" unfolding rows using assms(1,2) by force
  moreover have "tt_purge_after ?u \<le> ?now" using assms(3) by (simp add: min_grace_seconds_def)
  ultimately have "?u \<in> set (sort_key tt_at (filter (\<lambda>t. tt_restored t = None \<and> tt_purge_after t \<le> ?now
      \<and> tt_at t \<le> ?now - min_grace_seconds) (db_trash ?db)))" using assms(2) by simp
  moreover have "length (sort_key tt_at (filter (\<lambda>t. tt_restored t = None \<and> tt_purge_after t \<le> ?now
      \<and> tt_at t \<le> ?now - min_grace_seconds) (db_trash ?db))) \<le> length (db_trash db)"
    by (simp add: rows)
  ultimately have "?u \<in> set (reapable ?now (length (db_trash db)) ?db)" unfolding reapable_def by (simp only: take_all)
  then have "tt_id ?u \<in> tt_id ` set (reapable ?now (length (db_trash db)) ?db)" by (rule imageI)
  then show ?thesis by simp
qed

end
