(* ===== verification/Agent_Store.thy ===== *)
theory Agent_Store
  imports Database
begin

text \<open>
  The agent registry (\<open>crates/transcodarr-store/src/repo/agent.rs\<close>): what a registration, a heartbeat
  and an operator write of an agent, and the reads of the dispatcher and of the handshake.
\<close>

section \<open>Records\<close>

record agent_record =
  ar_id :: string
  ar_agent_uid :: string
  ar_boot_id :: "string option"
  ar_agent_version :: "string option"
  ar_proto_version :: "i64 option"
  ar_capability_hash :: "string option"
  ar_capability_json :: string
  ar_effective_cores :: "f64 option"
  ar_commit_eligible :: bool
  ar_fencing_epoch :: i64
  ar_status :: string
  ar_admin_state :: string
  ar_connected_since :: "i64 option"
  ar_last_heartbeat :: "i64 option"
  ar_lease_expires :: "i64 option"

definition agent_from_row :: "agent_row \<Rightarrow> agent_record" where
  "agent_from_row r = \<lparr> ar_id = at_id r, ar_agent_uid = at_agent_uid r, ar_boot_id = at_boot_id r,
     ar_agent_version = at_agent_version r, ar_proto_version = at_proto_version r,
     ar_capability_hash = at_capability_hash r, ar_capability_json = at_capability_json r,
     ar_effective_cores = at_effective_cores r, ar_commit_eligible = (at_commit_eligible r \<noteq> 0),
     ar_fencing_epoch = at_fencing_epoch r, ar_status = at_status r, ar_admin_state = at_admin_state r,
     ar_connected_since = at_connected_since r, ar_last_heartbeat = at_last_heartbeat r,
     ar_lease_expires = at_lease_expires r \<rparr>"

record known_instance =
  ki_agent_uid :: string
  ki_boot_id :: "string option"
  ki_fencing_epoch :: i64

record registration =
  rg_id :: string
  rg_agent_uid :: string
  rg_boot_id :: string
  rg_hostname :: "string option"
  rg_platform :: "string option"
  rg_arch :: "string option"
  rg_agent_version :: string
  rg_proto_version :: i64
  rg_ffmpeg_version :: "string option"
  rg_ffprobe_version :: "string option"
  rg_driver_version :: "string option"
  rg_classes_json :: string
  rg_capability_json :: string
  rg_capability_hash :: string
  rg_effective_cores :: f64
  rg_physical_cores :: "i64 option"
  rg_mounts_json :: string
  rg_rename_probe_status :: string
  rg_commit_eligible :: bool
  rg_fencing_epoch :: i64

section \<open>Reads\<close>

definition get_agent :: "string \<Rightarrow> database \<Rightarrow> agent_record option" where
  "get_agent i db = map_option agent_from_row (query_row (\<lambda>r. at_id r = i) (db_agents db))"

definition all_agents :: "database \<Rightarrow> agent_record list" where
  "all_agents db = map agent_from_row (sort_key at_id (db_agents db))"

definition dispatchable :: "database \<Rightarrow> agent_record list" where
  "dispatchable db = map agent_from_row (sort_key at_id
     (filter (\<lambda>r. at_status r = ''Online'' \<and> at_admin_state r = ''Enabled'') (db_agents db)))"

definition instance_of :: "string \<Rightarrow> database \<Rightarrow> known_instance option" where
  "instance_of i db = map_option (\<lambda>r. \<lparr> ki_agent_uid = at_agent_uid r, ki_boot_id = at_boot_id r,
     ki_fencing_epoch = at_fencing_epoch r \<rparr>) (query_row (\<lambda>r. at_id r = i) (db_agents db))"

section \<open>Writes\<close>

definition agent_checks :: "agent_row \<Rightarrow> bool" where
  "agent_checks r \<longleftrightarrow> at_rename_probe_status r \<in> {''untested'', ''ok'', ''failed'', ''inconclusive''}
     \<and> at_commit_eligible r \<in> {0, 1}
     \<and> at_status r \<in> {''Online'', ''Draining'', ''Unhealthy'', ''Offline'', ''Quarantined''}
     \<and> at_admin_state r \<in> {''Enabled'', ''Paused'', ''Drain''}"

definition new_agent_row :: "registration \<Rightarrow> i64 \<Rightarrow> agent_row" where
  "new_agent_row g now = \<lparr> at_id = rg_id g, at_agent_uid = rg_agent_uid g, at_boot_id = Some (rg_boot_id g),
     at_hostname = rg_hostname g, at_platform = rg_platform g, at_arch = rg_arch g,
     at_agent_version = Some (rg_agent_version g), at_proto_version = Some (rg_proto_version g),
     at_ffmpeg_version = rg_ffmpeg_version g, at_ffprobe_version = rg_ffprobe_version g,
     at_driver_version = rg_driver_version g, at_classes_json = rg_classes_json g,
     at_capability_json = rg_capability_json g, at_capability_hash = Some (rg_capability_hash g),
     at_effective_cores = Some (rg_effective_cores g), at_physical_cores = rg_physical_cores g,
     at_mounts_json = rg_mounts_json g, at_rename_probe_status = rg_rename_probe_status g,
     at_commit_eligible = (if rg_commit_eligible g then 1 else 0), at_fencing_epoch = rg_fencing_epoch g,
     at_status = ''Online'', at_admin_state = ''Enabled'', at_quarantine_reason = None,
     at_connected_since = Some now, at_last_register = Some now, at_last_heartbeat = Some now,
     at_lease_expires = None \<rparr>"

text \<open>\<open>ON CONFLICT(id) DO UPDATE\<close>: the columns the statement lists, over the row it found.\<close>

definition reregistered :: "agent_row \<Rightarrow> agent_row \<Rightarrow> agent_row" where
  "reregistered new old = new\<lparr> at_admin_state := at_admin_state old,
     at_quarantine_reason := at_quarantine_reason old, at_lease_expires := at_lease_expires old,
     at_connected_since := (if at_boot_id old = at_boot_id new then at_connected_since old else at_connected_since new) \<rparr>"

definition register_op :: "registration \<Rightarrow> write_op" where
  "register_op g = new_op (''agent.register:'' @ rg_id g) (\<lambda>now db.
     let new = new_agent_row g now
     in if \<not> agent_checks new then (Inl (SE_Sqlite CheckFailed), db)
        else if list_ex (\<lambda>r. at_id r = rg_id g) (db_agents db)
        then (Inr 1, db\<lparr> db_agents := map (\<lambda>r. if at_id r = rg_id g then reregistered new r else r) (db_agents db) \<rparr>)
        else (Inr 1, db\<lparr> db_agents := db_agents db @ [new] \<rparr>))"

definition record_capability_op :: "string \<Rightarrow> string \<Rightarrow> string \<Rightarrow> string option \<Rightarrow> string option \<Rightarrow> string option
    \<Rightarrow> string \<Rightarrow> write_op" where
  "record_capability_op agent hash json agent_version ffmpeg_version driver_version diff =
     new_op (''agent.capability_history:'' @ agent) (\<lambda>now db.
       if agent \<notin> at_id ` set (db_agents db) then (Inl (SE_Sqlite ForeignKeyMissing), db)
       else (Inr 1, db\<lparr> db_history := db_history db @ [\<lparr> ht_id = int (Suc (db_history_seq db)), ht_agent_id = agent,
                ht_at = now, ht_capability_hash = hash, ht_capability_json = json, ht_agent_version = agent_version,
                ht_ffmpeg_version = ffmpeg_version, ht_driver_version = driver_version, ht_diff_summary = Some diff \<rparr>],
              db_history_seq := Suc (db_history_seq db) \<rparr>))"

text \<open>\<open>UPDATE agent SET f WHERE id = ?\<close>.\<close>

definition update_agent :: "string \<Rightarrow> (agent_row \<Rightarrow> agent_row) \<Rightarrow> database \<Rightarrow> (store_error + nat) \<times> database" where
  "update_agent i f db =
     (let (rows, n) = sql_update (\<lambda>r. at_id r = i) f (db_agents db)
      in if \<not> list_all agent_checks (map f (filter (\<lambda>r. at_id r = i) (db_agents db)))
         then (Inl (SE_Sqlite CheckFailed), db) else (Inr n, db\<lparr> db_agents := rows \<rparr>))"

definition heartbeat_op :: "string \<Rightarrow> i64 \<Rightarrow> write_op" where
  "heartbeat_op i lease_seconds = new_op (''agent.heartbeat:'' @ i) (\<lambda>now.
     update_agent i (\<lambda>r. r\<lparr> at_last_heartbeat := Some now, at_lease_expires := Some (sat_i64 (now + lease_seconds)) \<rparr>))"

definition set_status_op :: "string \<Rightarrow> string \<Rightarrow> write_op" where
  "set_status_op i status = new_op (''agent.status:'' @ i) (\<lambda>now. update_agent i (\<lambda>r. r\<lparr> at_status := status \<rparr>))"

definition quarantine_op :: "string \<Rightarrow> string \<Rightarrow> write_op" where
  "quarantine_op i reason = new_op (''agent.quarantine:'' @ i) (\<lambda>now.
     update_agent i (\<lambda>r. r\<lparr> at_status := ''Quarantined'', at_quarantine_reason := Some reason \<rparr>))"

definition set_admin_state_op :: "string \<Rightarrow> string \<Rightarrow> write_op" where
  "set_admin_state_op i admin_state = new_op (''agent.admin_state:'' @ i) (\<lambda>now.
     update_agent i (\<lambda>r. r\<lparr> at_admin_state := admin_state \<rparr>))"

section \<open>Invariant\<close>

definition agents_ok :: "database \<Rightarrow> bool" where
  "agents_ok db \<longleftrightarrow> distinct (map at_id (db_agents db)) \<and> (\<forall>r \<in> set (db_agents db). agent_checks r)"

definition agent_ops :: "write_op set" where
  "agent_ops = range register_op \<union> {record_capability_op a h j v f d s | a h j v f d s. True}
     \<union> {heartbeat_op i n | i n. True} \<union> {set_status_op i s | i s. True} \<union> {quarantine_op i s | i s. True}
     \<union> {set_admin_state_op i s | i s. True}"

lemma agent_opsI [simp, intro]:
  "register_op g \<in> agent_ops" "record_capability_op a h j v f d s \<in> agent_ops" "heartbeat_op i n \<in> agent_ops"
  "set_status_op i s \<in> agent_ops" "quarantine_op i s \<in> agent_ops" "set_admin_state_op i s \<in> agent_ops"
  unfolding agent_ops_def by blast+

lemmas agent_op_defs = register_op_def record_capability_op_def heartbeat_op_def set_status_op_def
  quarantine_op_def set_admin_state_op_def op_run_new_op

lemma update_agent_Inr:
  assumes "update_agent i f db = (Inr n, db')"
  shows "db' = db\<lparr> db_agents := map (\<lambda>r. if at_id r = i then f r else r) (db_agents db) \<rparr>"
    and "\<forall>r \<in> set (db_agents db). at_id r = i \<longrightarrow> agent_checks (f r)"
    and "n = length (filter (\<lambda>r. at_id r = i) (db_agents db))"
  using assms by (auto simp: update_agent_def sql_update_def Let_def list_all_iff split: if_splits)

text \<open>An operation on agents is an update of one row by a function that keeps its name, or an insertion.\<close>

lemma agent_op_cases:
  assumes "op \<in> agent_ops" "op_run op now db = (Inr ack, db')"
  obtains (update) i f where
      "db' = db\<lparr> db_agents := map (\<lambda>r. if at_id r = i then f r else r) (db_agents db) \<rparr>"
      "\<forall>r. at_id r = i \<longrightarrow> at_id (f r) = i"
      "\<forall>r \<in> set (db_agents db). at_id r = i \<longrightarrow> agent_checks r \<longrightarrow> agent_checks (f r)"
    | (insert) g where "db' = db\<lparr> db_agents := db_agents db @ [new_agent_row g now] \<rparr>"
      "agent_checks (new_agent_row g now)" "rg_id g \<notin> at_id ` set (db_agents db)"
    | (history) h n where "db' = db\<lparr> db_history := h, db_history_seq := n \<rparr>"
proof -
  have upd: thesis
    if r: "op_run op now db = (case update_agent i f db of (Inl e, db') \<Rightarrow> (Inl e, db') | (Inr n, db') \<Rightarrow> (Inr (ack_of_rows n), db'))"
      and f: "\<forall>r. at_id r = i \<longrightarrow> at_id (f r) = i" for i f
  proof -
    from r assms(2) obtain n where "update_agent i f db = (Inr n, db')" by (auto split: prod.splits sum.splits)
    from update_agent_Inr[OF this] f show thesis by (intro update[of i f]) auto
  qed
  from assms(1) consider (reg) g where "op = register_op g"
    | (hist) a h j v f d s where "op = record_capability_op a h j v f d s"
    | (beat) i n where "op = heartbeat_op i n" | (status) i s where "op = set_status_op i s"
    | (quar) i s where "op = quarantine_op i s" | (admin) i s where "op = set_admin_state_op i s"
    unfolding agent_ops_def by blast
  then show thesis
  proof cases
    case reg
    show thesis
    proof (cases "list_ex (\<lambda>r. at_id r = rg_id g) (db_agents db)")
      case True
      show thesis
        by (rule update[of "rg_id g" "reregistered (new_agent_row g now)"])
          (use assms(2) True in \<open>auto simp: reg register_op_def op_run_new_op Let_def reregistered_def new_agent_row_def
              agent_checks_def split: if_splits\<close>)
    next
      case False
      show thesis
        by (rule insert[of g])
          (use assms(2) False in \<open>auto simp: reg register_op_def op_run_new_op Let_def list_ex_iff split: if_splits\<close>)
    qed
  next
    case hist
    show thesis by (rule history[of "db_history_seq db'" "db_history db'"]) (use assms(2) in \<open>auto simp: hist record_capability_op_def op_run_new_op split: if_splits\<close>)
  next
    case beat show thesis by (rule upd, simp add: beat agent_op_defs, simp)
  next
    case status show thesis by (rule upd, simp add: status agent_op_defs, simp)
  next
    case quar show thesis by (rule upd, simp add: quar agent_op_defs, simp)
  next
    case admin show thesis by (rule upd, simp add: admin agent_op_defs, simp)
  qed
qed

interpretation agent_writes: guarded_writes agents_ok agent_ops
proof
  fix op db now ack db'
  assume op: "op \<in> agent_ops" and ok: "agents_ok db" and run: "op_run op now db = (Inr ack, db')"
  from op run show "agents_ok db'"
  proof (cases rule: agent_op_cases)
    case (update i f)
    have ids: "map at_id (db_agents db') = map at_id (db_agents db)"
      unfolding update(1) using update(2) by (simp add: map_key_update del: map_map)
    have "\<forall>r \<in> set (db_agents db'). agent_checks r" using update(1,3) ok by (auto simp: agents_ok_def)
    then show ?thesis using ok unfolding agents_ok_def ids by blast
  next
    case (insert g) then show ?thesis using ok by (auto simp: agents_ok_def new_agent_row_def)
  next
    case (history h n) then show ?thesis using ok by (simp add: agents_ok_def)
  qed
qed

text \<open>What an agent operation leaves alone, and that it forgets no agent.\<close>

lemma agent_op_frame:
  assumes "op \<in> agent_ops" "op_run op now db = (Inr ack, db')"
  shows "\<exists>as h n. db' = db\<lparr> db_agents := as, db_history := h, db_history_seq := n \<rparr>
    \<and> at_id ` set (db_agents db) \<subseteq> at_id ` set as"
  using assms
proof (cases rule: agent_op_cases)
  case (update i f)
  have "map at_id (db_agents db') = map at_id (db_agents db)"
    unfolding update(1) using update(2) by (simp add: map_key_update del: map_map)
  then have "set (map at_id (db_agents db)) = set (map at_id (db_agents db'))" by simp
  then have "at_id ` set (db_agents db) \<subseteq> at_id ` set (db_agents db')" by simp
  moreover have "db' = db\<lparr> db_agents := db_agents db', db_history := db_history db, db_history_seq := db_history_seq db \<rparr>"
    by (simp add: update(1))
  ultimately show ?thesis by blast
next
  case (insert g)
  show ?thesis unfolding insert(1)
    by (intro exI[of _ "db_agents db'"] exI[of _ "db_history db"] exI[of _ "db_history_seq db"]) (auto simp: insert(1))
next
  case (history h n)
  then show ?thesis by (intro exI[of _ "db_agents db"] exI[of _ h] exI[of _ n]) simp
qed

end
