(* ===== verification/Library_Store.thy ===== *)
theory Library_Store
  imports Database
begin

text \<open>
  Libraries, scan runs and the record of why a job did not dispatch
  (\<open>crates/transcodarr-store/src/repo/library.rs\<close>, \<open>dispatch_block.rs\<close>).
\<close>

section \<open>Libraries\<close>

record library_record =
  lr_id :: string
  lr_name :: string
  lr_root_path :: string
  lr_work_dir :: string
  lr_trash_dir :: string
  lr_exclude_globs_json :: string
  lr_enabled :: bool
  lr_scan_parallelism :: i64
  lr_priority :: i64
  lr_min_mtime_age_s :: i64

definition library_from_row :: "library_row \<Rightarrow> library_record" where
  "library_from_row r = \<lparr> lr_id = lt_id r, lr_name = lt_name r, lr_root_path = lt_root_path r,
     lr_work_dir = lt_work_dir r, lr_trash_dir = lt_trash_dir r, lr_exclude_globs_json = lt_exclude_globs_json r,
     lr_enabled = lt_enabled r, lr_scan_parallelism = lt_scan_parallelism r, lr_priority = lt_priority r,
     lr_min_mtime_age_s = lt_min_mtime_age_s r \<rparr>"

definition get_library :: "string \<Rightarrow> database \<Rightarrow> store_error + library_record" where
  "get_library i db = (case query_row (\<lambda>r. lt_id r = i) (db_libraries db) of
     Some r \<Rightarrow> Inr (library_from_row r) | None \<Rightarrow> Inl (SE_NotFound ''library'' i))"

definition list_enabled :: "database \<Rightarrow> library_record list" where
  "list_enabled db = map library_from_row (sort_key (\<lambda>r. - lt_priority r) (sort_key lt_id
     (filter lt_enabled (db_libraries db))))"

definition library_row_of :: "library_record \<Rightarrow> i64 \<Rightarrow> library_row" where
  "library_row_of l now = \<lparr> lt_id = lr_id l, lt_name = lr_name l, lt_root_path = lr_root_path l,
     lt_work_dir = lr_work_dir l, lt_trash_dir = lr_trash_dir l, lt_exclude_globs_json = lr_exclude_globs_json l,
     lt_enabled = lr_enabled l, lt_scan_parallelism = lr_scan_parallelism l, lt_priority = lr_priority l,
     lt_min_mtime_age_s = lr_min_mtime_age_s l, lt_created = now, lt_updated = now \<rparr>"

definition upsert_library_op :: "library_record \<Rightarrow> write_op" where
  "upsert_library_op l = new_op (''library.upsert:'' @ lr_id l) (\<lambda>now db.
     let new = library_row_of l now
     in if list_ex (\<lambda>r. lt_id r = lr_id l) (db_libraries db)
        then (Inr 1, db\<lparr> db_libraries := map (\<lambda>r. if lt_id r = lr_id l then new\<lparr> lt_created := lt_created r \<rparr> else r)
                (db_libraries db) \<rparr>)
        else (Inr 1, db\<lparr> db_libraries := db_libraries db @ [new] \<rparr>))"

section \<open>Scan runs\<close>

record scan_run =
  sr_id :: i64
  sr_library_id :: string
  sr_mode :: string
  sr_scan_generation :: i64
  sr_status :: string
  sr_files_seen :: i64
  sr_files_new :: i64
  sr_files_changed :: i64
  sr_files_missing :: i64
  sr_aborted_reason :: "string option"

definition scan_from_row :: "scan_row \<Rightarrow> scan_run" where
  "scan_from_row r = \<lparr> sr_id = st_id r, sr_library_id = st_library_id r, sr_mode = st_mode r,
     sr_scan_generation = st_scan_generation r, sr_status = st_status r, sr_files_seen = st_files_seen r,
     sr_files_new = st_files_new r, sr_files_changed = st_files_changed r, sr_files_missing = st_files_missing r,
     sr_aborted_reason = st_aborted_reason r \<rparr>"

definition last_scan_run :: "string \<Rightarrow> database \<Rightarrow> scan_run option" where
  "last_scan_run library db = (case sort_key (\<lambda>r. - st_id r) (filter (\<lambda>r. st_library_id r = library) (db_scans db)) of
     [] \<Rightarrow> None | r # _ \<Rightarrow> Some (scan_from_row r))"

text \<open>\<open>COALESCE(MAX(scan_generation), 0) + 1\<close>.\<close>

definition next_generation :: "string \<Rightarrow> database \<Rightarrow> i64" where
  "next_generation library db =
     (case map st_scan_generation (filter (\<lambda>r. st_library_id r = library) (db_scans db)) of
        [] \<Rightarrow> 1 | g # gs \<Rightarrow> foldr max gs g + 1)"

definition begin_scan_run_op :: "string \<Rightarrow> string \<Rightarrow> write_op" where
  "begin_scan_run_op library mode = new_op_with_id (''scan_run.begin:'' @ library) (\<lambda>now db.
     if library \<notin> lt_id ` set (db_libraries db) then (Inl (SE_Sqlite ForeignKeyMissing), db)
     else let i = int (Suc (db_scan_seq db))
          in (Inr (1, i), db\<lparr> db_scans := db_scans db @ [\<lparr> st_id = i, st_library_id = library, st_mode = mode,
                st_started = now, st_finished = None, st_status = ''running'', st_files_seen = 0, st_files_new = 0,
                st_files_changed = 0, st_files_missing = 0, st_probe_errors = 0, st_duration_ms = None,
                st_scan_generation = next_generation library db, st_aborted_reason = None \<rparr>],
              db_scan_seq := Suc (db_scan_seq db) \<rparr>))"

definition update_scan_counts_op :: "i64 \<Rightarrow> i64 \<Rightarrow> i64 \<Rightarrow> i64 \<Rightarrow> i64 \<Rightarrow> i64 \<Rightarrow> write_op" where
  "update_scan_counts_op run seen new changed missing probe_errors = new_op (''scan_run.counts:'' @ show_int run) (\<lambda>now db.
     let (rows, n) = sql_update (\<lambda>r. st_id r = run) (\<lambda>r. r\<lparr> st_files_seen := seen, st_files_new := new,
           st_files_changed := changed, st_files_missing := missing, st_probe_errors := probe_errors \<rparr>) (db_scans db)
     in (Inr n, db\<lparr> db_scans := rows \<rparr>))"

definition finish_scan_run_op :: "i64 \<Rightarrow> string \<Rightarrow> string option \<Rightarrow> i64 \<Rightarrow> write_op" where
  "finish_scan_run_op run status aborted duration_ms = new_op (''scan_run.finish:'' @ show_int run) (\<lambda>now db.
     let (rows, n) = sql_update (\<lambda>r. st_id r = run) (\<lambda>r. r\<lparr> st_finished := Some now, st_status := status,
           st_aborted_reason := aborted, st_duration_ms := Some duration_ms \<rparr>) (db_scans db)
     in (Inr n, db\<lparr> db_scans := rows \<rparr>))"

section \<open>Dispatch blocks\<close>

definition get_block :: "string \<Rightarrow> database \<Rightarrow> block_row option" where
  "get_block job db = query_row (\<lambda>r. bt_job_id r = job) (db_blocks db)"

definition count_by_stage :: "database \<Rightarrow> (string \<times> nat) list" where
  "count_by_stage db = sort_key (\<lambda>(s, n). - int n) (sort_key fst
     (map (\<lambda>s. (s, length (filter (\<lambda>r. bt_stage r = s) (db_blocks db)))) (remdups (map bt_stage (db_blocks db)))))"

definition upsert_block_op :: "string \<Rightarrow> string \<Rightarrow> string option \<Rightarrow> write_op" where
  "upsert_block_op job stage detail = new_op (''dispatch_block.upsert:'' @ job) (\<lambda>now db.
     let new = \<lparr> bt_job_id = job, bt_at = now, bt_stage = stage, bt_detail_json = detail \<rparr>
     in if list_ex (\<lambda>r. bt_job_id r = job) (db_blocks db)
        then (Inr 1, db\<lparr> db_blocks := map (\<lambda>r. if bt_job_id r = job then new else r) (db_blocks db) \<rparr>)
        else if job \<notin> jt_id ` set (db_jobs db) then (Inl (SE_Sqlite ForeignKeyMissing), db)
        else (Inr 1, db\<lparr> db_blocks := db_blocks db @ [new] \<rparr>))"

definition clear_block_op :: "string \<Rightarrow> write_op" where
  "clear_block_op job = new_op (''dispatch_block.clear:'' @ job) (\<lambda>now db.
     let (rows, n) = sql_delete (\<lambda>r. bt_job_id r = job) (db_blocks db) in (Inr n, db\<lparr> db_blocks := rows \<rparr>))"

section \<open>Invariant\<close>

definition libraries_ok :: "database \<Rightarrow> bool" where
  "libraries_ok db \<longleftrightarrow> distinct (map lt_id (db_libraries db))
     \<and> distinct (map st_id (db_scans db)) \<and> (\<forall>r \<in> set (db_scans db). st_id r \<le> int (db_scan_seq db))
     \<and> distinct (map (\<lambda>r. (st_library_id r, st_scan_generation r)) (db_scans db))"

definition library_ops :: "write_op set" where
  "library_ops = range upsert_library_op \<union> {begin_scan_run_op l m | l m. True}
     \<union> {update_scan_counts_op r a b c d e | r a b c d e. True} \<union> {finish_scan_run_op r s a d | r s a d. True}"

definition blocks_ok :: "database \<Rightarrow> bool" where
  "blocks_ok db \<longleftrightarrow> distinct (map bt_job_id (db_blocks db))
     \<and> (\<forall>r \<in> set (db_blocks db). bt_job_id r \<in> jt_id ` set (db_jobs db))"

definition block_ops :: "write_op set" where
  "block_ops = {upsert_block_op j s d | j s d. True} \<union> range clear_block_op"

lemma library_opsI [simp, intro]:
  "upsert_library_op l \<in> library_ops" "begin_scan_run_op i m \<in> library_ops"
  "update_scan_counts_op r a b c d e \<in> library_ops" "finish_scan_run_op r s x y \<in> library_ops"
  unfolding library_ops_def by blast+

lemma block_opsI [simp, intro]: "upsert_block_op j s d \<in> block_ops" "clear_block_op j \<in> block_ops"
  unfolding block_ops_def by blast+

lemma foldr_max_upper: "(x :: int) \<in> set (g # gs) \<Longrightarrow> x \<le> foldr max gs g"
  by (induction gs) (auto simp: le_max_iff_disj)

text \<open>A new scan run's generation is above every one its library has had.\<close>

lemma next_generation_above:
  assumes "r \<in> set (db_scans db)" "st_library_id r = library"
  shows "st_scan_generation r < next_generation library db"
proof -
  have "st_scan_generation r \<in> set (map st_scan_generation (filter (\<lambda>r. st_library_id r = library) (db_scans db)))"
    using assms by auto
  then obtain g gs where g: "map st_scan_generation (filter (\<lambda>r. st_library_id r = library) (db_scans db)) = g # gs"
    and "st_scan_generation r \<in> set (g # gs)"
    by (cases "map st_scan_generation (filter (\<lambda>r. st_library_id r = library) (db_scans db))") (simp_all only: list.set empty_iff)
  from foldr_max_upper[OF this(2)] show ?thesis unfolding next_generation_def g by simp
qed

lemma library_op_cases:
  assumes "op \<in> library_ops" "op_run op now db = (Inr ack, db')"
  obtains (update) i f where "db' = db\<lparr> db_libraries := map (\<lambda>r. if lt_id r = i then f r else r) (db_libraries db) \<rparr>"
      "\<forall>r. lt_id r = i \<longrightarrow> lt_id (f r) = i"
    | (insert) l where "db' = db\<lparr> db_libraries := db_libraries db @ [l] \<rparr>" "lt_id l \<notin> lt_id ` set (db_libraries db)"
    | (opened) r where "db' = db\<lparr> db_scans := db_scans db @ [r], db_scan_seq := Suc (db_scan_seq db) \<rparr>"
      "st_id r = int (Suc (db_scan_seq db))" "st_scan_generation r = next_generation (st_library_id r) db"
    | (scan) i f where "db' = db\<lparr> db_scans := map (\<lambda>r. if st_id r = i then f r else r) (db_scans db) \<rparr>"
      "\<forall>r. st_id (f r) = st_id r \<and> st_library_id (f r) = st_library_id r \<and> st_scan_generation (f r) = st_scan_generation r"
proof -
  from assms(1) consider (lib) l where "op = upsert_library_op l" | (start) l m where "op = begin_scan_run_op l m"
    | (counts) r a b c d e where "op = update_scan_counts_op r a b c d e"
    | (finish) r s a d where "op = finish_scan_run_op r s a d"
    unfolding library_ops_def by blast
  then show thesis
  proof cases
    case lib
    show thesis
    proof (cases "list_ex (\<lambda>r. lt_id r = lr_id l) (db_libraries db)")
      case True
      show thesis
        by (rule update[of "lr_id l" "\<lambda>r. (library_row_of l now)\<lparr> lt_created := lt_created r \<rparr>"])
          (use assms(2) True in \<open>auto simp: lib upsert_library_op_def op_run_new_op Let_def library_row_of_def\<close>)
    next
      case False
      show thesis
        by (rule insert[of "library_row_of l now"])
          (use assms(2) False in \<open>auto simp: lib upsert_library_op_def op_run_new_op Let_def library_row_of_def list_ex_iff\<close>)
    qed
  next
    case start
    show thesis
      by (rule opened[of "last (db_scans db')"])
        (use assms(2) in \<open>auto simp: start begin_scan_run_op_def op_run_new_op_with_id Let_def split: if_splits\<close>)
  next
    case counts
    show thesis
      by (rule scan[where i = r]) (use assms(2) in \<open>auto simp: counts update_scan_counts_op_def op_run_new_op sql_update_def\<close>)
  next
    case finish
    show thesis
      by (rule scan[where i = r]) (use assms(2) in \<open>auto simp: finish finish_scan_run_op_def op_run_new_op sql_update_def\<close>)
  qed
qed

interpretation library_writes: guarded_writes libraries_ok library_ops
proof
  fix op db now ack db'
  assume op: "op \<in> library_ops" and ok: "libraries_ok db" and run: "op_run op now db = (Inr ack, db')"
  from op run show "libraries_ok db'"
  proof (cases rule: library_op_cases)
    case (update i f)
    have "map lt_id (db_libraries db') = map lt_id (db_libraries db)"
      unfolding update(1) using update(2) by (simp add: map_key_update del: map_map)
    moreover have "db_scans db' = db_scans db" "db_scan_seq db' = db_scan_seq db" by (simp_all add: update(1))
    ultimately show ?thesis using ok unfolding libraries_ok_def by metis
  next
    case (insert l) then show ?thesis using ok by (auto simp: libraries_ok_def)
  next
    case (opened r)
    have "int (Suc (db_scan_seq db)) \<notin> st_id ` set (db_scans db)" using ok by (force simp: libraries_ok_def)
    moreover have "(st_library_id r, st_scan_generation r) \<notin> (\<lambda>r. (st_library_id r, st_scan_generation r)) ` set (db_scans db)"
      using next_generation_above[of _ db "st_library_id r"] opened(3) by force
    ultimately show ?thesis using opened ok by (auto simp: libraries_ok_def)
  next
    case (scan i f)
    have "map st_id (db_scans db') = map st_id (db_scans db)"
      "map (\<lambda>r. (st_library_id r, st_scan_generation r)) (db_scans db') = map (\<lambda>r. (st_library_id r, st_scan_generation r)) (db_scans db)"
      unfolding scan(1) using scan(2) by simp_all
    moreover have "\<forall>r \<in> set (db_scans db'). st_id r \<le> int (db_scan_seq db')"
      unfolding scan(1) using scan(2) ok by (auto simp: libraries_ok_def)
    ultimately show ?thesis using ok unfolding libraries_ok_def by (simp add: scan(1) del: map_map)
  qed
qed

lemma library_op_frame:
  assumes "op \<in> library_ops" "op_run op now db = (Inr ack, db')"
  shows "\<exists>ls ss n. db' = db\<lparr> db_libraries := ls, db_scans := ss, db_scan_seq := n \<rparr>
    \<and> lt_id ` set (db_libraries db) \<subseteq> lt_id ` set ls"
proof -
  have d: "db' = db\<lparr> db_libraries := db_libraries db', db_scans := db_scans db', db_scan_seq := db_scan_seq db' \<rparr>
      \<and> lt_id ` set (db_libraries db) \<subseteq> lt_id ` set (db_libraries db')"
    using assms
  proof (cases rule: library_op_cases)
    case (update i f)
    have "map lt_id (db_libraries db') = map lt_id (db_libraries db)"
      unfolding update(1) using update(2) by (simp add: map_key_update del: map_map)
    then have "set (map lt_id (db_libraries db)) = set (map lt_id (db_libraries db'))" by simp
    then have "lt_id ` set (db_libraries db) \<subseteq> lt_id ` set (db_libraries db')" by simp
    moreover have "db' = db\<lparr> db_libraries := db_libraries db', db_scans := db_scans db', db_scan_seq := db_scan_seq db' \<rparr>"
      by (simp add: update(1))
    ultimately show ?thesis by blast
  qed auto
  then show ?thesis by blast
qed

interpretation block_writes: guarded_writes blocks_ok block_ops
proof
  fix op db now ack db'
  assume op: "op \<in> block_ops" and ok: "blocks_ok db" and run: "op_run op now db = (Inr ack, db')"
  from op consider (up) j s d where "op = upsert_block_op j s d" | (clear) j where "op = clear_block_op j"
    unfolding block_ops_def by blast
  then show "blocks_ok db'"
  proof cases
    case up
    let ?new = "\<lparr> bt_job_id = j, bt_at = now, bt_stage = s, bt_detail_json = d \<rparr>"
    show ?thesis
    proof (cases "list_ex (\<lambda>r. bt_job_id r = j) (db_blocks db)")
      case True
      have d: "db' = db\<lparr> db_blocks := map (\<lambda>r. if bt_job_id r = j then ?new else r) (db_blocks db) \<rparr>"
        using run True by (simp add: up upsert_block_op_def op_run_new_op Let_def)
      have "map bt_job_id (db_blocks db') = map bt_job_id (db_blocks db)"
        unfolding d by (simp add: map_key_update del: map_map)
      then have ids: "distinct (map bt_job_id (db_blocks db'))" "bt_job_id ` set (db_blocks db') = bt_job_id ` set (db_blocks db)"
        using ok by (metis blocks_ok_def, metis set_map)
      have "bt_job_id ` set (db_blocks db) \<subseteq> jt_id ` set (db_jobs db)" using ok by (auto simp: blocks_ok_def)
      then have "bt_job_id ` set (db_blocks db') \<subseteq> jt_id ` set (db_jobs db')" unfolding ids(2) by (simp add: d)
      then show ?thesis using ids(1) by (auto simp: blocks_ok_def)
    next
      case False
      then have new: "j \<notin> bt_job_id ` set (db_blocks db)" by (auto simp: list_ex_iff)
      have d: "db' = db\<lparr> db_blocks := db_blocks db @ [?new] \<rparr>" "j \<in> jt_id ` set (db_jobs db)"
        using run False by (simp_all add: up upsert_block_op_def op_run_new_op Let_def split: if_splits)
      show ?thesis using ok new d(2) by (simp add: blocks_ok_def d(1))
    qed
  next
    case clear
    then show ?thesis using run ok
      by (auto simp: clear_block_op_def op_run_new_op sql_delete_def blocks_ok_def distinct_map inj_on_def)
  qed
qed

lemma block_op_frame:
  assumes "op \<in> block_ops" "op_run op now db = (Inr ack, db')"
  shows "\<exists>bs. db' = db\<lparr> db_blocks := bs \<rparr>"
  using assms unfolding block_ops_def
  by (auto simp: upsert_block_op_def clear_block_op_def op_run_new_op Let_def sql_delete_def split: if_splits)

end
