(* ===== verification/File_Store.thy ===== *)
theory File_Store
  imports Job_Store Policy
begin

text \<open>
  The file repository (\<open>crates/transcodarr-store/src/repo/file.rs\<close>): discovery, probe results,
  decisions, and what the scanner, the prober, the evaluator and the dispatcher read back.
\<close>

section \<open>Records\<close>

record file_upsert =
  fu_library_id :: string
  fu_canonical_path :: string
  fu_path_hash :: string
  fu_size_bytes :: i64
  fu_mtime_unix :: i64
  fu_mtime_ns :: i64
  fu_inode :: "i64 option"
  fu_dev :: "i64 option"
  fu_nlink :: i64
  fu_scan_generation :: i64

record file_record =
  fr_id :: i64
  fr_library_id :: string
  fr_canonical_path :: string
  fr_path_hash :: string
  fr_size_bytes :: i64
  fr_mtime_unix :: i64
  fr_inode :: "i64 option"
  fr_dev :: "i64 option"
  fr_nlink :: i64
  fr_state :: file_state
  fr_size_bucket :: "size_bucket option"
  fr_content_sig :: "string option"
  fr_facts :: "file_facts option"
  fr_decision :: "decision_class option"
  fr_decision_reason :: "string option"
  fr_eval_rules_version :: "string option"
  fr_streak :: i64
  fr_scan_generation :: i64
  fr_last_seen :: i64

record file_identity =
  fi_id :: i64
  fi_size_bytes :: i64
  fi_mtime_unix :: i64
  fi_mtime_ns :: i64
  fi_inode :: "i64 option"
  fi_dev :: "i64 option"
  fi_state :: string

text \<open>The facts as columns, and back; \<open>as\<close> casts are those of the code.\<close>

definition probe_columns_of :: "file_facts \<Rightarrow> probe_columns" where
  "probe_columns_of f = \<lparr> pc_container = Some (ff_container f),
     pc_duration_s = map_option (\<lambda>us. f64_div (f64_of_u64 us) 1000000) (ff_duration_us f),
     pc_bitrate_bps = map_option sint (ff_bit_rate_bps f), pc_video_codec = ff_video_codec f,
     pc_video_profile = ff_video_profile f,
     pc_video_bit_depth = map_option (\<lambda>d. uint (bits d)) (ff_video_bit_depth f),
     pc_video_pix_fmt = ff_video_pix_fmt f, pc_video_width = map_option uint (ff_width f),
     pc_video_height = map_option uint (ff_height f), pc_is_hdr = (if ff_is_hdr f then 1 else 0),
     pc_is_dovi = (if ff_is_dovi f then 1 else 0), pc_dovi_profile = map_option uint (ff_dovi_profile f),
     pc_has_object_audio = (if ff_has_object_audio f then 1 else 0),
     pc_audio_codecs = Some (join '','' (ff_audio_codecs f)),
     pc_audio_track_count = sint (of_nat (ff_audio_track_count f) :: u64),
     pc_subtitle_track_count = sint (of_nat (ff_subtitle_track_count f) :: u64) \<rparr>"

definition facts_from_row :: "file_row \<Rightarrow> file_facts" where
  "facts_from_row r = (let p = ft_probe r in \<lparr> ff_container = or_default [] (pc_container p),
     ff_duration_us = map_option (\<lambda>s. u64_of_f64 (f64_mul s 1000000)) (pc_duration_s p),
     ff_size_bytes = of_int (ft_size_bytes r), ff_bit_rate_bps = map_option of_int (pc_bitrate_bps p),
     ff_video_codec = pc_video_codec p, ff_video_profile = pc_video_profile p,
     ff_video_bit_depth = Option.bind (pc_video_bit_depth p) (\<lambda>b. from_bits (of_int b)),
     ff_video_pix_fmt = pc_video_pix_fmt p, ff_width = map_option of_int (pc_video_width p),
     ff_height = map_option of_int (pc_video_height p), ff_is_hdr = (pc_is_hdr p \<noteq> 0),
     ff_is_dovi = (pc_is_dovi p \<noteq> 0), ff_dovi_profile = map_option of_int (pc_dovi_profile p),
     ff_has_object_audio = (pc_has_object_audio p \<noteq> 0),
     ff_audio_codecs = (case pc_audio_codecs p of None \<Rightarrow> []
        | Some s \<Rightarrow> if s = [] then [] else split_on (CHR '','') s),
     ff_audio_track_count = unat (of_int (pc_audio_track_count p) :: u64),
     ff_subtitle_track_count = unat (of_int (pc_subtitle_track_count p) :: u64) \<rparr>)"

definition parse_opt :: "string \<Rightarrow> string option \<Rightarrow> (string \<Rightarrow> 'a option) \<Rightarrow> store_error + 'a option" where
  "parse_opt column raw parse = (case raw of
     Some s \<Rightarrow> bindR (parse_enum column s parse) (\<lambda>v. Inr (Some v)) | None \<Rightarrow> Inr None)"

definition file_from_row :: "file_row \<Rightarrow> store_error + file_record" where
  "file_from_row r =
     bindR (parse_enum ''file.state'' (ft_state r) file_state_parse) (\<lambda>state.
     bindR (parse_opt ''file.size_bucket'' (ft_size_bucket r) size_bucket_parse) (\<lambda>bucket.
     bindR (parse_opt ''file.decision'' (ft_decision r) decision_class_parse) (\<lambda>decision.
       Inr \<lparr> fr_id = ft_id r, fr_library_id = ft_library_id r, fr_canonical_path = ft_canonical_path r,
         fr_path_hash = ft_path_hash r, fr_size_bytes = ft_size_bytes r, fr_mtime_unix = ft_mtime_unix r,
         fr_inode = ft_inode r, fr_dev = ft_dev r, fr_nlink = ft_nlink r, fr_state = state,
         fr_size_bucket = bucket, fr_content_sig = ft_content_sig r,
         fr_facts = (if ft_probe_at r \<noteq> None then Some (facts_from_row r) else None),
         fr_decision = decision, fr_decision_reason = ft_decision_reason r,
         fr_eval_rules_version = ft_eval_rules_version r, fr_streak = ft_streak r,
         fr_scan_generation = ft_scan_generation r, fr_last_seen = ft_last_seen r \<rparr>)))"

section \<open>Reads\<close>

definition get_file :: "i64 \<Rightarrow> database \<Rightarrow> store_error + file_record" where
  "get_file i db = (case query_row (\<lambda>r. ft_id r = i) (db_files db) of
     Some r \<Rightarrow> file_from_row r | None \<Rightarrow> Inl (SE_NotFound ''file'' (show_int i)))"

definition by_path :: "string \<Rightarrow> string \<Rightarrow> file_row \<Rightarrow> bool" where
  "by_path library path_hash r \<longleftrightarrow> ft_library_id r = library \<and> ft_path_hash r = path_hash"

definition file_identity_of :: "string \<Rightarrow> string \<Rightarrow> database \<Rightarrow> file_identity option" where
  "file_identity_of library path_hash db = map_option (\<lambda>r. \<lparr> fi_id = ft_id r, fi_size_bytes = ft_size_bytes r,
     fi_mtime_unix = ft_mtime_unix r, fi_mtime_ns = ft_mtime_ns r, fi_inode = ft_inode r, fi_dev = ft_dev r,
     fi_state = ft_state r \<rparr>) (query_row (by_path library path_hash) (db_files db))"

definition get_by_path_hash :: "string \<Rightarrow> string \<Rightarrow> database \<Rightarrow> store_error + file_record option" where
  "get_by_path_hash library path_hash db = (case query_row (by_path library path_hash) (db_files db) of
     None \<Rightarrow> Inr None | Some r \<Rightarrow> bindR (file_from_row r) (\<lambda>f. Inr (Some f)))"

definition needs_probe :: "string \<Rightarrow> nat \<Rightarrow> database \<Rightarrow> store_error + file_record list" where
  "needs_probe library limit db = collect (map file_from_row (take limit (sort_key ft_id
     (filter (\<lambda>r. ft_library_id r = library \<and> ft_state r = ''Discovered'') (db_files db)))))"

definition needs_eval :: "string \<Rightarrow> string \<Rightarrow> nat \<Rightarrow> database \<Rightarrow> store_error + file_record list" where
  "needs_eval library version limit db = collect (map file_from_row (take limit (sort_key ft_id
     (filter (\<lambda>r. ft_library_id r = library \<and> ft_state r \<in> {''Probed'', ''Evaluated''}
        \<and> ft_eval_rules_version r \<noteq> Some version) (db_files db)))))"

definition live_in :: "string \<Rightarrow> database \<Rightarrow> file_row list" where
  "live_in library db = filter (\<lambda>r. ft_library_id r = library \<and> ft_state r \<noteq> ''Missing'') (db_files db)"

definition count_not_seen_in :: "string \<Rightarrow> i64 \<Rightarrow> database \<Rightarrow> i64" where
  "count_not_seen_in library generation db =
     int (length (filter (\<lambda>r. ft_scan_generation r < generation) (live_in library db)))"

definition file_totals :: "string \<Rightarrow> database \<Rightarrow> i64 \<times> i64" where
  "file_totals library db = (int (length (live_in library db)), sum_list (map ft_size_bytes (live_in library db)))"

definition count_live :: "string \<Rightarrow> database \<Rightarrow> i64" where
  "count_live library db = int (length (live_in library db))"

section \<open>Writes\<close>

definition file_states :: "string list" where
  "file_states = [''Discovered'', ''Probing'', ''Probed'', ''ProbeFailed'', ''Evaluated'', ''Processed'',
     ''Quarantined'', ''Missing'']"

definition new_file_row :: "i64 \<Rightarrow> file_upsert \<Rightarrow> i64 \<Rightarrow> file_row" where
  "new_file_row i f now = \<lparr> ft_id = i, ft_library_id = fu_library_id f, ft_canonical_path = fu_canonical_path f,
     ft_path_hash = fu_path_hash f, ft_size_bytes = fu_size_bytes f, ft_mtime_unix = fu_mtime_unix f,
     ft_mtime_ns = fu_mtime_ns f, ft_inode = fu_inode f, ft_dev = fu_dev f, ft_nlink = fu_nlink f,
     ft_size_bucket = None, ft_content_sig = None, ft_probe = no_probe, ft_probe_json = None, ft_probe_at = None,
     ft_probe_tool = None, ft_state = ''Discovered'', ft_decision = None, ft_decision_reason = None,
     ft_eval_rules_version = None, ft_eval_at = None, ft_streak = 0, ft_first_seen = now, ft_last_seen = now,
     ft_scan_generation = fu_scan_generation f \<rparr>"

definition file_changed :: "file_upsert \<Rightarrow> file_row \<Rightarrow> bool" where
  "file_changed f r \<longleftrightarrow> ft_size_bytes r \<noteq> fu_size_bytes f \<or> ft_mtime_unix r \<noteq> fu_mtime_unix f
     \<or> ft_mtime_ns r \<noteq> fu_mtime_ns f"

definition refreshed :: "file_upsert \<Rightarrow> i64 \<Rightarrow> file_row \<Rightarrow> file_row" where
  "refreshed f now r =
     (let changed = file_changed f r
      in r\<lparr> ft_canonical_path := fu_canonical_path f, ft_size_bytes := fu_size_bytes f,
           ft_mtime_unix := fu_mtime_unix f, ft_mtime_ns := fu_mtime_ns f, ft_inode := fu_inode f,
           ft_dev := fu_dev f, ft_nlink := fu_nlink f, ft_last_seen := now,
           ft_scan_generation := fu_scan_generation f,
           ft_state := (if changed \<or> ft_state r = ''Missing'' then ''Discovered'' else ft_state r),
           ft_content_sig := (if changed then None else ft_content_sig r),
           ft_eval_rules_version := (if changed then None else ft_eval_rules_version r),
           ft_decision := (if changed then None else ft_decision r),
           ft_decision_reason := (if changed then None else ft_decision_reason r),
           ft_streak := (if changed then 0 else ft_streak r) \<rparr>)"

definition upsert_file_op :: "file_upsert \<Rightarrow> write_op" where
  "upsert_file_op f = new_op_with_id (''file.upsert:'' @ fu_path_hash f) (\<lambda>now db.
     case query_row (by_path (fu_library_id f) (fu_path_hash f)) (db_files db) of
       Some r \<Rightarrow> (Inr (1, ft_id r), db\<lparr> db_files := map (\<lambda>q. if by_path (fu_library_id f) (fu_path_hash f) q
                    then refreshed f now q else q) (db_files db) \<rparr>)
     | None \<Rightarrow>
         if fu_library_id f \<notin> lt_id ` set (db_libraries db) then (Inl (SE_Sqlite ForeignKeyMissing), db)
         else let i = int (Suc (db_file_seq db))
              in (Inr (1, i), db\<lparr> db_files := db_files db @ [new_file_row i f now], db_file_seq := Suc (db_file_seq db) \<rparr>))"

definition mark_missing_op :: "string \<Rightarrow> i64 \<Rightarrow> write_op" where
  "mark_missing_op library generation = new_op (''file.mark_missing:'' @ library) (\<lambda>now db.
     let (rows, n) = sql_update (\<lambda>r. ft_library_id r = library \<and> ft_scan_generation r < generation
              \<and> ft_state r \<noteq> ''Missing'') (\<lambda>r. r\<lparr> ft_state := ''Missing'' \<rparr>) (db_files db)
     in (Inr n, db\<lparr> db_files := rows \<rparr>))"

text \<open>\<open>UPDATE file SET f WHERE id = ?\<close>, for updates that keep to the states of the schema.\<close>

definition update_file :: "i64 \<Rightarrow> (file_row \<Rightarrow> file_row) \<Rightarrow> database \<Rightarrow> (store_error + nat) \<times> database" where
  "update_file i f db = (let (rows, n) = sql_update (\<lambda>r. ft_id r = i) f (db_files db)
     in (Inr n, db\<lparr> db_files := rows \<rparr>))"

definition record_probe_op :: "i64 \<Rightarrow> file_facts \<Rightarrow> string \<Rightarrow> size_bucket \<Rightarrow> string \<Rightarrow> string \<Rightarrow> write_op" where
  "record_probe_op i facts sig bucket probe_json tool_version =
     new_op (''file.record_probe:'' @ show_int i) (\<lambda>now. update_file i (\<lambda>r. r\<lparr> ft_state := ''Probed'',
       ft_probe := probe_columns_of facts, ft_content_sig := Some sig,
       ft_size_bucket := Some (size_bucket_as_str bucket), ft_probe_json := Some probe_json,
       ft_probe_tool := Some tool_version, ft_probe_at := Some now \<rparr>))"

definition record_probe_failure_op :: "i64 \<Rightarrow> string \<Rightarrow> write_op" where
  "record_probe_failure_op i reason = new_op (''file.probe_failed:'' @ show_int i) (\<lambda>now.
     update_file i (\<lambda>r. r\<lparr> ft_state := ''ProbeFailed'', ft_decision_reason := Some reason \<rparr>))"

definition record_decision_op :: "i64 \<Rightarrow> decision_class \<Rightarrow> string \<Rightarrow> string \<Rightarrow> write_op" where
  "record_decision_op i decision reason version = new_op (''file.record_decision:'' @ show_int i) (\<lambda>now.
     update_file i (\<lambda>r. r\<lparr> ft_state := ''Evaluated'',
       ft_streak := (if ft_decision r = Some (decision_class_as_str decision) then ft_streak r + 1 else 0),
       ft_decision := Some (decision_class_as_str decision), ft_decision_reason := Some reason,
       ft_eval_rules_version := Some version, ft_eval_at := Some now \<rparr>))"

definition set_file_state_op :: "i64 \<Rightarrow> file_state \<Rightarrow> write_op" where
  "set_file_state_op i state = new_op (''file.set_state:'' @ show_int i) (\<lambda>now.
     update_file i (\<lambda>r. r\<lparr> ft_state := file_state_as_str state \<rparr>))"

section \<open>Invariant\<close>

text \<open>
  A file has one row per library and path; its enumerations are spelled as the code reads them, and a
  decision is recorded with the version it was made under or not at all.
\<close>

definition file_row_ok :: "database \<Rightarrow> file_row \<Rightarrow> bool" where
  "file_row_ok db r \<longleftrightarrow> 0 < ft_id r \<and> ft_id r \<le> int (db_file_seq db) \<and> ft_library_id r \<in> lt_id ` set (db_libraries db)
     \<and> (\<exists>s. ft_state r = file_state_as_str s)
     \<and> (\<forall>b. ft_size_bucket r = Some b \<longrightarrow> (\<exists>s. b = size_bucket_as_str s))
     \<and> (\<forall>d. ft_decision r = Some d \<longrightarrow> (\<exists>c. d = decision_class_as_str c))
     \<and> (ft_eval_rules_version r \<noteq> None \<longrightarrow> ft_decision r \<noteq> None)"

definition files_ok :: "database \<Rightarrow> bool" where
  "files_ok db \<longleftrightarrow> distinct (map ft_id (db_files db))
     \<and> distinct (map (\<lambda>r. (ft_library_id r, ft_path_hash r)) (db_files db))
     \<and> (\<forall>r \<in> set (db_files db). file_row_ok db r)"

definition file_ops :: "write_op set" where
  "file_ops = range upsert_file_op \<union> {mark_missing_op l g | l g. True}
     \<union> {record_probe_op i f s b j v | i f s b j v. True} \<union> {record_probe_failure_op i r | i r. True}
     \<union> {record_decision_op i d r v | i d r v. True} \<union> {set_file_state_op i s | i s. True}"

lemma file_opsI [simp, intro]:
  "upsert_file_op f \<in> file_ops" "mark_missing_op l g \<in> file_ops" "record_probe_op i fc s b j v \<in> file_ops"
  "record_probe_failure_op i r \<in> file_ops" "record_decision_op i d r v \<in> file_ops" "set_file_state_op i st \<in> file_ops"
  unfolding file_ops_def by blast+

text \<open>Every operation updates rows in place by a function that keeps their keys and is sound, or inserts one.\<close>

definition sound_update :: "(file_row \<Rightarrow> file_row) \<Rightarrow> bool" where
  "sound_update f \<longleftrightarrow> (\<forall>r. ft_id (f r) = ft_id r \<and> ft_library_id (f r) = ft_library_id r \<and> ft_path_hash (f r) = ft_path_hash r)
     \<and> (\<forall>db r. file_row_ok db r \<longrightarrow> file_row_ok db (f r))"

lemma state_spellings: "\<exists>s. ''Discovered'' = file_state_as_str s" "\<exists>s. ''Missing'' = file_state_as_str s"
  "\<exists>s. ''Probed'' = file_state_as_str s" "\<exists>s. ''ProbeFailed'' = file_state_as_str s"
  "\<exists>s. ''Evaluated'' = file_state_as_str s"
  by (metis file_state_as_str.simps)+

lemma file_op_cases:
  assumes "op \<in> file_ops" "op_run op now db = (Inr ack, db')"
  obtains (update) P f where "db' = db\<lparr> db_files := map (\<lambda>r. if P r then f r else r) (db_files db) \<rparr>" "sound_update f"
    | (insert) u where "db' = db\<lparr> db_files := db_files db @ [new_file_row (int (Suc (db_file_seq db))) u now],
          db_file_seq := Suc (db_file_seq db) \<rparr>"
        "fu_library_id u \<in> lt_id ` set (db_libraries db)"
        "(fu_library_id u, fu_path_hash u) \<notin> (\<lambda>r. (ft_library_id r, ft_path_hash r)) ` set (db_files db)"
proof -
  from assms(1) consider (up) u where "op = upsert_file_op u" | (miss) l g where "op = mark_missing_op l g"
    | (probe) i fc s b j v where "op = record_probe_op i fc s b j v" | (fail) i r where "op = record_probe_failure_op i r"
    | (dec) i d r v where "op = record_decision_op i d r v" | (state) i s where "op = set_file_state_op i s"
    unfolding file_ops_def by blast
  then show thesis
  proof cases
    case up
    show thesis
    proof (cases "query_row (by_path (fu_library_id u) (fu_path_hash u)) (db_files db)")
      case None
      then have none: "(fu_library_id u, fu_path_hash u) \<notin> (\<lambda>r. (ft_library_id r, ft_path_hash r)) ` set (db_files db)"
        by (auto simp: query_row_def find_None_iff by_path_def)
      show thesis
        by (rule insert[of u]) (use assms(2) None none in
          \<open>auto simp: up upsert_file_op_def op_run_new_op_with_id Let_def split: if_splits\<close>)
    next
      case (Some r)
      show thesis
        by (rule update[of "by_path (fu_library_id u) (fu_path_hash u)" "refreshed u now"])
          (use assms(2) Some in \<open>auto simp: up upsert_file_op_def op_run_new_op_with_id refreshed_def Let_def
             sound_update_def file_row_ok_def intro: state_spellings\<close>)
    qed
  next
    case miss
    show thesis
      by (rule update[of "\<lambda>r. ft_library_id r = l \<and> ft_scan_generation r < g \<and> ft_state r \<noteq> ''Missing''"
            "\<lambda>r. r\<lparr> ft_state := ''Missing'' \<rparr>"])
        (use assms(2) in \<open>auto simp: miss mark_missing_op_def op_run_new_op sql_update_def sound_update_def file_row_ok_def
            intro: state_spellings\<close>)
  next
    case probe
    show thesis
      by (rule update[of "\<lambda>r. ft_id r = i"], use assms(2) in \<open>simp add: probe record_probe_op_def op_run_new_op update_file_def sql_update_def\<close>)
        (auto simp: sound_update_def file_row_ok_def intro: state_spellings)
  next
    case fail
    show thesis
      by (rule update[of "\<lambda>r. ft_id r = i"], use assms(2) in \<open>simp add: fail record_probe_failure_op_def op_run_new_op update_file_def sql_update_def\<close>)
        (auto simp: sound_update_def file_row_ok_def intro: state_spellings)
  next
    case dec
    show thesis
      by (rule update[of "\<lambda>r. ft_id r = i"], use assms(2) in \<open>simp add: dec record_decision_op_def op_run_new_op update_file_def sql_update_def\<close>)
        (auto simp: sound_update_def file_row_ok_def intro: state_spellings)
  next
    case state
    show thesis
      by (rule update[of "\<lambda>r. ft_id r = i"], use assms(2) in \<open>simp add: state set_file_state_op_def op_run_new_op update_file_def sql_update_def\<close>)
        (auto simp: sound_update_def file_row_ok_def)
  qed
qed

interpretation file_writes: guarded_writes files_ok file_ops
proof
  fix op db now ack db'
  assume op: "op \<in> file_ops" and ok: "files_ok db" and run: "op_run op now db = (Inr ack, db')"
  from op run show "files_ok db'"
  proof (cases rule: file_op_cases)
    case (update P f)
    have "map ft_id (db_files db') = map ft_id (db_files db)"
      "map (\<lambda>r. (ft_library_id r, ft_path_hash r)) (db_files db') = map (\<lambda>r. (ft_library_id r, ft_path_hash r)) (db_files db)"
      unfolding update(1) using update(2) by (simp_all add: sound_update_def)
    moreover have "file_row_ok db' r" if "r \<in> set (db_files db')" for r
    proof -
      have "file_row_ok db r" using that ok update by (auto simp: files_ok_def sound_update_def)
      then show ?thesis by (simp add: file_row_ok_def update(1))
    qed
    ultimately show ?thesis using ok unfolding files_ok_def by metis
  next
    case (insert u)
    have "int (Suc (db_file_seq db)) \<notin> ft_id ` set (db_files db)" using ok by (force simp: files_ok_def file_row_ok_def)
    moreover have "file_row_ok db' r" if "file_row_ok db r" for r using that by (auto simp: file_row_ok_def insert(1))
    moreover have "file_row_ok db' (new_file_row (int (Suc (db_file_seq db))) u now)"
      using insert(2) by (auto simp: file_row_ok_def new_file_row_def insert(1) intro: state_spellings)
    ultimately show ?thesis using ok insert(3) by (auto simp: files_ok_def insert(1) new_file_row_def)
  qed
qed

lemma file_op_frame:
  assumes "op \<in> file_ops" "op_run op now db = (Inr ack, db')"
  shows "\<exists>fs n. db' = db\<lparr> db_files := fs, db_file_seq := n \<rparr> \<and> ft_id ` set (db_files db) \<subseteq> ft_id ` set fs"
proof -
  have "db' = db\<lparr> db_files := db_files db', db_file_seq := db_file_seq db' \<rparr> \<and> ft_id ` set (db_files db) \<subseteq> ft_id ` set (db_files db')"
    using assms
  proof (cases rule: file_op_cases)
    case (update P f)
    have "map ft_id (db_files db') = map ft_id (db_files db)"
      unfolding update(1) using update(2) by (simp add: sound_update_def)
    then have "set (map ft_id (db_files db)) = set (map ft_id (db_files db'))" by simp
    then have "ft_id ` set (db_files db) \<subseteq> ft_id ` set (db_files db')" by simp
    moreover have "db' = db\<lparr> db_files := db_files db', db_file_seq := db_file_seq db' \<rparr>" by (simp add: update(1))
    ultimately show ?thesis by blast
  qed auto
  then show ?thesis by blast
qed

section \<open>Facts as stored\<close>

definition stored_duration :: "u64 \<Rightarrow> u64" where
  "stored_duration us = u64_of_f64 (f64_mul (f64_div (f64_of_u64 us) 1000000) 1000000)"

text \<open>The facts a file reads back: the size is the file's own column, the duration went through seconds.\<close>

definition stored_facts :: "file_facts \<Rightarrow> i64 \<Rightarrow> file_facts" where
  "stored_facts f size_bytes = f\<lparr> ff_size_bytes := of_int size_bytes,
     ff_duration_us := map_option stored_duration (ff_duration_us f) \<rparr>"

definition plain_facts :: "file_facts \<Rightarrow> bool" where
  "plain_facts f \<longleftrightarrow> list_all (\<lambda>c. CHR '','' \<notin> set c) (ff_audio_codecs f) \<and> ff_audio_codecs f \<noteq> [[]]
     \<and> ff_audio_track_count f < 2 ^ 64 \<and> ff_subtitle_track_count f < 2 ^ 64"

lemma codecs_roundtrip:
  assumes "list_all (\<lambda>c. CHR '','' \<notin> set c) cs" "cs \<noteq> [[]]"
  shows "(if join '','' cs = [] then [] else split_on (CHR '','') (join '','' cs)) = cs"
proof (cases cs)
  case (Cons c rest)
  have "split_on (CHR '','') (join '','' cs) = cs"
    by (rule split_on_join) (use assms Cons in \<open>auto simp: list_all_iff\<close>)
  moreover have "join '','' cs \<noteq> []" using assms(2) Cons by (cases rest) auto
  ultimately show ?thesis by simp
qed simp

lemma facts_of_columns:
  assumes "plain_facts f"
  shows "facts_from_row (r\<lparr> ft_probe := probe_columns_of f \<rparr>) = stored_facts f (ft_size_bytes r)"
proof -
  have u: "unat (of_nat n :: u64) = n" if "n < 2 ^ 64" for n
    using that by (simp add: unat_of_nat take_bit_nat_eq_self)
  have c: "(if join '','' (ff_audio_codecs f) = [] then [] else split_on (CHR '','') (join '','' (ff_audio_codecs f)))
      = ff_audio_codecs f"
    using assms by (simp add: plain_facts_def codecs_roundtrip)
  have d: "map_option (\<lambda>x. u64_of_f64 (f64_mul (f64_div (f64_of_u64 x) 1000000) 1000000)) y = map_option stored_duration y" for y
    by (cases y) (simp_all add: stored_duration_def)
  have n: "unat (of_nat (ff_audio_track_count f) :: u64) = ff_audio_track_count f"
    "unat (of_nat (ff_subtitle_track_count f) :: u64) = ff_subtitle_track_count f"
    using assms by (simp_all add: plain_facts_def u)
  show ?thesis
    by (rule file_facts.equality)
      (simp_all add: facts_from_row_def Let_def probe_columns_of_def stored_facts_def c d n
        option.map_comp o_def Option.bind_map_option option.map_ident)
qed

text \<open>
  What a probe found comes back: after a probe is recorded for a file the repository has, the file
  reads as probed, with the signature and size bucket recorded, and with the facts that were derived,
  except that the size is the one discovery recorded and the duration has been through seconds in
  floating point.
\<close>

lemma facts_roundtrip:
  assumes "files_ok db" "i \<in> ft_id ` set (db_files db)" "plain_facts f"
  shows "\<exists>r. get_file i (snd (apply_op (record_probe_op i f sig b json tool) now db)) = Inr r
    \<and> fr_state r = FS_Probed \<and> fr_content_sig r = Some sig \<and> fr_size_bucket r = Some b
    \<and> fr_facts r = Some (stored_facts f (fr_size_bytes r))"
proof -
  let ?f = "\<lambda>r. r\<lparr> ft_state := ''Probed'', ft_probe := probe_columns_of f, ft_content_sig := Some sig,
       ft_size_bucket := Some (size_bucket_as_str b), ft_probe_json := Some json,
       ft_probe_tool := Some tool, ft_probe_at := Some now \<rparr>"
  let ?db = "snd (apply_op (record_probe_op i f sig b json tool) now db)"
  obtain r where r: "r \<in> set (db_files db)" "ft_id r = i" using assms(2) by auto
  have files: "db_files ?db = map (\<lambda>r. if ft_id r = i then ?f r else r) (db_files db)"
    by (simp add: record_probe_op_def apply_op_def op_run_new_op update_file_def sql_update_def)
  have "query_row (\<lambda>q. ft_id q = i) (db_files ?db) = Some (?f r)"
    unfolding files using query_row_unique[of ft_id "db_files db" r] assms(1) r
    by (subst query_row_map) (simp_all add: files_ok_def)
  moreover have "\<exists>d. parse_opt ''file.decision'' (ft_decision r) decision_class_parse = Inr d"
  proof -
    have "file_row_ok db r" using assms(1) r by (simp add: files_ok_def)
    then show ?thesis
      by (cases "ft_decision r") (auto simp: file_row_ok_def parse_opt_def parse_enum_def decision_class_spelling.parse_as_str)
  qed
  moreover have "facts_from_row (?f r) = stored_facts f (ft_size_bytes r)"
    using facts_of_columns[OF assms(3), of r] by (simp add: facts_from_row_def Let_def)
  moreover have "file_state_parse ''Probed'' = Some FS_Probed" by (simp add: file_state_parse_def)
  ultimately show ?thesis
    by (auto simp: get_file_def file_from_row_def parse_enum_def parse_opt_def size_bucket_spelling.parse_as_str)
qed


definition sample_facts :: file_facts where
  "sample_facts = \<lparr> ff_container = ''matroska'', ff_duration_us = Some 249, ff_size_bytes = 9, ff_bit_rate_bps = Some 8,
     ff_video_codec = Some ''hevc'', ff_video_profile = None, ff_video_bit_depth = Some Ten, ff_video_pix_fmt = None,
     ff_width = Some 1920, ff_height = Some 1080, ff_is_hdr = False, ff_is_dovi = False, ff_dovi_profile = None,
     ff_has_object_audio = False, ff_audio_codecs = [''dts'', ''aac''], ff_audio_track_count = 2,
     ff_subtitle_track_count = 0 \<rparr>"

lemma sample_files_ok: "files_ok (empty_database [sample_file] [sample_library] [sample_agent])"
proof -
  have "\<exists>s. ''Discovered'' = file_state_as_str s" by (rule state_spellings)
  then show ?thesis by (simp add: files_ok_def file_row_ok_def empty_database_def sample_file_def sample_library_def)
qed

lemma facts_roundtrip_witness:
  "\<exists>r. get_file 1 (snd (apply_op (record_probe_op 1 sample_facts ''s'' Small ''{}'' ''t'') 10
       (empty_database [sample_file] [sample_library] [sample_agent]))) = Inr r
     \<and> fr_state r = FS_Probed \<and> fr_content_sig r = Some ''s'' \<and> fr_size_bucket r = Some Small
     \<and> fr_facts r = Some (stored_facts sample_facts (fr_size_bytes r))"
  by (rule facts_roundtrip[OF sample_files_ok]) (simp_all add: empty_database_def plain_facts_def sample_facts_def)

text \<open>Truncation loses a microsecond of some durations.\<close>

lemma f64_of_249: "f64_of_u64 249 = 249"
  unfolding f64_of_u64_def by (simp add: f64_round_def, code_simp)

lemma duration_not_exact: "stored_duration 249 = 248"
  unfolding stored_duration_def f64_of_249 f64_mul_def f64_div_def by code_simp

section \<open>A scan pass\<close>

definition scan_steps :: "i64 \<Rightarrow> string \<Rightarrow> i64 \<Rightarrow> file_upsert list \<Rightarrow> (i64 \<times> write_op) list" where
  "scan_steps now library generation us =
     map (\<lambda>u. (now, upsert_file_op u)) us @ [(now, mark_missing_op library generation)]"

text \<open>Half-way through the upserts: rows seen so far carry the new generation and are not missing.\<close>

definition half_scanned :: "string \<Rightarrow> i64 \<Rightarrow> string set \<Rightarrow> database \<Rightarrow> bool" where
  "half_scanned l g seen db \<longleftrightarrow> (\<forall>r \<in> set (db_files db). ft_library_id r = l \<longrightarrow>
     (if ft_path_hash r \<in> seen then ft_scan_generation r = g \<and> ft_state r \<noteq> ''Missing'' else ft_scan_generation r < g))"

definition hashes_of :: "string \<Rightarrow> database \<Rightarrow> string set" where
  "hashes_of l db = {h. (l, h) \<in> (\<lambda>r. (ft_library_id r, ft_path_hash r)) ` set (db_files db)}"

lemma upsert_step:
  assumes "half_scanned l g seen db" "fu_library_id u = l" "fu_scan_generation u = g" "l \<in> lt_id ` set (db_libraries db)"
  shows "half_scanned l g (insert (fu_path_hash u) seen) (snd (apply_op (upsert_file_op u) now db))"
    and "db_libraries (snd (apply_op (upsert_file_op u) now db)) = db_libraries db"
    and "hashes_of l (snd (apply_op (upsert_file_op u) now db))
      = insert (fu_path_hash u) (hashes_of l db)"
proof -
  let ?P = "by_path l (fu_path_hash u)"
  show "half_scanned l g (insert (fu_path_hash u) seen) (snd (apply_op (upsert_file_op u) now db))"
    "db_libraries (snd (apply_op (upsert_file_op u) now db)) = db_libraries db"
    "hashes_of l (snd (apply_op (upsert_file_op u) now db))
      = insert (fu_path_hash u) (hashes_of l db)"
  proof (atomize(full), cases "query_row ?P (db_files db)")
    case None
    then have "\<not> ?P r" if "r \<in> set (db_files db)" for r using that by (auto simp: query_row_def find_None_iff)
    then show "half_scanned l g (insert (fu_path_hash u) seen) (snd (apply_op (upsert_file_op u) now db))
      \<and> db_libraries (snd (apply_op (upsert_file_op u) now db)) = db_libraries db
      \<and> hashes_of l (snd (apply_op (upsert_file_op u) now db))
        = insert (fu_path_hash u) (hashes_of l db)"
      using None assms
      by (auto simp: upsert_file_op_def apply_op_def op_run_new_op_with_id Let_def half_scanned_def hashes_of_def
          new_file_row_def by_path_def)
  next
    case (Some r)
    then have r: "r \<in> set (db_files db)" "?P r" by (auto dest: query_row_SomeD)
    have files: "db_files (snd (apply_op (upsert_file_op u) now db))
        = map (\<lambda>q. if ?P q then refreshed u now q else q) (db_files db)"
      using Some assms(2) by (simp add: upsert_file_op_def apply_op_def op_run_new_op_with_id)
    have keys: "ft_library_id (refreshed u now q) = ft_library_id q" "ft_path_hash (refreshed u now q) = ft_path_hash q"
      "ft_scan_generation (refreshed u now q) = g" "ft_state (refreshed u now q) \<noteq> ''Missing''" for q
      using assms(3) by (simp_all add: refreshed_def Let_def)
    have "half_scanned l g (insert (fu_path_hash u) seen) (snd (apply_op (upsert_file_op u) now db))"
      unfolding half_scanned_def files using assms(1) keys by (auto simp: half_scanned_def by_path_def)
    moreover have "db_libraries (snd (apply_op (upsert_file_op u) now db)) = db_libraries db"
      using Some assms(2) by (simp add: upsert_file_op_def apply_op_def op_run_new_op_with_id)
    moreover have "hashes_of l (snd (apply_op (upsert_file_op u) now db))
        = insert (fu_path_hash u) (hashes_of l db)"
    proof -
      have "map (\<lambda>q. (ft_library_id q, ft_path_hash q)) (db_files (snd (apply_op (upsert_file_op u) now db)))
          = map (\<lambda>q. (ft_library_id q, ft_path_hash q)) (db_files db)"
        unfolding files using keys(1,2) by simp
      from arg_cong[OF this, of set] have "hashes_of l (snd (apply_op (upsert_file_op u) now db)) = hashes_of l db"
        unfolding hashes_of_def set_map by simp
      moreover have "fu_path_hash u \<in> hashes_of l db" unfolding hashes_of_def using r
        by (auto simp: by_path_def intro!: image_eqI[of _ _ r])
      ultimately show ?thesis by blast
    qed
    ultimately show "half_scanned l g (insert (fu_path_hash u) seen) (snd (apply_op (upsert_file_op u) now db))
      \<and> db_libraries (snd (apply_op (upsert_file_op u) now db)) = db_libraries db
      \<and> hashes_of l (snd (apply_op (upsert_file_op u) now db))
        = insert (fu_path_hash u) (hashes_of l db)" by blast
  qed
qed

lemma upserts_step:
  "half_scanned l g seen db \<Longrightarrow> \<forall>u \<in> set us. fu_library_id u = l \<and> fu_scan_generation u = g \<Longrightarrow>
   l \<in> lt_id ` set (db_libraries db) \<Longrightarrow> hashes_of l db = hs \<Longrightarrow>
   half_scanned l g (seen \<union> fu_path_hash ` set us) (run_writes (map (\<lambda>u. (now, upsert_file_op u)) us) db)
   \<and> hashes_of l (run_writes (map (\<lambda>u. (now, upsert_file_op u)) us) db) = hs \<union> fu_path_hash ` set us"
proof (induction us arbitrary: seen db hs)
  case (Cons u us)
  let ?db = "snd (apply_op (upsert_file_op u) now db)"
  have u: "fu_library_id u = l" "fu_scan_generation u = g" using Cons.prems(2) by simp_all
  note step = upsert_step[OF Cons.prems(1) u Cons.prems(3), of now]
  have "half_scanned l g (insert (fu_path_hash u) seen \<union> fu_path_hash ` set us) (run_writes (map (\<lambda>u. (now, upsert_file_op u)) us) ?db)
     \<and> hashes_of l (run_writes (map (\<lambda>u. (now, upsert_file_op u)) us) ?db) = insert (fu_path_hash u) hs \<union> fu_path_hash ` set us"
    by (rule Cons.IH[OF step(1)]) (use Cons.prems step in auto)
  then show ?case by simp
qed simp

text \<open>
  A scan pass is exact: upserting the files a walk found under a generation no row of the library
  has reached, then marking the rest, leaves the library with the files it had and the files found,
  and a file is missing exactly when the walk did not find it, however often it found the others.
\<close>

lemma scan_marks_exactly_unseen:
  assumes "library \<in> lt_id ` set (db_libraries db)"
    and "\<forall>r \<in> set (db_files db). ft_library_id r = library \<longrightarrow> ft_scan_generation r < generation"
    and "\<forall>u \<in> set us. fu_library_id u = library \<and> fu_scan_generation u = generation"
    and "db' = run_writes (scan_steps now library generation us) db"
  shows "hashes_of library db' = hashes_of library db \<union> fu_path_hash ` set us
    \<and> (\<forall>r \<in> set (db_files db'). ft_library_id r = library \<longrightarrow>
         (ft_state r = ''Missing'' \<longleftrightarrow> ft_path_hash r \<notin> fu_path_hash ` set us))"
proof -
  let ?mid = "run_writes (map (\<lambda>u. (now, upsert_file_op u)) us) db"
  have "half_scanned library generation {} db" using assms(2) by (simp add: half_scanned_def)
  from upserts_step[OF this assms(3,1) refl, of now]
  have mid: "half_scanned library generation (fu_path_hash ` set us) ?mid"
    "hashes_of library ?mid = hashes_of library db \<union> fu_path_hash ` set us" by simp_all
  let ?P = "\<lambda>r. ft_library_id r = library \<and> ft_scan_generation r < generation \<and> ft_state r \<noteq> ''Missing''"
  have files: "db_files db' = map (\<lambda>r. if ?P r then r\<lparr> ft_state := ''Missing'' \<rparr> else r) (db_files ?mid)"
    unfolding assms(4) scan_steps_def
    by (simp add: mark_missing_op_def apply_op_def op_run_new_op sql_update_def)
  have "map (\<lambda>q. (ft_library_id q, ft_path_hash q)) (db_files db') = map (\<lambda>q. (ft_library_id q, ft_path_hash q)) (db_files ?mid)"
    unfolding files by simp
  from arg_cong[OF this, of set] have "hashes_of library db' = hashes_of library ?mid"
    unfolding hashes_of_def set_map by simp
  moreover have "ft_state r = ''Missing'' \<longleftrightarrow> ft_path_hash r \<notin> fu_path_hash ` set us"
    if "r \<in> set (db_files db')" "ft_library_id r = library" for r
  proof -
    from that(1) obtain q where q: "q \<in> set (db_files ?mid)" "r = (if ?P q then q\<lparr> ft_state := ''Missing'' \<rparr> else q)"
      unfolding files set_map by blast
    then have "ft_library_id q = library" "ft_path_hash r = ft_path_hash q" using that(2) by (auto split: if_splits)
    then have "if ft_path_hash r \<in> fu_path_hash ` set us then ft_scan_generation q = generation \<and> ft_state q \<noteq> ''Missing''
        else ft_scan_generation q < generation"
      using mid(1) q(1) by (auto simp: half_scanned_def)
    then show ?thesis using q(2) \<open>ft_library_id q = library\<close> by (cases "?P q") (simp_all split: if_splits)
  qed
  ultimately show ?thesis using mid(2) by metis
qed

lemma scan_marks_exactly_unseen_witness:
  "list_all (\<lambda>r. ft_state r = ''Missing'') (db_files (run_writes (scan_steps 20 ''l'' 2 [])
     (empty_database [sample_file] [sample_library] [sample_agent])))
   \<and> hashes_of ''l'' (run_writes (scan_steps 20 ''l'' 2 []) (empty_database [sample_file] [sample_library] [sample_agent])) = {''h''}"
proof -
  let ?db = "empty_database [sample_file] [sample_library] [sample_agent]"
  have "hashes_of ''l'' ?db = {''h''}" "''l'' \<in> lt_id ` set (db_libraries ?db)"
    "\<forall>r \<in> set (db_files ?db). ft_library_id r = ''l'' \<longrightarrow> ft_scan_generation r < 2"
    by (auto simp: hashes_of_def empty_database_def sample_file_def)
  from scan_marks_exactly_unseen[OF this(2,3) _ refl, of "[]" 20] this(1)
  have "hashes_of ''l'' (run_writes (scan_steps 20 ''l'' 2 []) ?db) = {''h''}"
    "\<forall>r \<in> set (db_files (run_writes (scan_steps 20 ''l'' 2 []) ?db)). ft_library_id r = ''l'' \<longrightarrow> ft_state r = ''Missing''"
    by simp_all
  moreover have "\<forall>r \<in> set (db_files (run_writes (scan_steps 20 ''l'' 2 []) ?db)). ft_library_id r = ''l''"
    by (simp add: scan_steps_def mark_missing_op_def apply_op_def op_run_new_op sql_update_def empty_database_def sample_file_def)
  ultimately show ?thesis by (simp add: list_all_iff)
qed

end
