(* ===== verification/Writer.thy ===== *)
theory Writer
  imports Commit_Intent Trash Agent_Store Library_Store File_Store
begin

text \<open>
  The single writer (\<open>crates/transcodarr-store/src/writer.rs\<close>): lanes, the draining of what is
  queued into a batch, the application of a batch with one savepoint per operation, and the
  poison list. The thread and its channel appear as the list of batches its iterations drained, each
  in arrival order; the clock readings, the outcome of opening a savepoint and the rendering of an
  error as text are arguments. Releasing a savepoint and rolling back to it are taken to succeed.
\<close>

section \<open>State\<close>

datatype write_lane = WL_Bulk | WL_Normal | WL_Commit

text \<open>The derived order of the lanes.\<close>

fun lane_rank :: "write_lane \<Rightarrow> int" where
  "lane_rank WL_Bulk = 0"
| "lane_rank WL_Normal = 1"
| "lane_rank WL_Commit = 2"

record envelope =
  env_lane :: write_lane
  env_op :: write_op

record poisoned =
  po_name :: string
  po_failures :: nat
  po_last_error :: string

record writer =
  wr_db :: database
  wr_failures :: "(string \<times> nat) list"
  wr_poison :: "poisoned list"
  wr_sync_full :: bool

definition poison_after_failures :: nat where
  "poison_after_failures = 3"

definition start_writer :: "database \<Rightarrow> writer" where
  "start_writer db = \<lparr> wr_db = db, wr_failures = [], wr_poison = [], wr_sync_full = False \<rparr>"

type_synonym reply = "store_error + write_ack"

section \<open>Applying a batch\<close>

text \<open>The first entry of the list with this name is updated; without one, an entry is added.\<close>

fun note_poison :: "string \<Rightarrow> nat \<Rightarrow> string \<Rightarrow> poisoned list \<Rightarrow> poisoned list" where
  "note_poison name n err [] = [\<lparr> po_name = name, po_failures = n, po_last_error = err \<rparr>]"
| "note_poison name n err (p # ps) =
     (if po_name p = name then p\<lparr> po_failures := n, po_last_error := err \<rparr> # ps
      else p # note_poison name n err ps)"

definition record_failed :: "(store_error \<Rightarrow> string) \<Rightarrow> string \<Rightarrow> store_error \<Rightarrow> writer \<Rightarrow> writer" where
  "record_failed render name e w =
     (let count = or_default 0 (map_of (wr_failures w) name) + 1;
          w = w\<lparr> wr_failures := AList.update name count (wr_failures w) \<rparr>
      in if poison_after_failures \<le> count
         then w\<lparr> wr_poison := note_poison name count (render e) (wr_poison w) \<rparr> else w)"

definition apply_one :: "(store_error \<Rightarrow> string) \<Rightarrow> store_error option \<Rightarrow> i64 \<Rightarrow> envelope \<Rightarrow> writer \<Rightarrow> reply \<times> writer" where
  "apply_one render sp now env w =
     (case sp of
        Some e \<Rightarrow> (Inl e, w)
      | None \<Rightarrow>
          (case apply_op (env_op env) now (wr_db w) of
             (Inr ack, db) \<Rightarrow> (Inr ack, w\<lparr> wr_db := db \<rparr>)
           | (Inl e, db) \<Rightarrow> (Inl e, record_failed render (op_name (env_op env)) e (w\<lparr> wr_db := db \<rparr>))))"

text \<open>\<open>sp i\<close> and \<open>clock i\<close> are what the \<open>i\<close>-th operation of the batch met.\<close>

fun apply_loop :: "(store_error \<Rightarrow> string) \<Rightarrow> (nat \<Rightarrow> store_error option) \<Rightarrow> (nat \<Rightarrow> i64) \<Rightarrow> nat
    \<Rightarrow> envelope list \<Rightarrow> writer \<Rightarrow> reply list \<times> writer" where
  "apply_loop render sp clock i [] w = ([], w)"
| "apply_loop render sp clock i (env # envs) w =
     (let (r, w) = apply_one render (sp i) (clock i) env w;
          (rs, w) = apply_loop render sp clock (Suc i) envs w
      in (r # rs, w))"

definition apply_batch :: "(store_error \<Rightarrow> string) \<Rightarrow> (nat \<Rightarrow> store_error option) \<Rightarrow> (nat \<Rightarrow> i64)
    \<Rightarrow> envelope list \<Rightarrow> writer \<Rightarrow> reply list \<times> writer" where
  "apply_batch render sp clock batch w =
     apply_loop render sp clock 0 batch
       (w\<lparr> wr_sync_full := list_ex (\<lambda>e. env_lane e = WL_Commit) batch \<rparr>)"

definition drain :: "envelope list \<Rightarrow> envelope list" where
  "drain pending = sort_key (\<lambda>e. - lane_rank (env_lane e)) pending"

record iteration =
  tn_savepoints :: "nat \<Rightarrow> store_error option"
  tn_clock :: "nat \<Rightarrow> i64"
  tn_pending :: "envelope list"

text \<open>One turn of the loop applies what it drained, if there is anything.\<close>

definition writer_turn :: "(store_error \<Rightarrow> string) \<Rightarrow> iteration \<Rightarrow> writer \<Rightarrow> reply list \<times> writer" where
  "writer_turn render t w =
     (if tn_pending t = [] then ([], w)
      else apply_batch render (tn_savepoints t) (tn_clock t) (drain (tn_pending t)) w)"

fun writer_loop :: "(store_error \<Rightarrow> string) \<Rightarrow> iteration list \<Rightarrow> writer \<Rightarrow> reply list list \<times> writer" where
  "writer_loop render [] w = ([], w)"
| "writer_loop render (t # ts) w =
     (let (rs, w) = writer_turn render t w; (rss, w) = writer_loop render ts w in (rs # rss, w))"

definition poisoned_names :: "writer \<Rightarrow> string list" where
  "poisoned_names w = map po_name (wr_poison w)"

section \<open>Order of a batch\<close>

lemma mset_drain [simp]: "mset (drain p) = mset p" "set (drain p) = set p"
  by (simp_all add: drain_def)

lemma lane_rank_inj: "lane_rank a = lane_rank b \<longleftrightarrow> a = b"
  by (cases a; cases b) simp_all

lemma drain_stable: "filter (\<lambda>e. env_lane e = l) (drain p) = filter (\<lambda>e. env_lane e = l) p"
proof -
  have "filter (\<lambda>e. - lane_rank (env_lane e) = - lane_rank l) (drain p)
      = filter (\<lambda>e. - lane_rank (env_lane e) = - lane_rank l) p"
    unfolding drain_def by (rule sort_key_stable)
  then show ?thesis by (simp add: lane_rank_inj)
qed

lemma drain_highest_first: "i < j \<Longrightarrow> j < length (drain p) \<Longrightarrow>
    lane_rank (env_lane (drain p ! j)) \<le> lane_rank (env_lane (drain p ! i))"
  using sorted_nth_mono[of "map (\<lambda>e. - lane_rank (env_lane e)) (drain p)" i j] by (simp add: drain_def)

section \<open>Isolation\<close>

text \<open>The operations a batch accepted, with their clock readings, in the order they ran.\<close>

fun accepted :: "(nat \<Rightarrow> i64) \<Rightarrow> nat \<Rightarrow> envelope list \<Rightarrow> reply list \<Rightarrow> (i64 \<times> write_op) list" where
  "accepted clock i (env # envs) (Inr a # rs) = (clock i, env_op env) # accepted clock (Suc i) envs rs"
| "accepted clock i (env # envs) (Inl e # rs) = accepted clock (Suc i) envs rs"
| "accepted clock i envs rs = []"

lemma record_failed_db [simp]: "wr_db (record_failed render n e w) = wr_db w"
  "wr_sync_full (record_failed render n e w) = wr_sync_full w"
  by (simp_all add: record_failed_def Let_def)

lemma apply_one_reply:
  "apply_one render sp now env w = (r, w') \<Longrightarrow>
   r = (case sp of Some e \<Rightarrow> Inl e | None \<Rightarrow> fst (apply_op (env_op env) now (wr_db w)))
   \<and> wr_db w' = (case r of Inr a \<Rightarrow> snd (apply_op (env_op env) now (wr_db w)) | Inl e \<Rightarrow> wr_db w)
   \<and> wr_sync_full w' = wr_sync_full w"
  by (auto simp: apply_one_def apply_op_def split: option.splits prod.splits sum.splits)

lemma apply_loop_isolated:
  "apply_loop render sp clock i envs w = (rs, w') \<Longrightarrow>
   length rs = length envs \<and> wr_db w' = run_writes (accepted clock i envs rs) (wr_db w)
   \<and> wr_sync_full w' = wr_sync_full w
   \<and> (\<forall>k < length envs. rs ! k = (case sp (i + k) of Some e \<Rightarrow> Inl e | None \<Rightarrow>
        fst (apply_op (env_op (envs ! k)) (clock (i + k))
          (run_writes (accepted clock i (take k envs) (take k rs)) (wr_db w)))))"
proof (induction envs arbitrary: i w rs w')
  case (Cons env envs)
  obtain r w1 where 1: "apply_one render (sp i) (clock i) env w = (r, w1)" by (metis prod.exhaust)
  obtain rs' w2 where 2: "apply_loop render sp clock (Suc i) envs w1 = (rs', w2)" by (metis prod.exhaust)
  have e: "rs = r # rs'" "w' = w2" using Cons.prems by (simp_all add: 1 2)
  note a = apply_one_reply[OF 1] and ih = Cons.IH[OF 2]
  have db1: "run_writes (accepted clock i (env # xs) (r # ys)) (wr_db w) = run_writes (accepted clock (Suc i) xs ys) (wr_db w1)"
    for xs ys using a[THEN conjunct2, THEN conjunct1] by (cases r) simp_all
  have "rs ! k = (case sp (i + k) of Some e \<Rightarrow> Inl e | None \<Rightarrow>
        fst (apply_op (env_op ((env # envs) ! k)) (clock (i + k))
          (run_writes (accepted clock i (take k (env # envs)) (take k rs)) (wr_db w))))"
    if k: "k < length (env # envs)" for k
  proof (cases k)
    case 0 then show ?thesis using a by (cases "sp i") (simp_all add: e)
  next
    case (Suc m)
    then show ?thesis using ih k db1 by (cases "sp (i + k)") (simp_all add: e)
  qed
  then show ?case using ih a db1 by (simp add: e)
qed simp
lemma apply_batch_isolated:
  assumes "apply_batch render sp clock envs w = (rs, w')"
  shows "length rs = length envs" "wr_db w' = run_writes (accepted clock 0 envs rs) (wr_db w)"
    "wr_sync_full w' = list_ex (\<lambda>e. env_lane e = WL_Commit) envs"
    "k < length envs \<Longrightarrow> rs ! k = (case sp k of Some e \<Rightarrow> Inl e | None \<Rightarrow>
        fst (apply_op (env_op (envs ! k)) (clock k) (run_writes (accepted clock 0 (take k envs) (take k rs)) (wr_db w))))"
  using apply_loop_isolated[OF assms[unfolded apply_batch_def]] by (auto split: option.split)

section \<open>Poison\<close>

definition failed_names :: "envelope list \<Rightarrow> reply list \<Rightarrow> string list" where
  "failed_names envs rs = map (\<lambda>(e, r). op_name (env_op e)) (filter (\<lambda>(e, r). \<exists>x. r = Inl x) (zip envs rs))"

lemma failed_names_simps [simp]: "failed_names [] rs = []"
  "failed_names (e # es) (Inl x # rs) = op_name (env_op e) # failed_names es rs"
  "failed_names (e # es) (Inr a # rs) = failed_names es rs"
  by (simp_all add: failed_names_def)

text \<open>The failure counts and the poison list agree with a list of failed names.\<close>

definition poison_agrees :: "writer \<Rightarrow> string list \<Rightarrow> bool" where
  "poison_agrees w fails \<longleftrightarrow>
     (\<forall>n. or_default 0 (map_of (wr_failures w) n) = count_list fails n)
   \<and> distinct (poisoned_names w)
   \<and> (\<forall>p \<in> set (wr_poison w). po_failures p = count_list fails (po_name p))
   \<and> (\<forall>n. n \<in> set (poisoned_names w) \<longleftrightarrow> 3 \<le> count_list fails n)"

lemma names_note_poison:
  "map po_name (note_poison n k err ps) = map po_name ps @ (if n \<in> po_name ` set ps then [] else [n])"
  by (induction ps) auto

lemma failures_note_poison:
  "distinct (map po_name ps) \<Longrightarrow> p \<in> set (note_poison n k err ps) \<Longrightarrow>
   po_failures p = k \<and> po_name p = n \<or> p \<in> set ps \<and> po_name p \<noteq> n"
  by (induction ps) (auto split: if_splits, metis image_eqI)

lemma count_list_snoc: "count_list (fails @ [n]) m = count_list fails m + (if m = n then 1 else 0)"
  by (induction fails) auto

lemma record_failed_agrees:
  assumes "poison_agrees w fails"
  shows "poison_agrees (record_failed render n e w) (fails @ [n])"
proof -
  have cnt: "or_default 0 (map_of (wr_failures w) n) = count_list fails n" using assms by (simp add: poison_agrees_def)
  have fl: "or_default 0 (map_of (wr_failures (record_failed render n e w)) m) = count_list (fails @ [n]) m" for m
    using assms by (simp add: record_failed_def Let_def poison_agrees_def count_list_snoc)
  show ?thesis
  proof (cases "3 \<le> count_list fails n + 1")
    case True
    then have p: "wr_poison (record_failed render n e w) = note_poison n (count_list fails n + 1) (render e) (wr_poison w)"
      by (simp add: record_failed_def Let_def cnt poison_after_failures_def)
    have "poisoned_names (record_failed render n e w)
        = poisoned_names w @ (if n \<in> set (poisoned_names w) then [] else [n])"
      by (simp add: poisoned_names_def p names_note_poison)
    moreover have "po_failures q = count_list (fails @ [n]) (po_name q)"
      if "q \<in> set (wr_poison (record_failed render n e w))" for q
      using failures_note_poison[OF _ that[unfolded p]] assms
      by (auto simp: poison_agrees_def poisoned_names_def count_list_snoc)
    ultimately show ?thesis using assms True fl by (auto simp: poison_agrees_def count_list_snoc)
  next
    case False
    then have "wr_poison (record_failed render n e w) = wr_poison w"
      by (simp add: record_failed_def Let_def cnt poison_after_failures_def)
    moreover have "n \<notin> set (poisoned_names w)" using assms False by (simp add: poison_agrees_def)
    then have "po_name q \<noteq> n" if "q \<in> set (wr_poison w)" for q using that by (auto simp: poisoned_names_def)
    ultimately show ?thesis using assms False fl
      by (auto simp: poison_agrees_def poisoned_names_def)
  qed
qed

lemma poison_agrees_cong:
  "wr_failures w' = wr_failures w \<Longrightarrow> wr_poison w' = wr_poison w \<Longrightarrow> poison_agrees w' fails = poison_agrees w fails"
  by (simp add: poison_agrees_def poisoned_names_def)

lemma apply_loop_poison:
  "apply_loop render (\<lambda>i. None) clock i envs w = (rs, w') \<Longrightarrow> poison_agrees w fails
   \<Longrightarrow> poison_agrees w' (fails @ failed_names envs rs)"
proof (induction envs arbitrary: i w rs fails)
  case (Cons env envs)
  obtain r w1 where 1: "apply_one render None (clock i) env w = (r, w1)" by (metis prod.exhaust)
  obtain rs' where 2: "apply_loop render (\<lambda>i. None) clock (Suc i) envs w1 = (rs', w')" and rs: "rs = r # rs'"
    using Cons.prems(1) by (auto simp: 1 split: prod.splits)
  show ?case
  proof (cases r)
    case (Inl e)
    then obtain db where "w1 = record_failed render (op_name (env_op env)) e (w\<lparr> wr_db := db \<rparr>)"
      using 1 by (auto simp: apply_one_def split: prod.splits sum.splits)
    then have "poison_agrees w1 (fails @ [op_name (env_op env)])"
      using record_failed_agrees Cons.prems(2) poison_agrees_cong[of "w\<lparr> wr_db := db \<rparr>" w] by simp
    from Cons.IH[OF 2 this] show ?thesis by (simp add: rs Inl)
  next
    case (Inr a)
    then have "wr_failures w1 = wr_failures w" "wr_poison w1 = wr_poison w"
      using 1 by (auto simp: apply_one_def split: prod.splits sum.splits)
    then have "poison_agrees w1 fails" using Cons.prems(2) poison_agrees_cong by blast
    from Cons.IH[OF 2 this] show ?thesis by (simp add: rs Inr)
  qed
qed simp

lemma writer_turn_poison:
  assumes "writer_turn render t w = (rs, w')" "tn_savepoints t = (\<lambda>i. None)" "poison_agrees w fails"
  shows "poison_agrees w' (fails @ failed_names (drain (tn_pending t)) rs)"
proof (cases "tn_pending t = []")
  case True then show ?thesis using assms by (simp add: writer_turn_def drain_def)
next
  case False
  then have l: "apply_loop render (\<lambda>i. None) (tn_clock t) 0 (drain (tn_pending t))
      (w\<lparr> wr_sync_full := list_ex (\<lambda>e. env_lane e = WL_Commit) (drain (tn_pending t)) \<rparr>) = (rs, w')"
    using assms(1,2) by (simp add: writer_turn_def apply_batch_def)
  show ?thesis by (rule apply_loop_poison[OF l]) (use assms(3) in \<open>simp add: poison_agrees_def poisoned_names_def\<close>)
qed

lemma writer_loop_poison:
  "writer_loop render ts w = (rss, w') \<Longrightarrow> \<forall>t \<in> set ts. tn_savepoints t = (\<lambda>i. None) \<Longrightarrow> poison_agrees w fails
   \<Longrightarrow> poison_agrees w' (fails @ concat (map2 (\<lambda>t rs. failed_names (drain (tn_pending t)) rs) ts rss))"
proof (induction ts arbitrary: w rss fails)
  case (Cons t ts)
  obtain rs w1 where 1: "writer_turn render t w = (rs, w1)" by (metis prod.exhaust)
  obtain rss' where 2: "writer_loop render ts w1 = (rss', w')" and rss: "rss = rs # rss'"
    using Cons.prems(1) by (auto simp: 1 split: prod.splits)
  have "poison_agrees w1 (fails @ failed_names (drain (tn_pending t)) rs)"
    by (rule writer_turn_poison[OF 1]) (use Cons.prems in auto)
  from Cons.IH[OF 2 _ this] Cons.prems(2) show ?case by (simp add: rss)
qed simp

section \<open>Invariants through the writer\<close>

context guarded_writes
begin

lemma loop_kept:
  "apply_loop render sp clock i envs w = (rs, w') \<Longrightarrow> \<forall>e \<in> set envs. env_op e \<in> ops \<Longrightarrow> inv (wr_db w) \<Longrightarrow> inv (wr_db w')"
proof (induction envs arbitrary: i w rs)
  case (Cons env envs)
  obtain r w1 where 1: "apply_one render (sp i) (clock i) env w = (r, w1)" by (metis prod.exhaust)
  have "inv (wr_db w1)"
    using apply_one_reply[OF 1] apply_kept[of "env_op env" "wr_db w" "clock i"] Cons.prems(2,3) by (cases r) auto
  then show ?case using Cons.IH[of "Suc i" w1] Cons.prems by (auto simp: 1 split: prod.splits)
qed simp

lemma writer_kept:
  "\<forall>t \<in> set ts. \<forall>e \<in> set (tn_pending t). env_op e \<in> ops \<Longrightarrow> inv (wr_db w) \<Longrightarrow> inv (wr_db (snd (writer_loop render ts w)))"
proof (induction ts arbitrary: w)
  case (Cons t ts)
  obtain rs w1 where 1: "writer_turn render t w = (rs, w1)" by (metis prod.exhaust)
  have "inv (wr_db w1)"
    using 1 Cons.prems loop_kept[of render "tn_savepoints t" "tn_clock t" 0 "drain (tn_pending t)"]
    by (auto simp: writer_turn_def apply_batch_def split: if_splits)
  then show ?case using Cons.IH[of w1] Cons.prems by (simp add: 1 split_beta)
qed simp

end

text \<open>The operations of all repositories, and all their invariants together.\<close>

definition store_ok :: "database \<Rightarrow> bool" where
  "store_ok db \<longleftrightarrow> job_store_ok db \<and> intents_ok db \<and> trash_ok db \<and> agents_ok db \<and> libraries_ok db \<and> blocks_ok db \<and> files_ok db"

definition store_ops :: "write_op set" where
  "store_ops = ledger_ops \<union> trash_ops \<union> agent_ops \<union> library_ops \<union> block_ops \<union> file_ops"

lemma store_opsI [simp]:
  "op \<in> job_ops \<Longrightarrow> op \<in> store_ops" "op \<in> intent_ops \<Longrightarrow> op \<in> store_ops" "op \<in> trash_ops \<Longrightarrow> op \<in> store_ops"
  "op \<in> agent_ops \<Longrightarrow> op \<in> store_ops" "op \<in> library_ops \<Longrightarrow> op \<in> store_ops" "op \<in> block_ops \<Longrightarrow> op \<in> store_ops"
  "op \<in> file_ops \<Longrightarrow> op \<in> store_ops"
  by (simp_all add: store_ops_def ledger_ops_def)

lemma job_store_ok_mono:
  assumes "job_store_ok db" "db_jobs db' = db_jobs db" "db_events db' = db_events db" "db_event_seq db' = db_event_seq db"
    "ft_id ` set (db_files db) \<subseteq> ft_id ` set (db_files db')" "lt_id ` set (db_libraries db) \<subseteq> lt_id ` set (db_libraries db')"
    "at_id ` set (db_agents db) \<subseteq> at_id ` set (db_agents db')"
  shows "job_store_ok db'"
proof -
  have "job_parents db' r" if "job_parents db r" for r
    by (rule job_parents_mono[OF that assms(5-7)]) (simp add: assms(2))
  moreover have "job_moves i db' = job_moves i db" for i by (simp add: job_moves_def assms(3))
  ultimately show ?thesis using assms(1) by (simp add: job_store_ok_def assms(2-4))
qed

lemma other_ok_cong:
  "db_trash db' = db_trash db \<Longrightarrow> db_trash_seq db' = db_trash_seq db \<Longrightarrow> trash_ok db' = trash_ok db"
  "db_agents db' = db_agents db \<Longrightarrow> agents_ok db' = agents_ok db"
  "db_libraries db' = db_libraries db \<Longrightarrow> db_scans db' = db_scans db \<Longrightarrow> db_scan_seq db' = db_scan_seq db
     \<Longrightarrow> libraries_ok db' = libraries_ok db"
  by (simp_all add: trash_ok_def agents_ok_def libraries_ok_def)

lemma blocks_ok_mono:
  "blocks_ok db \<Longrightarrow> db_blocks db' = db_blocks db \<Longrightarrow> jt_id ` set (db_jobs db) \<subseteq> jt_id ` set (db_jobs db') \<Longrightarrow> blocks_ok db'"
  by (auto simp: blocks_ok_def)

lemma files_ok_mono:
  "files_ok db \<Longrightarrow> db_files db' = db_files db \<Longrightarrow> db_file_seq db' = db_file_seq db
   \<Longrightarrow> lt_id ` set (db_libraries db) \<subseteq> lt_id ` set (db_libraries db') \<Longrightarrow> files_ok db'"
  by (auto simp: files_ok_def file_row_ok_def)

lemma job_op_effect:
  assumes "op \<in> job_ops" "op_run op now db = (Inr ack, db')"
  shows "\<exists>js es n. db' = db\<lparr> db_jobs := js, db_events := es, db_event_seq := n \<rparr> \<and> jt_id ` set (db_jobs db) \<subseteq> jt_id ` set js"
proof -
  have upd: "jt_id ` set (db_jobs db1) = jt_id ` set (db_jobs db)"
    if "update_job P f db = Inr (n, db1)" "\<And>r. jt_id (f r) = jt_id r" for P f n db1
  proof -
    have "map jt_id (db_jobs db1) = map jt_id (db_jobs db)" unfolding update_job_Inr(1)[OF that(1)] using that(2) by simp
    from arg_cong[OF this, of set] show ?thesis by simp
  qed
  have d: "db' = db\<lparr> db_jobs := db_jobs db', db_events := db_events db', db_event_seq := db_event_seq db' \<rparr>"
    using assms
    by (auto simp: job_ops_def op_run_new_op create_op_def bump_attempt_op_def assign_op_def transition_op_def
        dest!: update_job_Inr(1) insert_job_Inr(1) insert_event_Inr(1) split: sum.splits prod.splits if_splits)
  from assms(1) consider (create) j where "op = create_op j" | (bump) i where "op = bump_attempt_op i"
    | (assign) i a e where "op = assign_op i a e" | (move) i f t r x where "op = transition_op i f t r x"
    unfolding job_ops_def by blast
  then have "jt_id ` set (db_jobs db) \<subseteq> jt_id ` set (db_jobs db')"
  proof cases
    case create
    then show ?thesis using assms(2)
      by (auto simp: op_run_new_op create_op_def dest!: insert_job_Inr(1) insert_event_Inr(1) split: sum.splits)
  next
    case bump
    then obtain n where "update_job (\<lambda>r. jt_id r = i) (\<lambda>r. r\<lparr> jt_attempt := jt_attempt r + 1, jt_updated := now \<rparr>) db = Inr (n, db')"
      using assms(2) by (auto simp: op_run_new_op bump_attempt_op_def split: sum.splits)
    from upd[OF this] show ?thesis by simp
  next
    case assign
    then obtain n P f db1 where "update_job P f db = Inr (n, db1)" "\<And>r. jt_id (f r) = jt_id r" "db_jobs db' = db_jobs db1"
      using assms(2) by (auto simp: op_run_new_op assign_op_def dest!: insert_event_Inr(1) split: sum.splits if_splits)
    from upd[OF this(1,2)] this(3) show ?thesis by simp
  next
    case (move i a b r x)
    then obtain n P db1 where "update_job P (transition_row (job_state_as_str b) now r) db = Inr (n, db1)" "db_jobs db' = db_jobs db1"
      using assms(2) by (auto simp: op_run_new_op transition_op_def dest!: insert_event_Inr(1) split: sum.splits if_splits)
    from upd[OF this(1)] this(2) show ?thesis by (simp add: transition_row_def)
  qed
  with d show ?thesis by blast
qed

interpretation store_writes: guarded_writes store_ok store_ops
proof
  fix op db now ack db'
  assume "op \<in> store_ops" and ok: "store_ok db" and run: "op_run op now db = (Inr ack, db')"
  then consider (job) "op \<in> job_ops" | (intent) "op \<in> intent_ops" | (trash) "op \<in> trash_ops" | (agent) "op \<in> agent_ops"
    | (library) "op \<in> library_ops" | (block) "op \<in> block_ops" | (files) "op \<in> file_ops"
    by (auto simp: store_ops_def ledger_ops_def)
  then show "store_ok db'"
  proof cases
    case job
    then obtain js es n where d: "db' = db\<lparr> db_jobs := js, db_events := es, db_event_seq := n \<rparr>"
      "jt_id ` set (db_jobs db) \<subseteq> jt_id ` set js" using job_op_effect[OF _ run] by blast
    have "job_store_ok db'" using job_writes.kept[OF job _ run] ok by (simp add: store_ok_def)
    then show ?thesis using ok intents_ok_cong[of db' db] other_ok_cong[of db' db] blocks_ok_mono[of db db'] files_ok_mono[of db db']
      unfolding store_ok_def by (simp add: d)
  next
    case intent
    then obtain rows where d: "db' = db\<lparr> db_intents := rows \<rparr>" using intent_op_frame[OF _ run] by blast
    have "op \<in> ledger_ops" using intent by (simp add: ledger_ops_def)
    then have "job_store_ok db' \<and> intents_ok db'" using intent_writes.kept[OF _ _ run] ok by (simp add: store_ok_def)
    then show ?thesis using ok other_ok_cong[of db' db] blocks_ok_mono[of db db'] files_ok_mono[of db db']
      unfolding store_ok_def by (simp add: d)
  next
    case trash
    then obtain rows n where d: "db' = db\<lparr> db_trash := rows, db_trash_seq := n \<rparr>" using trash_op_frame[OF _ run] by blast
    have "trash_ok db'" using trash_writes.kept[OF trash _ run] ok by (simp add: store_ok_def)
    then show ?thesis using ok job_store_ok_mono[of db db'] intents_ok_cong[of db' db] other_ok_cong(2,3)[of db' db]
        blocks_ok_mono[of db db'] files_ok_mono[of db db']
      unfolding store_ok_def by (simp add: d)
  next
    case agent
    then obtain rows h n where d: "db' = db\<lparr> db_agents := rows, db_history := h, db_history_seq := n \<rparr>"
      "at_id ` set (db_agents db) \<subseteq> at_id ` set rows" using agent_op_frame[OF _ run] by blast
    have "agents_ok db'" using agent_writes.kept[OF agent _ run] ok by (simp add: store_ok_def)
    then show ?thesis using ok job_store_ok_mono[of db db'] intents_ok_cong[of db' db] other_ok_cong(1,3)[of db' db]
        blocks_ok_mono[of db db'] files_ok_mono[of db db']
      unfolding store_ok_def by (simp add: d)
  next
    case library
    then obtain ls ss n where d: "db' = db\<lparr> db_libraries := ls, db_scans := ss, db_scan_seq := n \<rparr>"
      "lt_id ` set (db_libraries db) \<subseteq> lt_id ` set ls" using library_op_frame[OF _ run] by blast
    have "libraries_ok db'" using library_writes.kept[OF library _ run] ok by (simp add: store_ok_def)
    then show ?thesis using ok job_store_ok_mono[of db db'] intents_ok_cong[of db' db] other_ok_cong(1,2)[of db' db]
        blocks_ok_mono[of db db'] files_ok_mono[of db db']
      unfolding store_ok_def by (simp add: d)
  next
    case block
    then obtain bs where d: "db' = db\<lparr> db_blocks := bs \<rparr>" using block_op_frame[OF _ run] by blast
    have "blocks_ok db'" using block_writes.kept[OF block _ run] ok by (simp add: store_ok_def)
    then show ?thesis using ok job_store_ok_mono[of db db'] intents_ok_cong[of db' db] other_ok_cong[of db' db]
        files_ok_mono[of db db']
      unfolding store_ok_def by (simp add: d)
  next
    case files
    then obtain fs n where d: "db' = db\<lparr> db_files := fs, db_file_seq := n \<rparr>"
      "ft_id ` set (db_files db) \<subseteq> ft_id ` set fs" using file_op_frame[OF _ run] by blast
    have "files_ok db'" using file_writes.kept[OF files _ run] ok by (simp add: store_ok_def)
    then show ?thesis using ok job_store_ok_mono[of db db'] intents_ok_cong[of db' db] other_ok_cong[of db' db]
        blocks_ok_mono[of db db']
      unfolding store_ok_def by (simp add: d)
  qed
qed

section \<open>Properties\<close>


definition sample_pending :: "envelope list" where
  "sample_pending = [\<lparr> env_lane = WL_Normal, env_op = create_op sample_new_job \<rparr>,
     \<lparr> env_lane = WL_Commit, env_op = grant_op (sample_intent ''j:0'') \<rparr>,
     \<lparr> env_lane = WL_Normal, env_op = transition_op ''j'' Pending Eligible None None \<rparr>]"


text \<open>
  The poison list is exact: when savepoints open, a name is on it exactly when at least three
  operations of that name have failed since the writer started, and its entry counts them all.
\<close>

theorem poison_after_three_failures:
  assumes "writer_loop render ts (start_writer db) = (rss, w)"
    and "\<forall>t \<in> set ts. tn_savepoints t = (\<lambda>i. None)"
    and "fails = concat (map2 (\<lambda>t rs. failed_names (drain (tn_pending t)) rs) ts rss)"
  shows "(n \<in> set (poisoned_names w) \<longleftrightarrow> 3 \<le> count_list fails n)
       \<and> (\<forall>p \<in> set (wr_poison w). po_failures p = count_list fails (po_name p))"
proof -
  have "poison_agrees (start_writer db) []" by (simp add: poison_agrees_def start_writer_def poisoned_names_def)
  from writer_loop_poison[OF assms(1,2) this] assms(3) show ?thesis by (simp add: poison_agrees_def)
qed

definition sample_failing :: iteration where
  "sample_failing = \<lparr> tn_savepoints = (\<lambda>i. None), tn_clock = int,
     tn_pending = replicate 3 \<lparr> env_lane = WL_Bulk, env_op = transition_op ''j'' Running Succeeded None None \<rparr> \<rparr>"

lemma poison_after_three_failures_witness:
  "''job.transition:j'' \<in> set (poisoned_names (snd (writer_loop (\<lambda>e. '''') [sample_failing]
      (start_writer (empty_database [] [] [])))))"
proof -
  let ?run = "writer_loop (\<lambda>e. '''') [sample_failing] (start_writer (empty_database [] [] []))"
  have fail: "apply_op (transition_op ''j'' Running Succeeded None None) now db
      = (Inl (SE_IllegalTransition ''j'' ''Running'' ''Succeeded''), db)" for now db
    by (simp add: apply_op_def transition_op_def op_run_new_op can_transition_def is_terminal_def)
  have name: "op_name (transition_op ''j'' Running Succeeded None None) = ''job.transition:j''"
    by (simp add: transition_op_def)
  have "fst ?run = [replicate 3 (Inl (SE_IllegalTransition ''j'' ''Running'' ''Succeeded''))]"
    by (simp add: writer_turn_def sample_failing_def apply_batch_def drain_def apply_one_def fail numeral_3_eq_3
        split: prod.splits)
  then obtain w where r: "?run = ([replicate 3 (Inl (SE_IllegalTransition ''j'' ''Running'' ''Succeeded''))], w)"
    by (metis fst_conv prod.exhaust)
  have sp: "\<forall>t \<in> set [sample_failing]. tn_savepoints t = (\<lambda>i. None)" by (simp add: sample_failing_def)
  show ?thesis
    unfolding r snd_conv poison_after_three_failures[OF r sp refl, THEN conjunct1]
    by (simp add: sample_failing_def drain_def numeral_3_eq_3 name)
qed

text \<open>
  C20. The store's promises survive the writer: whatever operations of the repositories are queued
  against an empty database, in whatever lanes, however the writer groups them, whichever fail and
  whichever savepoint does not open, afterwards no two jobs that have not ended share a file, no two
  live intents a final path, no two file rows of a library a path, no two of its scans a generation,
  and no retained original has a purge time within six hours of its retention.
\<close>

theorem store_promises_survive:
  assumes "\<forall>t \<in> set ts. \<forall>e \<in> set (tn_pending t). env_op e \<in> store_ops"
    and "db = wr_db (snd (writer_loop render ts (start_writer (empty_database [] [] []))))"
  shows "(\<forall>i k j j'. get_job i db = Inr j \<longrightarrow> get_job k db = Inr j' \<longrightarrow> jr_file_id j = jr_file_id j'
            \<longrightarrow> \<not> is_terminal (jr_state j) \<longrightarrow> \<not> is_terminal (jr_state j') \<longrightarrow> j = j')
       \<and> distinct (map it_final_path (live_intents db))
       \<and> (\<forall>t \<in> set (db_trash db). tt_at t + 21600 \<le> tt_purge_after t)
       \<and> distinct (map (\<lambda>r. (ft_library_id r, ft_path_hash r)) (db_files db))
       \<and> distinct (map (\<lambda>r. (st_library_id r, st_scan_generation r)) (db_scans db))"
proof -
  have "store_ok (empty_database [] [] [])" 
    by (simp add: store_ok_def, simp add: agents_ok_def libraries_ok_def blocks_ok_def files_ok_def empty_database_def)
  then have ok: "store_ok db"
    using store_writes.writer_kept[OF assms(1), of "start_writer (empty_database [] [] [])"] assms(2)
    by (simp add: start_writer_def)
  have "j = j'" if g: "get_job i db = Inr j" "get_job k db = Inr j'" "jr_file_id j = jr_file_id j'"
    "\<not> is_terminal (jr_state j)" "\<not> is_terminal (jr_state j')" for i k j j'
  proof -
    from g(1) obtain r where r: "r \<in> set (db_jobs db)" "from_row r = Inr j" by (rule get_job_Inr)
    from g(2) obtain r' where r': "r' \<in> set (db_jobs db)" "from_row r' = Inr j'" by (rule get_job_Inr)
    have inj: "inj_on jt_file_id (set (filter row_open (db_jobs db)))"
      using ok by (simp add: store_ok_def job_store_ok_def distinct_map)
    have "r = r'"
      by (rule inj_onD[OF inj]) (use r r' g row_open_iff from_row_Inr in auto)
    then show ?thesis using r r' by simp
  qed
  moreover have "distinct (map it_final_path (live_intents db))"
    unfolding live_intents_def distinct_map using ok by (simp add: store_ok_def intents_ok_def distinct_map)
  moreover have "\<forall>t \<in> set (db_trash db). tt_at t + 21600 \<le> tt_purge_after t"
    using ok by (auto simp: store_ok_def trash_ok_def min_grace_seconds_def)
  moreover have "distinct (map (\<lambda>r. (ft_library_id r, ft_path_hash r)) (db_files db))"
    "distinct (map (\<lambda>r. (st_library_id r, st_scan_generation r)) (db_scans db))"
    using ok by (simp_all add: store_ok_def files_ok_def libraries_ok_def)
  ultimately show ?thesis by blast
qed

lemma store_promises_survive_witness:
  "distinct (map it_final_path (live_intents (wr_db (snd (writer_loop (\<lambda>e. '''')
     [\<lparr> tn_savepoints = (\<lambda>i. None), tn_clock = int, tn_pending = sample_pending \<rparr>]
     (start_writer (empty_database [] [] [])))))))"
proof -
  have "\<forall>t \<in> set [\<lparr> tn_savepoints = (\<lambda>i. None), tn_clock = int, tn_pending = sample_pending \<rparr>].
      \<forall>e \<in> set (tn_pending t). env_op e \<in> store_ops"
    by (simp add: sample_pending_def)
  from store_promises_survive[OF this refl] show ?thesis by blast
qed

end
