(* ===== verification/Agent_Fs.thy ===== *)
theory Agent_Fs
  imports Paths Prelude
begin

text \<open>
  What an agent's file operations run on: the regular files it sees, the files of its journal
  directory, and an environment that decides for every system call whether it proceeds, fails or is
  never made because the process died. Programs of system calls are state transformers with three
  outcomes, and the rules of a small logic for them keep one invariant at every point a program can
  stop. Directories are not files here: a missing one is a failure the environment chooses. The
  model is of the death of the process; the loss of unsynchronised data with the machine's power is
  not modelled.
\<close>

section \<open>World and environment\<close>

datatype io_error = IO_NotFound | IO_Other string

fun show_io :: "io_error \<Rightarrow> string" where
  "show_io IO_NotFound = ''No such file or directory (os error 2)''"
| "show_io (IO_Other s) = s"

record fs_file =
  fl_bytes :: string
  fl_mtime :: "i64 option"
  fl_inode :: "u64 option"

text \<open>How far the ritual had got (\<open>journal.rs\<close>, \<open>IntentPhase\<close>), and one journal record.\<close>

datatype intent_phase = Granted | Retired | Installed

record intent_record =
  ir_job_id :: string
  ir_attempt :: i64
  ir_agent_uid :: string
  ir_boot_id :: string
  ir_fencing_epoch :: i64
  ir_temp_path :: path
  ir_final_path :: path
  ir_trash_path :: path
  ir_content_sig :: string
  ir_phase :: intent_phase

text \<open>A journal file holds a whole record, or what a write that did not finish left.\<close>

datatype journal_file = Body intent_record | Torn

record world =
  wd_calls :: nat
  wd_files :: "(path \<times> fs_file) list"
  wd_journal :: "(string \<times> journal_file) list"

datatype event = Proceeds | Fails string | Crashes

type_synonym env = "nat \<Rightarrow> event"

datatype agent_error =
    AE_WorkArea path io_error
  | AE_Journal string io_error
  | AE_Commit string path io_error
  | AE_CrossDevice path path
  | AE_Execute string io_error
  | AE_Probe path string
  | AE_DeviceUnknowable path

datatype 'a outcome = Done 'a | Raised agent_error | Crashed

type_synonym 'a prog = "world \<Rightarrow> 'a outcome \<times> world"

section \<open>Programs\<close>

definition retP :: "'a \<Rightarrow> 'a prog" where
  "retP a w = (Done a, w)"

definition raiseP :: "agent_error \<Rightarrow> 'a prog" where
  "raiseP e w = (Raised e, w)"

definition bindP :: "'a prog \<Rightarrow> ('a \<Rightarrow> 'b prog) \<Rightarrow> 'b prog" where
  "bindP p f w = (case p w of
     (Done a, w') \<Rightarrow> f a w' | (Raised e, w') \<Rightarrow> (Raised e, w') | (Crashed, w') \<Rightarrow> (Crashed, w'))"

definition thenP :: "'a prog \<Rightarrow> 'b prog \<Rightarrow> 'b prog" where
  "thenP p q = bindP p (\<lambda>_. q)"

definition tick :: "world \<Rightarrow> world" where
  "tick w = w\<lparr> wd_calls := Suc (wd_calls w) \<rparr>"

text \<open>One system call: its effect \<open>act\<close> is what it does when the environment lets it.\<close>

definition call :: "env \<Rightarrow> (world \<Rightarrow> io_error + 'a \<times> world) \<Rightarrow> (io_error + 'a) prog" where
  "call env act w = (case env (wd_calls w) of
     Crashes \<Rightarrow> (Crashed, w)
   | Fails s \<Rightarrow> (Done (Inl (IO_Other s)), tick w)
   | Proceeds \<Rightarrow> (case act w of
        Inl e \<Rightarrow> (Done (Inl e), tick w) | Inr (a, w') \<Rightarrow> (Done (Inr a), tick w')))"

text \<open>A call whose error is returned, after being wrapped, and one whose error is ignored.\<close>

definition call_or :: "env \<Rightarrow> (world \<Rightarrow> io_error + 'a \<times> world) \<Rightarrow> (io_error \<Rightarrow> agent_error) \<Rightarrow> 'a prog" where
  "call_or env act wrap = bindP (call env act) (\<lambda>r. case r of Inl e \<Rightarrow> raiseP (wrap e) | Inr a \<Rightarrow> retP a)"

definition ignoring :: "env \<Rightarrow> (world \<Rightarrow> io_error + 'a \<times> world) \<Rightarrow> unit prog" where
  "ignoring env act = bindP (call env act) (\<lambda>r. retP ())"

section \<open>Effects of system calls\<close>

definition file_at :: "path \<Rightarrow> world \<Rightarrow> fs_file option" where
  "file_at p w = map_of (wd_files w) p"

definition journal_at :: "string \<Rightarrow> world \<Rightarrow> journal_file option" where
  "journal_at n w = map_of (wd_journal w) n"

definition act_nothing :: "world \<Rightarrow> io_error + unit \<times> world" where
  "act_nothing w = Inr ((), w)"

definition act_stat :: "path \<Rightarrow> world \<Rightarrow> io_error + fs_file \<times> world" where
  "act_stat p w = (case file_at p w of None \<Rightarrow> Inl IO_NotFound | Some f \<Rightarrow> Inr (f, w))"

definition act_rename :: "path \<Rightarrow> path \<Rightarrow> world \<Rightarrow> io_error + unit \<times> world" where
  "act_rename a b w = (case file_at a w of
     None \<Rightarrow> Inl IO_NotFound
   | Some f \<Rightarrow> Inr ((), w\<lparr> wd_files := AList.update b f (AList.delete a (wd_files w)) \<rparr>))"

definition act_remove :: "path \<Rightarrow> world \<Rightarrow> io_error + unit \<times> world" where
  "act_remove p w = (case file_at p w of
     None \<Rightarrow> Inl IO_NotFound
   | Some f \<Rightarrow> Inr ((), w\<lparr> wd_files := AList.delete p (wd_files w) \<rparr>))"

definition act_jopen :: "string \<Rightarrow> world \<Rightarrow> io_error + unit \<times> world" where
  "act_jopen n w = Inr ((), w\<lparr> wd_journal := AList.update n Torn (wd_journal w) \<rparr>)"

definition act_jwrite :: "string \<Rightarrow> intent_record \<Rightarrow> world \<Rightarrow> io_error + unit \<times> world" where
  "act_jwrite n r w = Inr ((), w\<lparr> wd_journal := AList.update n (Body r) (wd_journal w) \<rparr>)"

definition act_jrename :: "string \<Rightarrow> string \<Rightarrow> world \<Rightarrow> io_error + unit \<times> world" where
  "act_jrename a b w = (case journal_at a w of
     None \<Rightarrow> Inl IO_NotFound
   | Some f \<Rightarrow> Inr ((), w\<lparr> wd_journal := AList.update b f (AList.delete a (wd_journal w)) \<rparr>))"

definition act_jremove :: "string \<Rightarrow> world \<Rightarrow> io_error + unit \<times> world" where
  "act_jremove n w = (case journal_at n w of
     None \<Rightarrow> Inl IO_NotFound
   | Some f \<Rightarrow> Inr ((), w\<lparr> wd_journal := AList.delete n (wd_journal w) \<rparr>))"

definition act_jread :: "string \<Rightarrow> world \<Rightarrow> io_error + journal_file \<times> world" where
  "act_jread n w = (case journal_at n w of None \<Rightarrow> Inl IO_NotFound | Some f \<Rightarrow> Inr (f, w))"

definition act_jlist :: "world \<Rightarrow> io_error + string list \<times> world" where
  "act_jlist w = Inr (map fst (wd_journal w), w)"

text \<open>\<open>path.exists()\<close> and \<open>path.is_file()\<close>: false too when the file cannot be looked at.\<close>

definition existsP :: "env \<Rightarrow> path \<Rightarrow> bool prog" where
  "existsP env p = bindP (call env (act_stat p)) (\<lambda>r. retP (case r of Inl e \<Rightarrow> False | Inr f \<Rightarrow> True))"

section \<open>Logic\<close>

text \<open>
  From a world satisfying \<open>P\<close>, a program that returns \<open>a\<close> does so in a world satisfying \<open>Q a\<close>, and
  wherever it stops otherwise, with an error or by the death of the process, \<open>I\<close> holds.
\<close>

definition triple :: "(world \<Rightarrow> bool) \<Rightarrow> 'a prog \<Rightarrow> ('a \<Rightarrow> world \<Rightarrow> bool) \<Rightarrow> (world \<Rightarrow> bool) \<Rightarrow> bool" where
  "triple P p Q I \<longleftrightarrow> (\<forall>w. P w \<longrightarrow> (case p w of
     (Done a, w') \<Rightarrow> Q a w' | (Raised e, w') \<Rightarrow> I w' | (Crashed, w') \<Rightarrow> I w'))"

named_theorems triples \<open>rules for programs, applied backwards\<close>

lemma tripleI:
  "(\<And>w r w'. P w \<Longrightarrow> p w = (r, w') \<Longrightarrow> (case r of Done a \<Rightarrow> Q a w' | _ \<Rightarrow> I w')) \<Longrightarrow> triple P p Q I"
  by (fastforce simp: triple_def split: prod.splits outcome.splits)

lemma triple_conseq:
  "triple P p Q I \<Longrightarrow> (\<And>w. P' w \<Longrightarrow> P w) \<Longrightarrow> (\<And>a w. Q a w \<Longrightarrow> Q' a w) \<Longrightarrow> (\<And>w. I w \<Longrightarrow> I' w) \<Longrightarrow> triple P' p Q' I'"
  by (fastforce simp: triple_def split: prod.splits outcome.splits)

lemma triple_frame: "(C \<Longrightarrow> triple P p Q I) \<Longrightarrow> triple (\<lambda>w. P w \<and> C) p (\<lambda>a w. Q a w \<and> C) I"
  by (cases C) (simp_all add: triple_def)

lemma triple_ret: "(\<And>w. P w \<Longrightarrow> Q a w) \<Longrightarrow> triple P (retP a) Q I"
  by (simp add: triple_def retP_def)

lemma triple_raise: "(\<And>w. P w \<Longrightarrow> I w) \<Longrightarrow> triple P (raiseP e) Q I"
  by (simp add: triple_def raiseP_def)

lemma triple_bind: "triple P p Q I \<Longrightarrow> (\<And>a. triple (Q a) (f a) R I) \<Longrightarrow> triple P (bindP p f) R I"
  by (fastforce simp: triple_def bindP_def split: prod.splits outcome.splits)

lemma triple_then: "triple P p (\<lambda>_. Q) I \<Longrightarrow> triple Q q R I \<Longrightarrow> triple P (thenP p q) R I"
  unfolding thenP_def by (rule triple_bind)

lemma same_then: "triple A p (\<lambda>_. A) I \<Longrightarrow> triple A q R I \<Longrightarrow> triple A (thenP p q) R I"
  by (rule triple_then)

lemma same_bind: "triple A p (\<lambda>_. A) I \<Longrightarrow> (\<And>a. triple A (f a) R I) \<Longrightarrow> triple A (bindP p f) R I"
  by (rule triple_bind)

lemma triple_case_sum:
  "(\<And>e. r = Inl e \<Longrightarrow> triple P (f e) Q I) \<Longrightarrow> (\<And>a. r = Inr a \<Longrightarrow> triple P (g a) Q I)
   \<Longrightarrow> triple P (case r of Inl e \<Rightarrow> f e | Inr a \<Rightarrow> g a) Q I"
  by (cases r) simp_all

lemma triple_if: "(b \<Longrightarrow> triple P p Q I) \<Longrightarrow> (\<not> b \<Longrightarrow> triple P q Q I) \<Longrightarrow> triple P (if b then p else q) Q I"
  by simp

lemma triple_call:
  assumes "\<And>w. P w \<Longrightarrow> I w" "\<And>w e. P w \<Longrightarrow> Q (Inl e) (tick w)"
    "\<And>w a w'. P w \<Longrightarrow> act w = Inr (a, w') \<Longrightarrow> Q (Inr a) (tick w')"
  shows "triple P (call env act) Q I"
  using assms by (fastforce simp: triple_def call_def split: event.splits sum.splits prod.splits)

lemma triple_call_or:
  assumes "\<And>w. P w \<Longrightarrow> I w" "\<And>w. P w \<Longrightarrow> I (tick w)"
    "\<And>w a w'. P w \<Longrightarrow> act w = Inr (a, w') \<Longrightarrow> Q a (tick w')"
  shows "triple P (call_or env act wrap) Q I"
  unfolding call_or_def
  by (rule triple_bind[where Q = "\<lambda>r w. case r of Inl e \<Rightarrow> I w | Inr a \<Rightarrow> Q a w"])
    (use assms in \<open>auto intro!: triple_call triple_raise triple_ret split: sum.splits\<close>)

lemma triple_ignoring:
  assumes "\<And>w. P w \<Longrightarrow> I w" "\<And>w. P w \<Longrightarrow> Q (tick w)" "\<And>w a w'. P w \<Longrightarrow> act w = Inr (a, w') \<Longrightarrow> Q (tick w')"
  shows "triple P (ignoring env act) (\<lambda>_. Q) I"
  unfolding ignoring_def
  by (rule triple_bind[where Q = "\<lambda>r. Q"]) (use assms in \<open>auto intro!: triple_call triple_ret\<close>)

lemma triple_exists:
  assumes "\<And>w. P w \<Longrightarrow> I w" "\<And>w b. P w \<Longrightarrow> (b \<Longrightarrow> file_at p w \<noteq> None) \<Longrightarrow> Q b (tick w)"
  shows "triple P (existsP env p) Q I"
  unfolding existsP_def
  by (rule triple_bind[where Q = "\<lambda>r. Q (case r of Inl e \<Rightarrow> False | Inr f \<Rightarrow> True)"])
    (use assms in \<open>auto intro!: triple_call triple_ret simp: act_stat_def split: option.splits\<close>)

section \<open>Files after a call\<close>

lemma tick_simps [simp]:
  "file_at p (tick w) = file_at p w" "journal_at n (tick w) = journal_at n w"
  "wd_files (tick w) = wd_files w" "wd_journal (tick w) = wd_journal w" "wd_calls (tick w) = Suc (wd_calls w)"
  by (simp_all add: tick_def file_at_def journal_at_def)

lemma act_nothing_simp [simp]: "act_nothing w = Inr ((), w)"
  by (simp add: act_nothing_def)

lemma file_at_journal [simp]: "file_at p (w\<lparr> wd_journal := j \<rparr>) = file_at p w"
  by (simp add: file_at_def)

lemma journal_at_files [simp]: "journal_at n (w\<lparr> wd_files := f \<rparr>) = journal_at n w"
  by (simp add: journal_at_def)

lemma act_rename_Inr:
  "act_rename a b w = Inr (u, w') \<Longrightarrow>
   (\<exists>f. file_at a w = Some f
      \<and> (\<forall>p. file_at p w' = (if p = b then Some f else if p = a then None else file_at p w)))
   \<and> wd_journal w' = wd_journal w \<and> wd_calls w' = wd_calls w"
  by (auto simp: act_rename_def file_at_def split: option.splits)

lemma act_remove_Inr:
  "act_remove a w = Inr (u, w') \<Longrightarrow>
   (\<forall>p. file_at p w' = (if p = a then None else file_at p w)) \<and> wd_journal w' = wd_journal w \<and> wd_calls w' = wd_calls w"
  by (auto simp: act_remove_def file_at_def split: option.splits)

lemma act_stat_Inr: "act_stat p w = Inr (f, w') \<longleftrightarrow> file_at p w = Some f \<and> w' = w"
  by (auto simp: act_stat_def split: option.splits)

lemma journal_acts_files:
  "act_jopen n w = Inr (u, w') \<Longrightarrow> wd_files w' = wd_files w"
  "act_jwrite n r w = Inr (u, w') \<Longrightarrow> wd_files w' = wd_files w"
  "act_jrename n m w = Inr (u, w') \<Longrightarrow> wd_files w' = wd_files w"
  "act_jremove n w = Inr (u, w') \<Longrightarrow> wd_files w' = wd_files w"
  "act_jread n w = Inr (f, w') \<Longrightarrow> w' = w"
  "act_jlist w = Inr (ns, w') \<Longrightarrow> w' = w"
  by (auto simp: act_jopen_def act_jwrite_def act_jrename_def act_jremove_def act_jread_def act_jlist_def split: option.splits)

section \<open>Environments without failures\<close>

text \<open>
  When no call fails of itself, a call whose effect is possible either happens or is where the
  process dies; with an environment that never crashes either, a program proved with these rules
  returns.
\<close>

definition crash_only :: "env \<Rightarrow> bool" where
  "crash_only env \<longleftrightarrow> (\<forall>n s. env n \<noteq> Fails s)"

definition may_crash :: "env \<Rightarrow> bool" where
  "may_crash env \<longleftrightarrow> (\<exists>n. env n = Crashes)"

definition quiet :: env where
  "quiet n = Proceeds"

lemma quiet_env [simp]: "crash_only quiet" "\<not> may_crash quiet"
  by (simp_all add: crash_only_def may_crash_def quiet_def)

lemma triple_call_sure:
  assumes "crash_only env" "\<And>w. P w \<Longrightarrow> may_crash env \<Longrightarrow> I w"
    "\<And>w. P w \<Longrightarrow> \<exists>a w'. act w = Inr (a, w') \<and> Q (Inr a) (tick w')"
  shows "triple P (call env act) Q I"
proof (rule tripleI)
  fix w r w' assume P: "P w" and c: "call env act w = (r, w')"
  obtain a v where a: "act w = Inr (a, v)" "Q (Inr a) (tick v)" using assms(3)[OF P] by blast
  show "case r of Done x \<Rightarrow> Q x w' | _ \<Rightarrow> I w'"
  proof (cases "env (wd_calls w)")
    case Proceeds then show ?thesis using c a by (auto simp: call_def)
  next
    case (Fails s) then show ?thesis using assms(1) by (simp add: crash_only_def)
  next
    case Crashes
    then have "may_crash env" by (auto simp: may_crash_def)
    then show ?thesis using Crashes c assms(2)[OF P] by (auto simp: call_def)
  qed
qed

lemma triple_call_or_sure:
  assumes "crash_only env" "\<And>w. P w \<Longrightarrow> may_crash env \<Longrightarrow> I w"
    "\<And>w. P w \<Longrightarrow> \<exists>a w'. act w = Inr (a, w') \<and> Q a (tick w')"
  shows "triple P (call_or env act wrap) Q I"
  unfolding call_or_def
proof (rule triple_bind)
  show "triple P (call env act) (\<lambda>r w. \<exists>a. r = Inr a \<and> Q a w) I"
    using assms(3) by (intro triple_call_sure[OF assms(1,2)]) blast+
  show "triple (\<lambda>w. \<exists>a. r = Inr a \<and> Q a w) (case r of Inl e \<Rightarrow> raiseP (wrap e) | Inr a \<Rightarrow> retP a) Q I" for r
    by (cases r) (auto simp: triple_def retP_def raiseP_def)
qed

lemma triple_nothing_sure:
  assumes "crash_only env" "\<And>w. P w \<Longrightarrow> may_crash env \<Longrightarrow> I w" "\<And>w. P w \<Longrightarrow> Q (tick w)"
  shows "triple P (call_or env act_nothing wrap) (\<lambda>_. Q) I"
  using assms(3) by (intro triple_call_or_sure[OF assms(1,2)]) auto

lemma triple_ignoring_sure:
  assumes "crash_only env" "\<And>w. P w \<Longrightarrow> may_crash env \<Longrightarrow> I w" "\<And>w. P w \<Longrightarrow> Q (tick w)"
  shows "triple P (ignoring env act_nothing) (\<lambda>_. Q) I"
  unfolding ignoring_def
  by (rule triple_bind[where Q = "\<lambda>r. Q"])
    (use assms in \<open>auto intro!: triple_call_sure triple_ret\<close>)

lemma triple_exists_sure:
  assumes "crash_only env" "\<And>w. P w \<Longrightarrow> may_crash env \<Longrightarrow> I w" "\<And>w. P w \<Longrightarrow> Q (file_at p w \<noteq> None) (tick w)"
  shows "triple P (existsP env p) Q I"
proof (rule tripleI)
  fix w r w' assume P: "P w" and c: "existsP env p w = (r, w')"
  show "case r of Done x \<Rightarrow> Q x w' | _ \<Rightarrow> I w'"
  proof (cases "env (wd_calls w)")
    case Proceeds
    then show ?thesis using c assms(3)[OF P]
      by (auto simp: existsP_def bindP_def call_def act_stat_def retP_def split: option.splits)
  next
    case (Fails s) then show ?thesis using assms(1) by (simp add: crash_only_def)
  next
    case Crashes
    then have "may_crash env" by (auto simp: may_crash_def)
    then show ?thesis using Crashes c assms(2)[OF P] by (auto simp: existsP_def bindP_def call_def)
  qed
qed

end
