(* ===== verification/Journal.thy ===== *)
theory Journal
  imports Agent_Fs "HOL-Library.List_Lexorder" "HOL-Library.Char_ord"
begin

text \<open>
  The agent's intent journal and the parts of its work area the commit ritual uses
  (\<open>crates/transcodarr-agent/src/journal.rs\<close>, \<open>workarea.rs\<close>), as programs of system calls. The
  journal directory is a map from names to files: a record is written to a temporary name and
  renamed into place, so a name recovery looks at never holds a partial record. The text form of a
  record is the serialiser's, a whole record here. Names are lists of bytes, so a character of several
  bytes becomes several underscores in a file name and not one.
\<close>

section \<open>Phases and names\<close>

fun phase_as_str :: "intent_phase \<Rightarrow> string" where
  "phase_as_str Granted = ''Granted''"
| "phase_as_str Retired = ''Retired''"
| "phase_as_str Installed = ''Installed''"

definition safe_char :: "char \<Rightarrow> char" where
  "safe_char c = (if ascii_alnum c \<or> c = CHR ''-'' \<or> c = CHR ''_'' then c else CHR ''_'')"

definition journal_stem :: "string \<Rightarrow> i64 \<Rightarrow> string" where
  "journal_stem job_id attempt = map safe_char job_id @ ''.'' @ show_int attempt @ ''.intent''"

definition path_for :: "string \<Rightarrow> i64 \<Rightarrow> string" where
  "path_for job_id attempt = journal_stem job_id attempt @ ''.json''"

text \<open>\<open>with_extension("writing")\<close> of that name.\<close>

definition writing_path :: "string \<Rightarrow> i64 \<Rightarrow> string" where
  "writing_path job_id attempt = journal_stem job_id attempt @ ''.writing''"

definition is_json :: "string \<Rightarrow> bool" where
  "is_json n \<longleftrightarrow> name_extension n = Some ''json''"

section \<open>Operations\<close>

definition journal_record :: "env \<Rightarrow> intent_record \<Rightarrow> unit prog" where
  "journal_record env rec =
     (let final = path_for (ir_job_id rec) (ir_attempt rec);
          tmp = writing_path (ir_job_id rec) (ir_attempt rec);
          err = AE_Journal final
      in thenP (call_or env (act_jopen tmp) err)
        (thenP (call_or env (act_jwrite tmp rec) err)
        (thenP (call_or env act_nothing err)
        (thenP (call_or env (act_jrename tmp final) err)
               (call_or env act_nothing err)))))"

definition parse_body :: "string \<Rightarrow> journal_file \<Rightarrow> intent_record prog" where
  "parse_body n f = (case f of Body r \<Rightarrow> retP r | Torn \<Rightarrow> raiseP (AE_Journal n (IO_Other ''not a record'')))"

definition journal_read :: "env \<Rightarrow> string \<Rightarrow> i64 \<Rightarrow> intent_record option prog" where
  "journal_read env job_id attempt =
     (let n = path_for job_id attempt
      in bindP (call env (act_jread n)) (\<lambda>r. case r of
           Inl IO_NotFound \<Rightarrow> retP None
         | Inl e \<Rightarrow> raiseP (AE_Journal n e)
         | Inr f \<Rightarrow> bindP (parse_body n f) (\<lambda>rec. retP (Some rec))))"

fun read_all :: "env \<Rightarrow> string list \<Rightarrow> intent_record list prog" where
  "read_all env [] = retP []"
| "read_all env (n # ns) =
     (if \<not> is_json n then read_all env ns
      else bindP (call_or env (act_jread n) (AE_Journal n)) (\<lambda>f.
           bindP (parse_body n f) (\<lambda>rec.
           bindP (read_all env ns) (\<lambda>recs. retP (rec # recs)))))"

definition sort_records :: "intent_record list \<Rightarrow> intent_record list" where
  "sort_records recs = sort_key ir_job_id (sort_key ir_attempt recs)"

definition outstanding :: "env \<Rightarrow> intent_record list prog" where
  "outstanding env =
     bindP (call_or env act_jlist (AE_Journal ''.journal'')) (\<lambda>ns.
     bindP (read_all env ns) (\<lambda>recs. retP (sort_records recs)))"

definition journal_clear :: "env \<Rightarrow> string \<Rightarrow> i64 \<Rightarrow> unit prog" where
  "journal_clear env job_id attempt =
     (let n = path_for job_id attempt
      in bindP (call env (act_jremove n)) (\<lambda>r. case r of
           Inr u \<Rightarrow> call_or env act_nothing (AE_Journal ''.journal'')
         | Inl IO_NotFound \<Rightarrow> retP ()
         | Inl e \<Rightarrow> raiseP (AE_Journal n e)))"

section \<open>Work area\<close>

record work_area =
  wa_root :: path
  wa_agent_uid :: string
  wa_boot_id :: string

definition sanitise :: "string \<Rightarrow> string" where
  "sanitise s = (let cleaned = map safe_char s in if cleaned = [] then ''unnamed'' else cleaned)"

definition work_temp_path :: "work_area \<Rightarrow> string \<Rightarrow> i64 \<Rightarrow> path \<Rightarrow> path" where
  "work_temp_path wa job_id attempt final_path =
     (let ext = (case extension final_path of Some e \<Rightarrow> e | None \<Rightarrow> ''mkv'')
      in path_join (wa_root wa) [Normal (sanitise job_id @ ''.'' @ show_int attempt @ ''.partial.'' @ ext)])"

definition work_clear :: "env \<Rightarrow> work_area \<Rightarrow> string \<Rightarrow> i64 \<Rightarrow> path \<Rightarrow> unit prog" where
  "work_clear env wa job_id attempt final_path =
     (let p = work_temp_path wa job_id attempt final_path
      in bindP (call env (act_remove p)) (\<lambda>r. case r of
           Inr u \<Rightarrow> retP () | Inl IO_NotFound \<Rightarrow> retP () | Inl e \<Rightarrow> raiseP (AE_WorkArea p e)))"

text \<open>\<open>device\<close> says which filesystem a directory is on.\<close>

definition ensure_same_device :: "env \<Rightarrow> (path \<Rightarrow> u64) \<Rightarrow> work_area \<Rightarrow> path \<Rightarrow> unit prog" where
  "ensure_same_device env device wa final_path =
     (let dest_dir = (case parent final_path of Some q \<Rightarrow> q | None \<Rightarrow> [RootDir])
      in thenP (call_or env act_nothing (AE_WorkArea (wa_root wa)))
        (thenP (call_or env act_nothing (AE_WorkArea dest_dir))
          (if device (wa_root wa) \<noteq> device dest_dir
           then raiseP (AE_CrossDevice (wa_root wa) dest_dir) else retP ())))"

section \<open>Names\<close>

lemma name_extension_append:
  "CHR ''.'' \<notin> set e \<Longrightarrow> s \<noteq> [] \<Longrightarrow> name_extension (s @ CHR ''.'' # e) = Some e"
proof -
  assume e: "CHR ''.'' \<notin> set e" and s: "s \<noteq> []"
  have none: "split_last_dot e = None" using e by (induction e) auto
  have "split_last_dot (s @ CHR ''.'' # e) = Some (s, e)" by (induction s) (simp_all add: none)
  then show ?thesis using s by (simp add: name_extension_def)
qed

lemma journal_stem_nonempty [simp]: "journal_stem j a \<noteq> []"
  by (simp add: journal_stem_def)

lemma is_json_path_for [simp]: "is_json (path_for j a)"
  using name_extension_append[of "''json''" "journal_stem j a"] by (simp add: is_json_def path_for_def)

lemma not_json_writing [simp]: "\<not> is_json (writing_path j a)"
  using name_extension_append[of "''writing''" "journal_stem j a"] by (simp add: is_json_def writing_path_def)

lemma path_for_neq_writing [simp]: "path_for j a \<noteq> writing_path k b" "writing_path k b \<noteq> path_for j a"
  using is_json_path_for[of j a] not_json_writing[of k b] by metis+

end
