(* ===== verification/Commit_Ritual.thy ===== *)
theory Commit_Ritual
  imports Journal
begin

text \<open>
  The commit ritual (\<open>crates/transcodarr-agent/src/commit.rs\<close>): installing a replacement and
  recovering an install that was interrupted, call by call, in an environment that may fail any call
  or end the process before it.
\<close>

section \<open>Data\<close>

record source_guard =
  sg_size_bytes :: u64
  sg_mtime_unix :: i64
  sg_inode :: "u64 option"

definition guard_of :: "fs_file \<Rightarrow> source_guard" where
  "guard_of f = \<lparr> sg_size_bytes = of_nat (length (fl_bytes f)),
     sg_mtime_unix = (case fl_mtime f of Some t \<Rightarrow> if 0 \<le> t then t else 0 | None \<Rightarrow> 0),
     sg_inode = fl_inode f \<rparr>"

definition observe :: "env \<Rightarrow> path \<Rightarrow> (io_error + source_guard) prog" where
  "observe env p = bindP (call env (act_stat p)) (\<lambda>r. retP (case r of Inl e \<Rightarrow> Inl e | Inr f \<Rightarrow> Inr (guard_of f)))"

definition guard_matches :: "source_guard \<Rightarrow> source_guard \<Rightarrow> bool" where
  "guard_matches a b \<longleftrightarrow> sg_size_bytes a = sg_size_bytes b \<and> sg_mtime_unix a = sg_mtime_unix b
     \<and> (case (sg_inode a, sg_inode b) of (Some x, Some y) \<Rightarrow> x = y | _ \<Rightarrow> True)"

datatype resolution =
    R_Installed path u64
  | R_SourceIntact string
  | R_SourceRestored string
  | R_NeedsOperator string

fun resolution_label :: "resolution \<Rightarrow> string" where
  "resolution_label (R_Installed _ _) = ''installed''"
| "resolution_label (R_SourceIntact _) = ''source_intact''"
| "resolution_label (R_SourceRestored _) = ''source_restored''"
| "resolution_label (R_NeedsOperator _) = ''needs_operator''"

definition is_resolved :: "resolution \<Rightarrow> bool" where
  "is_resolved r \<longleftrightarrow> (case r of R_NeedsOperator _ \<Rightarrow> False | _ \<Rightarrow> True)"

record commit_request =
  cr_job_id :: string
  cr_attempt :: i64
  cr_fencing_epoch :: i64
  cr_temp_path :: path
  cr_final_path :: path
  cr_trash_path :: path
  cr_content_sig :: string
  cr_source_guard :: source_guard

section \<open>Installing\<close>

definition record_of :: "work_area \<Rightarrow> commit_request \<Rightarrow> intent_record" where
  "record_of wa req = \<lparr> ir_job_id = cr_job_id req, ir_attempt = cr_attempt req,
     ir_agent_uid = wa_agent_uid wa, ir_boot_id = wa_boot_id wa, ir_fencing_epoch = cr_fencing_epoch req,
     ir_temp_path = cr_temp_path req, ir_final_path = cr_final_path req, ir_trash_path = cr_trash_path req,
     ir_content_sig = cr_content_sig req, ir_phase = Granted \<rparr>"

definition fsync_file :: "env \<Rightarrow> path \<Rightarrow> unit prog" where
  "fsync_file env p =
     bindP (call_or env (act_stat p) (AE_Commit ''open staged output'' p)) (\<lambda>_.
       call_or env act_nothing (AE_Commit ''fsync staged output'' p))"

definition sync_parent :: "env \<Rightarrow> path \<Rightarrow> unit prog" where
  "sync_parent env p = (case parent p of Some q \<Rightarrow> ignoring env act_nothing | None \<Rightarrow> retP ())"

definition sync_parent_or_root :: "env \<Rightarrow> path \<Rightarrow> unit prog" where
  "sync_parent_or_root env p = ignoring env act_nothing"

definition create_parent :: "env \<Rightarrow> path \<Rightarrow> unit prog" where
  "create_parent env p = (case parent p of
     Some q \<Rightarrow> call_or env act_nothing (AE_Commit ''create trash directory'' q) | None \<Rightarrow> retP ())"

text \<open>\<open>fs::metadata(path).map(|m| m.len()).unwrap_or(0)\<close>\<close>

definition size_or_zero :: "env \<Rightarrow> path \<Rightarrow> u64 prog" where
  "size_or_zero env p = bindP (call env (act_stat p)) (\<lambda>r. retP (case r of
     Inl e \<Rightarrow> 0 | Inr f \<Rightarrow> of_nat (length (fl_bytes f))))"

text \<open>Steps 7 to 9, after the original has been moved aside.\<close>

definition install_staged :: "env \<Rightarrow> intent_record \<Rightarrow> commit_request \<Rightarrow> resolution prog" where
  "install_staged env rec req =
     bindP (call env (act_rename (cr_temp_path req) (cr_final_path req))) (\<lambda>r. case r of
       Inl e \<Rightarrow>
         bindP (call env (act_rename (cr_trash_path req) (cr_final_path req))) (\<lambda>back.
         thenP (sync_parent_or_root env (cr_final_path req))
         (thenP (journal_clear env (cr_job_id req) (cr_attempt req))
           (retP (case back of
              Inr u \<Rightarrow> R_SourceRestored (''installing the replacement failed ('' @ show_io e @ ''); original restored'')
            | Inl e' \<Rightarrow> R_NeedsOperator (''install failed ('' @ show_io e
                @ '') and the original could not be restored from '' @ path_display (cr_trash_path req))))))
     | Inr u \<Rightarrow>
         thenP (journal_record env (rec\<lparr> ir_phase := Installed \<rparr>))
         (thenP (sync_parent_or_root env (cr_final_path req))
         (bindP (size_or_zero env (cr_final_path req)) (\<lambda>output_bytes.
          thenP (journal_clear env (cr_job_id req) (cr_attempt req))
            (retP (R_Installed (cr_trash_path req) output_bytes))))))"

text \<open>Steps 3 to 6: the intent on disk, the staged output durable, the original moved aside.\<close>

definition retire_and_install :: "env \<Rightarrow> work_area \<Rightarrow> commit_request \<Rightarrow> resolution prog" where
  "retire_and_install env wa req =
     (let rec = record_of wa req
      in thenP (journal_record env rec)
        (thenP (fsync_file env (cr_temp_path req))
        (thenP (sync_parent env (cr_temp_path req))
        (thenP (create_parent env (cr_trash_path req))
        (thenP (call_or env (act_rename (cr_final_path req) (cr_trash_path req))
                 (AE_Commit ''retire original'' (cr_final_path req)))
        (thenP (journal_record env (rec\<lparr> ir_phase := Retired \<rparr>))
               (install_staged env rec req)))))))"

definition commit :: "env \<Rightarrow> (path \<Rightarrow> u64) \<Rightarrow> work_area \<Rightarrow> commit_request \<Rightarrow> resolution prog" where
  "commit env device wa req =
     thenP (ensure_same_device env device wa (cr_final_path req))
     (bindP (existsP env (cr_temp_path req)) (\<lambda>staged.
        if \<not> staged
        then retP (R_SourceIntact (''no staged output at '' @ path_display (cr_temp_path req)))
        else bindP (observe env (cr_final_path req)) (\<lambda>now. case now of
          Inl e \<Rightarrow> retP (R_SourceIntact (''source '' @ path_display (cr_final_path req)
                    @ '' is no longer there; nothing was installed''))
        | Inr g \<Rightarrow>
            if \<not> guard_matches (cr_source_guard req) g
            then retP (R_SourceIntact (''source '' @ path_display (cr_final_path req)
                    @ '' changed since the job was planned; refusing to install''))
            else retire_and_install env wa req)))"

section \<open>Recovery\<close>

definition recover_one :: "env \<Rightarrow> intent_record \<Rightarrow> resolution prog" where
  "recover_one env rec =
     bindP (existsP env (ir_final_path rec)) (\<lambda>final_exists.
     bindP (existsP env (ir_trash_path rec)) (\<lambda>trash_exists.
       case ir_phase rec of
         Granted \<Rightarrow>
           thenP (ignoring env (act_remove (ir_temp_path rec)))
             (if final_exists then retP (R_SourceIntact ''interrupted before the original was moved'')
              else retP (R_NeedsOperator (''journal says nothing had moved, but ''
                     @ path_display (ir_final_path rec) @ '' is not there'')))
       | Retired \<Rightarrow>
           if final_exists
           then thenP (ignoring env (act_remove (ir_temp_path rec)))
                  (bindP (size_or_zero env (ir_final_path rec)) (\<lambda>n. retP (R_Installed (ir_trash_path rec) n)))
           else if trash_exists
           then thenP (call_or env (act_rename (ir_trash_path rec) (ir_final_path rec))
                        (AE_Commit ''restore retired original'' (ir_trash_path rec)))
                  (thenP (sync_parent_or_root env (ir_final_path rec))
                  (thenP (ignoring env (act_remove (ir_temp_path rec)))
                    (retP (R_SourceRestored ''interrupted between retiring the original and installing''))))
           else retP (R_NeedsOperator (''neither '' @ path_display (ir_final_path rec) @ '' nor ''
                  @ path_display (ir_trash_path rec) @ '' exists; the original cannot be accounted for''))
       | Installed \<Rightarrow>
           thenP (ignoring env (act_remove (ir_temp_path rec)))
             (if final_exists
              then bindP (size_or_zero env (ir_final_path rec)) (\<lambda>n. retP (R_Installed (ir_trash_path rec) n))
              else if trash_exists
              then thenP (call_or env (act_rename (ir_trash_path rec) (ir_final_path rec))
                           (AE_Commit ''restore after a vanished install'' (ir_trash_path rec)))
                     (retP (R_SourceRestored ''the journal recorded an install but the destination was gone''))
              else retP (R_NeedsOperator (''journal recorded an install but neither ''
                     @ path_display (ir_final_path rec) @ '' nor '' @ path_display (ir_trash_path rec) @ '' exists'')))))"

fun recover_each :: "env \<Rightarrow> intent_record list \<Rightarrow> (string \<times> resolution) list prog" where
  "recover_each env [] = retP []"
| "recover_each env (rec # recs) =
     bindP (recover_one env rec) (\<lambda>r.
     thenP (if is_resolved r then journal_clear env (ir_job_id rec) (ir_attempt rec) else retP ())
     (bindP (recover_each env recs) (\<lambda>out. retP ((ir_job_id rec, r) # out))))"

definition recover_all :: "env \<Rightarrow> (string \<times> resolution) list prog" where
  "recover_all env = bindP (outstanding env) (recover_each env)"

section \<open>The original is never lost\<close>

text \<open>
  The original \<open>orig\<close> is safe when it is where it was or where it is retained. An intent is compatible
  with the pair of paths when it replaces that very file or touches neither path; the journal is when
  every record in it is.
\<close>

definition safe :: "fs_file \<Rightarrow> path \<Rightarrow> path \<Rightarrow> world \<Rightarrow> bool" where
  "safe orig fin tra w \<longleftrightarrow> file_at fin w = Some orig \<or> file_at tra w = Some orig"

definition compatible :: "path \<Rightarrow> path \<Rightarrow> path \<Rightarrow> path \<Rightarrow> path \<Rightarrow> bool" where
  "compatible fin tra temp final trash \<longleftrightarrow> temp \<noteq> fin \<and> temp \<noteq> tra
     \<and> (final = fin \<and> trash = tra \<or> final \<noteq> fin \<and> final \<noteq> tra \<and> trash \<noteq> fin \<and> trash \<noteq> tra)"

definition compatible_record :: "path \<Rightarrow> path \<Rightarrow> intent_record \<Rightarrow> bool" where
  "compatible_record fin tra r \<longleftrightarrow> compatible fin tra (ir_temp_path r) (ir_final_path r) (ir_trash_path r)"

definition journal_ok :: "path \<Rightarrow> path \<Rightarrow> world \<Rightarrow> bool" where
  "journal_ok fin tra w \<longleftrightarrow> (\<forall>n r. journal_at n w = Some (Body r) \<longrightarrow> compatible_record fin tra r)"

text \<open>Kept throughout: the original is safe, and its trash path holds nothing else.\<close>

definition kept_safe :: "fs_file \<Rightarrow> path \<Rightarrow> path \<Rightarrow> world \<Rightarrow> bool" where
  "kept_safe orig fin tra w \<longleftrightarrow> safe orig fin tra w \<and> file_at tra w \<in> {None, Some orig} \<and> journal_ok fin tra w"

text \<open>A journal action keeps what is known of the files.\<close>

lemma journal_acts_ok:
  "journal_ok fin tra w \<Longrightarrow> act_jopen n w = Inr (u, w') \<Longrightarrow> journal_ok fin tra w'"
  "journal_ok fin tra w \<Longrightarrow> compatible_record fin tra r \<Longrightarrow> act_jwrite n r w = Inr (u, w') \<Longrightarrow> journal_ok fin tra w'"
  "journal_ok fin tra w \<Longrightarrow> act_jrename a b w = Inr (u, w') \<Longrightarrow> journal_ok fin tra w'"
  "journal_ok fin tra w \<Longrightarrow> act_jremove n w = Inr (u, w') \<Longrightarrow> journal_ok fin tra w'"
  by (auto simp: journal_ok_def journal_at_def act_jopen_def act_jwrite_def act_jrename_def act_jremove_def
      split: option.splits if_splits)

lemma journal_ok_tick [simp]: "journal_ok fin tra (tick w) = journal_ok fin tra w"
  by (simp add: journal_ok_def)

lemma journal_ok_cong: "wd_journal w' = wd_journal w \<Longrightarrow> journal_ok fin tra w' = journal_ok fin tra w"
  by (simp add: journal_ok_def journal_at_def)

lemma file_at_cong: "wd_files w' = wd_files w \<Longrightarrow> file_at p w' = file_at p w"
  by (simp add: file_at_def)

definition on_files :: "(( path \<times> fs_file) list \<Rightarrow> bool) \<Rightarrow> path \<Rightarrow> path \<Rightarrow> world \<Rightarrow> bool" where
  "on_files F fin tra w \<longleftrightarrow> F (wd_files w) \<and> journal_ok fin tra w"

lemma on_files_tick [simp]: "on_files F fin tra (tick w) = on_files F fin tra w"
  by (simp add: on_files_def)

lemma triple_quiet_call:
  assumes "\<And>w a w'. on_files F fin tra w \<Longrightarrow> act w = Inr (a, w') \<Longrightarrow> on_files F fin tra w'"
  shows "triple (on_files F fin tra) (call_or env act wrap) (\<lambda>_. on_files F fin tra) (on_files F fin tra)"
  by (rule triple_call_or) (use assms in auto)

lemma triple_journal_record:
  assumes "compatible_record fin tra r"
  shows "triple (on_files F fin tra) (journal_record env r) (\<lambda>_. on_files F fin tra) (on_files F fin tra)"
proof -
  have acts: "on_files F fin tra w \<Longrightarrow> act_jopen n w = Inr (u, w') \<Longrightarrow> on_files F fin tra w'"
    "on_files F fin tra w \<Longrightarrow> act_jwrite n r w = Inr (u, w') \<Longrightarrow> on_files F fin tra w'"
    "on_files F fin tra w \<Longrightarrow> act_jrename n m w = Inr (u, w') \<Longrightarrow> on_files F fin tra w'" for n m u w w'
    using assms by (auto simp: on_files_def dest: journal_acts_ok journal_acts_files)
  show ?thesis unfolding journal_record_def Let_def
    by (intro same_then triple_quiet_call) (auto dest: acts)
qed

lemma triple_journal_clear:
  "triple (on_files F fin tra) (journal_clear env j a) (\<lambda>_. on_files F fin tra) (on_files F fin tra)"
proof -
  have act: "on_files F fin tra w \<Longrightarrow> act_jremove n w = Inr (u, w') \<Longrightarrow> on_files F fin tra w'" for n u w w'
    by (auto simp: on_files_def dest: journal_acts_ok journal_acts_files)
  have "triple (on_files F fin tra) (call env (act_jremove n)) (\<lambda>_. on_files F fin tra) (on_files F fin tra)" for n
    by (rule triple_call) (auto dest: act)
  then show ?thesis unfolding journal_clear_def Let_def
    by (rule triple_bind) (auto intro: triple_ret triple_raise triple_quiet_call split: sum.split io_error.split)
qed

lemma triple_sync_parent:
  "triple (on_files F fin tra) (sync_parent env p) (\<lambda>_. on_files F fin tra) (on_files F fin tra)"
  "triple (on_files F fin tra) (sync_parent_or_root env p) (\<lambda>_. on_files F fin tra) (on_files F fin tra)"
  "triple (on_files F fin tra) (create_parent env p) (\<lambda>_. on_files F fin tra) (on_files F fin tra)"
  unfolding sync_parent_def sync_parent_or_root_def create_parent_def
  by (auto intro!: triple_ignoring triple_ret triple_quiet_call split: option.split)

lemma triple_fsync: "triple (on_files F fin tra) (fsync_file env p) (\<lambda>_. on_files F fin tra) (on_files F fin tra)"
  unfolding fsync_file_def
  by (rule triple_bind[where Q = "\<lambda>_. on_files F fin tra"]) (auto intro!: triple_quiet_call simp: act_stat_Inr)

lemma triple_size: "triple (on_files F fin tra) (size_or_zero env p) (\<lambda>_. on_files F fin tra) (on_files F fin tra)"
  unfolding size_or_zero_def
  by (rule triple_bind[where Q = "\<lambda>_. on_files F fin tra"]) (auto intro!: triple_call triple_ret simp: act_stat_Inr)

definition at_either :: "fs_file \<Rightarrow> path \<Rightarrow> path \<Rightarrow> (path \<times> fs_file) list \<Rightarrow> bool" where
  "at_either orig fin tra fs \<longleftrightarrow> (map_of fs fin = Some orig \<or> map_of fs tra = Some orig)
     \<and> map_of fs tra \<in> {None, Some orig}"

definition at_path :: "fs_file \<Rightarrow> path \<Rightarrow> (path \<times> fs_file) list \<Rightarrow> bool" where
  "at_path orig p fs \<longleftrightarrow> map_of fs p = Some orig"

lemma kept_safe_files: "kept_safe orig fin tra = on_files (at_either orig fin tra) fin tra"
  by (auto simp: fun_eq_iff kept_safe_def safe_def on_files_def at_either_def file_at_def)

lemma at_path_either: "on_files (at_path orig tra) fin tra w \<Longrightarrow> on_files (at_either orig fin tra) fin tra w"
  by (auto simp: on_files_def at_path_def at_either_def)

lemma rename_path:
  "on_files F fin tra w \<Longrightarrow> act_rename a b w = Inr (u, w') \<Longrightarrow>
   (\<And>fs f. F fs \<Longrightarrow> map_of fs a = Some f \<Longrightarrow> G (AList.update b f (AList.delete a fs))) \<Longrightarrow> on_files G fin tra w'"
  by (auto simp: on_files_def act_rename_def file_at_def journal_ok_def journal_at_def split: option.splits)

lemma remove_path:
  "on_files F fin tra w \<Longrightarrow> act_remove a w = Inr (u, w') \<Longrightarrow>
   (\<And>fs. F fs \<Longrightarrow> F (AList.delete a fs)) \<Longrightarrow> on_files F fin tra w'"
  by (auto simp: on_files_def act_remove_def file_at_def journal_ok_def journal_at_def split: option.splits)

text \<open>Moves that touch neither path, or move the staged output in, keep what is retained.\<close>

lemma triple_exists_same: "triple (on_files F fin tra) (existsP env p) (\<lambda>_. on_files F fin tra) (on_files F fin tra)"
  by (rule triple_exists) simp_all

lemma triple_remove:
  assumes "\<And>fs. F fs \<Longrightarrow> F (AList.delete p fs)"
  shows "triple (on_files F fin tra) (ignoring env (act_remove p)) (\<lambda>_. on_files F fin tra) (on_files F fin tra)"
  by (rule triple_ignoring) (use assms in \<open>auto dest: remove_path\<close>)

lemma triple_clear_if:
  "triple (on_files F fin tra) (if b then journal_clear env j a else retP ()) (\<lambda>_. on_files F fin tra) (on_files F fin tra)"
  by (auto intro: triple_journal_clear triple_ret)

lemmas same_triples = triple_journal_record triple_journal_clear triple_sync_parent triple_fsync triple_size
  triple_exists_same triple_clear_if

lemma install_own:
  assumes ne: "temp \<noteq> tra" "fin \<noteq> tra" and rec: "compatible_record fin tra rec"
    and req: "cr_temp_path req = temp" "cr_final_path req = fin" "cr_trash_path req = tra"
  shows "triple (on_files (at_path orig tra) fin tra) (install_staged env rec req) (\<lambda>_. kept_safe orig fin tra) (kept_safe orig fin tra)"
proof -
  let ?T = "on_files (at_path orig tra) fin tra" and ?S = "on_files (at_either orig fin tra) fin tra"
  have TS: "?S w" if "?T w" for w by (rule at_path_either[OF that])
  have inst: "triple ?T (call env (act_rename temp fin)) (\<lambda>_. ?T) ?S"
    by (rule triple_call) (use TS ne in \<open>auto elim!: rename_path simp: at_path_def\<close>)
  have restore: "triple ?T (call env (act_rename tra fin)) (\<lambda>_. ?S) ?S"
    by (rule triple_call) (use TS ne in \<open>auto elim!: rename_path simp: at_path_def at_either_def\<close>)
  have rec': "compatible_record fin tra (rec\<lparr> ir_phase := Installed \<rparr>)" using rec by (simp add: compatible_record_def)
  have undo: "triple ?S (thenP (sync_parent_or_root env fin)
      (thenP (journal_clear env (cr_job_id req) (cr_attempt req)) (retP x))) (\<lambda>_. ?S) ?S" for x :: resolution
    by (intro same_then same_triples triple_ret)
  have finish: "triple ?S (thenP (journal_record env (rec\<lparr> ir_phase := Installed \<rparr>))
      (thenP (sync_parent_or_root env fin) (bindP (size_or_zero env fin) (\<lambda>n.
         thenP (journal_clear env (cr_job_id req) (cr_attempt req)) (retP (R_Installed tra n)))))) (\<lambda>_. ?S) ?S"
    by (intro same_then same_bind same_triples triple_ret rec')
  note finish = triple_conseq[OF finish TS]
  show ?thesis unfolding install_staged_def kept_safe_files req
    by (intro triple_bind[OF inst] triple_case_sum triple_bind[OF restore undo] finish)
qed

lemma either_update:
  "b \<notin> {fin, tra} \<Longrightarrow> a \<notin> {fin, tra} \<Longrightarrow> at_either orig fin tra fs
   \<Longrightarrow> at_either orig fin tra (AList.update b f (AList.delete a fs))"
  "a \<notin> {fin, tra} \<Longrightarrow> at_either orig fin tra fs \<Longrightarrow> at_either orig fin tra (AList.delete a fs)"
  by (auto simp: at_either_def)

lemma triple_rename_other:
  assumes "a \<notin> {fin, tra}" "b \<notin> {fin, tra}"
  shows "triple (on_files (at_either orig fin tra) fin tra) (call_or env (act_rename a b) wrap)
           (\<lambda>_. on_files (at_either orig fin tra) fin tra) (on_files (at_either orig fin tra) fin tra)"
    and "triple (on_files (at_either orig fin tra) fin tra) (call env (act_rename a b))
           (\<lambda>_. on_files (at_either orig fin tra) fin tra) (on_files (at_either orig fin tra) fin tra)"
proof -
  have r: "on_files (at_either orig fin tra) fin tra w'" if "on_files (at_either orig fin tra) fin tra w" "act_rename a b w = Inr (u, w')"
    for u w w' using that assms by (auto elim!: rename_path simp: at_either_def)
  show "triple (on_files (at_either orig fin tra) fin tra) (call_or env (act_rename a b) wrap)
           (\<lambda>_. on_files (at_either orig fin tra) fin tra) (on_files (at_either orig fin tra) fin tra)"
    by (rule triple_call_or) (auto dest: r)
  show "triple (on_files (at_either orig fin tra) fin tra) (call env (act_rename a b))
           (\<lambda>_. on_files (at_either orig fin tra) fin tra) (on_files (at_either orig fin tra) fin tra)"
    by (rule triple_call) (auto dest: r)
qed

lemma install_other:
  assumes "cr_temp_path req \<notin> {fin, tra}" "cr_final_path req \<notin> {fin, tra}" "cr_trash_path req \<notin> {fin, tra}"
    and rec: "compatible_record fin tra rec"
  shows "triple (kept_safe orig fin tra) (install_staged env rec req) (\<lambda>_. kept_safe orig fin tra) (kept_safe orig fin tra)"
proof -
  have rec': "compatible_record fin tra (rec\<lparr> ir_phase := Installed \<rparr>)" using rec by (simp add: compatible_record_def)
  show ?thesis unfolding install_staged_def kept_safe_files
    by (intro same_bind same_then triple_case_sum triple_rename_other same_triples triple_ret rec')
      (use assms in auto)
qed

definition compatible_request :: "path \<Rightarrow> path \<Rightarrow> commit_request \<Rightarrow> bool" where
  "compatible_request fin tra req \<longleftrightarrow> compatible fin tra (cr_temp_path req) (cr_final_path req) (cr_trash_path req)"

lemma record_of_compatible:
  "compatible_request fin tra req \<Longrightarrow> compatible_record fin tra (record_of wa req)"
  "compatible_request fin tra req \<Longrightarrow> compatible_record fin tra ((record_of wa req)\<lparr> ir_phase := p \<rparr>)"
  by (simp_all add: compatible_request_def compatible_record_def record_of_def)

lemma retire_kept:
  assumes ne: "fin \<noteq> tra" and c: "compatible_request fin tra req"
  shows "triple (on_files (\<lambda>fs. at_either orig fin tra fs \<and> (cr_final_path req = fin \<longrightarrow> at_path orig fin fs)) fin tra)
           (retire_and_install env wa req) (\<lambda>_. kept_safe orig fin tra) (kept_safe orig fin tra)"
proof (cases "cr_final_path req = fin")
  case True
  then have req: "cr_trash_path req = tra" "cr_temp_path req \<noteq> fin" "cr_temp_path req \<noteq> tra"
    using c by (auto simp: compatible_request_def compatible_def)
  let ?F = "on_files (\<lambda>fs. at_either orig fin tra fs \<and> at_path orig fin fs) fin tra" and ?T = "on_files (at_path orig tra) fin tra"
  have FS: "kept_safe orig fin tra w" if "?F w" for w using that by (simp add: kept_safe_files on_files_def)
  have TS: "kept_safe orig fin tra w" if "?T w" for w
    unfolding kept_safe_files by (rule at_path_either[OF that])
  have move: "triple ?F (call_or env (act_rename fin tra) wrap) (\<lambda>_. ?T) (kept_safe orig fin tra)" for wrap
    by (rule triple_call_or) (use FS in \<open>auto elim!: rename_path simp: at_path_def\<close>)
  have rec: "compatible_record fin tra (record_of wa req)" "compatible_record fin tra ((record_of wa req)\<lparr> ir_phase := Retired \<rparr>)"
    using record_of_compatible[OF c] by simp_all
  note before = triple_conseq[OF _ _ _ FS] and after = triple_conseq[OF triple_journal_record[OF rec(2)] _ _ TS]
  have "triple ?F (retire_and_install env wa req) (\<lambda>_. kept_safe orig fin tra) (kept_safe orig fin tra)"
    unfolding retire_and_install_def Let_def True req(1)
    by (intro same_then before[OF triple_journal_record[OF rec(1)]] before[OF triple_fsync]
        before[OF triple_sync_parent(1)] before[OF triple_sync_parent(3)] triple_then[OF move]
        after install_own[OF req(3) ne rec(1)]) (simp_all add: True req(1))
  then show ?thesis by (rule triple_conseq) (simp_all add: True on_files_def)
next
  case False
  then have req: "cr_temp_path req \<notin> {fin, tra}" "cr_final_path req \<notin> {fin, tra}" "cr_trash_path req \<notin> {fin, tra}"
    using c by (auto simp: compatible_request_def compatible_def)
  note rec = record_of_compatible[OF c]
  have "triple (kept_safe orig fin tra) (retire_and_install env wa req) (\<lambda>_. kept_safe orig fin tra) (kept_safe orig fin tra)"
    unfolding retire_and_install_def Let_def kept_safe_files
    by (intro same_then same_triples rec triple_rename_other req install_other[unfolded kept_safe_files])
  then show ?thesis by (rule triple_conseq) (simp_all add: kept_safe_files on_files_def)
qed

text \<open>What the guard of a request for the original's path has to tell apart at the time of the commit.\<close>

definition guard_tells :: "fs_file \<Rightarrow> path \<Rightarrow> commit_request \<Rightarrow> (path \<times> fs_file) list \<Rightarrow> bool" where
  "guard_tells orig fin req fs \<longleftrightarrow> (cr_final_path req = fin \<longrightarrow>
     (\<forall>f. map_of fs fin = Some f \<longrightarrow> guard_matches (cr_source_guard req) (guard_of f) \<longrightarrow> f = orig))"

lemma triple_same_device:
  "triple (on_files F fin tra) (ensure_same_device env device wa p) (\<lambda>_. on_files F fin tra) (on_files F fin tra)"
  unfolding ensure_same_device_def Let_def
  by (intro same_then triple_quiet_call triple_if triple_raise triple_ret) auto

lemma commit_kept:
  assumes ne: "fin \<noteq> tra" and c: "compatible_request fin tra req"
  shows "triple (on_files (\<lambda>fs. at_either orig fin tra fs \<and> guard_tells orig fin req fs) fin tra)
           (commit env device wa req) (\<lambda>_. kept_safe orig fin tra) (kept_safe orig fin tra)"
proof -
  let ?P = "on_files (\<lambda>fs. at_either orig fin tra fs \<and> guard_tells orig fin req fs) fin tra"
  have PS: "kept_safe orig fin tra w" if "?P w" for w using that by (simp add: kept_safe_files on_files_def)
  have stay: "triple ?P (retP x) (\<lambda>_. kept_safe orig fin tra) (kept_safe orig fin tra)" for x :: resolution
    by (rule triple_ret) (rule PS)
  let ?seen = "\<lambda>r w. ?P w \<and> (\<forall>g. r = Inr g \<longrightarrow> (\<exists>f. file_at (cr_final_path req) w = Some f \<and> g = guard_of f))"
  have look: "triple ?P (observe env (cr_final_path req)) ?seen (kept_safe orig fin tra)"
    unfolding observe_def
    by (rule triple_bind[where Q = "\<lambda>r w. ?P w \<and> (\<forall>f. r = Inr f \<longrightarrow> file_at (cr_final_path req) w = Some f)"])
      (auto intro!: triple_call triple_ret simp: act_stat_Inr PS split: sum.splits)
  have go: "triple (?seen (Inr g)) (retire_and_install env wa req) (\<lambda>_. kept_safe orig fin tra) (kept_safe orig fin tra)"
    if "guard_matches (cr_source_guard req) g" for g
    by (rule triple_conseq[OF retire_kept[OF ne c]])
      (use that in \<open>auto simp: on_files_def guard_tells_def at_path_def file_at_def\<close>)
  have declined: "triple (?seen r) (retP x) (\<lambda>_. kept_safe orig fin tra) (kept_safe orig fin tra)"
    for r and x :: resolution by (rule triple_ret) (use PS in blast)
  note before = triple_conseq[OF _ _ _ PS]
  show ?thesis unfolding commit_def
    by (intro same_then before[OF triple_same_device] same_bind before[OF triple_exists_same] triple_if stay
        triple_bind[OF look] triple_case_sum declined) (use go declined in \<open>auto split: if_splits\<close>)
qed

lemma recover_one_kept:
  assumes ne: "fin \<noteq> tra" and c: "compatible_record fin tra rec"
  shows "triple (kept_safe orig fin tra) (recover_one env rec) (\<lambda>_. kept_safe orig fin tra) (kept_safe orig fin tra)"
proof -
  let ?S = "on_files (at_either orig fin tra) fin tra"
  have temp: "ir_temp_path rec \<notin> {fin, tra}" using c by (simp add: compatible_record_def compatible_def)
  have restore: "triple ?S (call_or env (act_rename (ir_trash_path rec) (ir_final_path rec)) wrap) (\<lambda>_. ?S) ?S" for wrap
  proof (cases "ir_final_path rec = fin")
    case True
    then have "ir_trash_path rec = tra" using c by (auto simp: compatible_record_def compatible_def)
    then show ?thesis using True ne
      by (intro triple_call_or) (auto elim!: rename_path simp: at_either_def)
  next
    case False
    then show ?thesis using c
      by (intro triple_rename_other) (auto simp: compatible_record_def compatible_def)
  qed
  have drop_temp: "triple ?S (ignoring env (act_remove (ir_temp_path rec))) (\<lambda>_. ?S) ?S"
    by (rule triple_remove) (rule either_update(2)[OF temp])
  have "triple ?S (case ir_phase rec of Granted \<Rightarrow> p | Retired \<Rightarrow> q | Installed \<Rightarrow> r) (\<lambda>_. ?S) ?S"
    if "triple ?S p (\<lambda>_. ?S) ?S" "triple ?S q (\<lambda>_. ?S) ?S" "triple ?S r (\<lambda>_. ?S) ?S" for p q r :: "resolution prog"
    using that by (cases "ir_phase rec") simp_all
  note phases = this
  show ?thesis unfolding recover_one_def kept_safe_files
    by (intro same_bind same_triples phases same_then drop_temp triple_if restore triple_ret)
qed

lemma recover_each_kept:
  assumes ne: "fin \<noteq> tra"
  shows "\<forall>rec \<in> set recs. compatible_record fin tra rec \<Longrightarrow>
    triple (kept_safe orig fin tra) (recover_each env recs) (\<lambda>_. kept_safe orig fin tra) (kept_safe orig fin tra)"
proof (induction recs)
  case Nil show ?case unfolding recover_each.simps by (rule triple_ret)
next
  case (Cons rec recs)
  then have one: "triple (kept_safe orig fin tra) (recover_one env rec) (\<lambda>_. kept_safe orig fin tra) (kept_safe orig fin tra)"
    and rest: "triple (kept_safe orig fin tra) (recover_each env recs) (\<lambda>_. kept_safe orig fin tra) (kept_safe orig fin tra)"
    using recover_one_kept[OF ne] by simp_all
  have clear: "triple (kept_safe orig fin tra) (if b then journal_clear env j a else retP ())
      (\<lambda>_. kept_safe orig fin tra) (kept_safe orig fin tra)" for b j a
    unfolding kept_safe_files by (rule triple_clear_if)
  show ?case unfolding recover_each.simps
    by (intro same_bind one same_then clear rest triple_ret)
qed

lemma read_all_compatible:
  "triple (kept_safe orig fin tra) (read_all env ns)
     (\<lambda>recs w. kept_safe orig fin tra w \<and> (\<forall>r \<in> set recs. compatible_record fin tra r)) (kept_safe orig fin tra)"
proof (induction ns)
  case Nil show ?case unfolding read_all.simps by (rule triple_ret) simp
next
  case (Cons n ns)
  let ?K = "kept_safe orig fin tra"
  have tick: "?K (tick w) = ?K w" for w by (simp add: kept_safe_def safe_def)
  have read: "triple ?K (call_or env (act_jread n) wrap) (\<lambda>f w. ?K w \<and> (\<forall>r. f = Body r \<longrightarrow> compatible_record fin tra r)) ?K"
    for wrap
    by (rule triple_call_or)
      (auto simp: tick kept_safe_def safe_def journal_ok_def act_jread_def split: option.splits)
  have parse: "triple (\<lambda>w. ?K w \<and> (\<forall>r. f = Body r \<longrightarrow> compatible_record fin tra r)) (parse_body n f)
      (\<lambda>rec w. ?K w \<and> compatible_record fin tra rec) ?K" for f
    by (cases f) (auto simp: parse_body_def intro!: triple_ret triple_raise)
  have rest: "triple (\<lambda>w. ?K w \<and> compatible_record fin tra rec) (read_all env ns)
      (\<lambda>recs w. ?K w \<and> (\<forall>r \<in> set (rec # recs). compatible_record fin tra r)) ?K" for rec
    by (rule triple_conseq[OF triple_frame[where C = "compatible_record fin tra rec", OF Cons.IH]]) auto
  have all: "triple ?K (bindP (call_or env (act_jread n) (AE_Journal n)) (\<lambda>f. bindP (parse_body n f) (\<lambda>rec.
      bindP (read_all env ns) (\<lambda>recs. retP (rec # recs)))))
      (\<lambda>recs w. ?K w \<and> (\<forall>r \<in> set recs. compatible_record fin tra r)) ?K"
    by (rule triple_bind[OF read triple_bind[OF parse triple_bind[OF rest triple_ret]]])
  show ?case unfolding read_all.simps by (intro triple_if Cons.IH all)
qed

lemma recover_all_kept:
  assumes ne: "fin \<noteq> tra"
  shows "triple (kept_safe orig fin tra) (recover_all env) (\<lambda>_. kept_safe orig fin tra) (kept_safe orig fin tra)"
proof -
  let ?K = "kept_safe orig fin tra"
  let ?R = "\<lambda>recs w. ?K w \<and> (\<forall>r \<in> set recs. compatible_record fin tra r)"
  have list: "triple ?K (call_or env act_jlist wrap) (\<lambda>_. ?K) ?K" for wrap
    by (rule triple_call_or) (auto simp: kept_safe_def safe_def act_jlist_def)
  have sorted: "triple (?R recs) (retP (sort_records recs)) ?R ?K" for recs
    by (rule triple_ret) (simp add: sort_records_def)
  have out: "triple ?K (outstanding env) ?R ?K"
    unfolding outstanding_def by (rule triple_bind[OF list triple_bind[OF read_all_compatible sorted]])
  have each: "triple (?R recs) (recover_each env recs) (\<lambda>_. ?K) ?K" for recs
    by (rule triple_conseq[OF triple_frame[where C = "\<forall>r \<in> set recs. compatible_record fin tra r",
        OF recover_each_kept[OF ne]]]) auto
  show ?thesis unfolding recover_all_def by (rule triple_bind[OF out each])
qed

section \<open>Runs of the agent\<close>

text \<open>
  Any sequence of commits and recoveries, each in an environment of its own that may fail or crash
  it anywhere. A commit over the original's own path needs a guard that tells the original from
  what is there, which is what the guard is for; nothing else is asked of the requests.
\<close>

inductive agent_run :: "fs_file \<Rightarrow> path \<Rightarrow> path \<Rightarrow> world \<Rightarrow> world \<Rightarrow> bool" for orig fin tra where
  idle: "agent_run orig fin tra w w"
| install: "agent_run orig fin tra w w1 \<Longrightarrow> compatible_request fin tra req
    \<Longrightarrow> guard_tells orig fin req (wd_files w1) \<Longrightarrow> commit env device wa req w1 = (res, w2)
    \<Longrightarrow> agent_run orig fin tra w w2"
| recover: "agent_run orig fin tra w w1 \<Longrightarrow> recover_all env w1 = (out, w2) \<Longrightarrow> agent_run orig fin tra w w2"

lemma tripleD:
  assumes "triple P p (\<lambda>_. I) I" "P w" "p w = (r, w')"
  shows "I w'"
proof -
  have "case p w of (Done a, w') \<Rightarrow> I w' | (Raised e, w') \<Rightarrow> I w' | (Crashed, w') \<Rightarrow> I w'"
    by (rule assms(1)[unfolded triple_def, rule_format, OF assms(2)])
  then show ?thesis using assms(3) by (cases r) simp_all
qed

lemma agent_run_kept:
  assumes "agent_run orig fin tra w w'" "fin \<noteq> tra" "kept_safe orig fin tra w"
  shows "kept_safe orig fin tra w'"
  using assms(1,3)
proof (induction rule: agent_run.induct)
  case (idle w) then show ?case .
next
  case (install w w1 req env device wa res w2)
  have "on_files (\<lambda>fs. at_either orig fin tra fs \<and> guard_tells orig fin req fs) fin tra w1"
    using install by (auto simp: kept_safe_files on_files_def)
  from tripleD[OF commit_kept[OF assms(2) install.hyps(2)] this install.hyps(4)] show ?case .
next
  case (recover w w1 env out w2)
  then show ?case using tripleD[OF recover_all_kept[OF assms(2)]] by blast
qed

end
