(* ===== verification/Crash_Recovery.thy ===== *)
theory Crash_Recovery
  imports Commit_Ritual
begin

text \<open>
  What recovery makes of an install that was interrupted at one instant: the states the ritual passes
  through, call by call, when nothing fails of itself, and what recovery concludes from each of them.
\<close>

section \<open>Stages\<close>

text \<open>
  The journal of one job: no record or one, and possibly the temporary file of a write under way.
\<close>

definition journal_base :: "string \<Rightarrow> i64 \<Rightarrow> intent_record option \<Rightarrow> (string \<times> journal_file) list" where
  "journal_base j a ph = (case ph of None \<Rightarrow> [] | Some r \<Rightarrow> [(path_for j a, Body r)])"

definition journal_is :: "string \<Rightarrow> i64 \<Rightarrow> intent_record option \<Rightarrow> world \<Rightarrow> bool" where
  "journal_is j a ph w \<longleftrightarrow> wd_journal w = journal_base j a ph
     \<or> (\<exists>x. wd_journal w = journal_base j a ph @ [(writing_path j a, x)])"

definition files_are :: "((path \<times> fs_file) list \<Rightarrow> bool) \<Rightarrow> world \<Rightarrow> bool" where
  "files_are F w \<longleftrightarrow> F (wd_files w)"

definition stage :: "((path \<times> fs_file) list \<Rightarrow> bool) \<Rightarrow> string \<Rightarrow> i64 \<Rightarrow> intent_record option \<Rightarrow> world \<Rightarrow> bool" where
  "stage F j a ph w \<longleftrightarrow> F (wd_files w) \<and> journal_is j a ph w"

lemma stage_tick [simp]: "stage F j a ph (tick w) = stage F j a ph w"
  by (simp add: stage_def journal_is_def)

lemma open_stage:
  "stage F j a ph w \<Longrightarrow> \<exists>w'. act_jopen (writing_path j a) w = Inr ((), w') \<and> wd_files w' = wd_files w
     \<and> wd_journal w' = journal_base j a ph @ [(writing_path j a, Torn)]"
  by (auto simp: act_jopen_def stage_def journal_is_def journal_base_def split: option.splits)

lemma write_stage:
  "wd_journal w = journal_base j a ph @ [(writing_path j a, x)] \<Longrightarrow>
   \<exists>w'. act_jwrite (writing_path j a) r w = Inr ((), w') \<and> wd_files w' = wd_files w
     \<and> wd_journal w' = journal_base j a ph @ [(writing_path j a, Body r)]"
  by (auto simp: act_jwrite_def journal_base_def split: option.splits)

lemma publish_stage:
  "wd_journal w = journal_base j a ph @ [(writing_path j a, Body r)] \<Longrightarrow>
   \<exists>w'. act_jrename (writing_path j a) (path_for j a) w = Inr ((), w') \<and> wd_files w' = wd_files w
     \<and> wd_journal w' = journal_base j a (Some r)"
  by (auto simp: act_jrename_def journal_at_def journal_base_def split: option.splits)

text \<open>Publishing a record is atomic: wherever the process dies, the journal has the old record or the new.\<close>

lemma record_stage:
  assumes env: "crash_only env" and r: "ir_job_id r = j" "ir_attempt r = a"
    and I: "\<And>w. stage F j a ph w \<Longrightarrow> may_crash env \<Longrightarrow> I w" "\<And>w. stage F j a (Some r) w \<Longrightarrow> may_crash env \<Longrightarrow> I w"
  shows "triple (stage F j a ph) (journal_record env r) (\<lambda>_. stage F j a (Some r)) I"
proof -
  let ?tmp = "\<lambda>x w. F (wd_files w) \<and> wd_journal w = journal_base j a ph @ [(writing_path j a, x)]"
  have tmp: "stage F j a ph w" if "?tmp x w" for x w using that by (auto simp: stage_def journal_is_def)
  have 1: "triple (stage F j a ph) (call_or env (act_jopen (writing_path j a)) wrap) (\<lambda>_. ?tmp Torn) I" for wrap
    by (rule triple_call_or_sure[OF env I(1)]) (use open_stage in \<open>fastforce simp: stage_def\<close>)+
  have 2: "triple (?tmp Torn) (call_or env (act_jwrite (writing_path j a) r) wrap) (\<lambda>_. ?tmp (Body r)) I" for wrap
    by (rule triple_call_or_sure[OF env I(1)[OF tmp]]) (use write_stage in fastforce)+
  have 3: "triple (?tmp (Body r)) (call_or env act_nothing wrap) (\<lambda>_. ?tmp (Body r)) I" for wrap
    by (rule triple_nothing_sure[OF env I(1)[OF tmp]]) simp_all
  have 4: "triple (?tmp (Body r)) (call_or env (act_jrename (writing_path j a) (path_for j a)) wrap)
      (\<lambda>_. stage F j a (Some r)) I" for wrap
    by (rule triple_call_or_sure[OF env I(1)[OF tmp]])
      (use publish_stage in \<open>fastforce simp: stage_def journal_is_def\<close>)+
  have 5: "triple (stage F j a (Some r)) (call_or env act_nothing wrap) (\<lambda>_. stage F j a (Some r)) I" for wrap
    by (rule triple_nothing_sure[OF env I(2)]) simp_all
  show ?thesis unfolding journal_record_def Let_def r
    by (rule triple_then[OF 1 triple_then[OF 2 triple_then[OF 3 triple_then[OF 4 5]]]])
qed

lemma clear_stage:
  assumes env: "crash_only env"
    and I: "\<And>w. stage F j a (Some r) w \<Longrightarrow> may_crash env \<Longrightarrow> I w" "\<And>w. stage F j a None w \<Longrightarrow> may_crash env \<Longrightarrow> I w"
  shows "triple (stage F j a (Some r)) (journal_clear env j a) (\<lambda>_. stage F j a None) I"
proof -
  have rm: "\<exists>u w'. act_jremove (path_for j a) w = Inr (u, w') \<and> stage F j a None w'"
    if "stage F j a (Some r) w" for w
    using that by (auto simp: stage_def journal_is_def journal_base_def act_jremove_def journal_at_def)
  have 1: "triple (stage F j a (Some r)) (call env (act_jremove (path_for j a)))
      (\<lambda>x w. (\<exists>u. x = Inr u) \<and> stage F j a None w) I"
    by (rule triple_call_sure[OF env I(1)]) (use rm in fastforce)+
  have 2: "triple (stage F j a None) (call_or env act_nothing wrap) (\<lambda>_. stage F j a None) I" for wrap
    by (rule triple_nothing_sure[OF env I(2)]) simp_all
  have 3: "triple (\<lambda>w. (\<exists>u. x = Inr u) \<and> stage F j a None w)
      (case x of Inr u \<Rightarrow> call_or env act_nothing (AE_Journal ''.journal'')
         | Inl IO_NotFound \<Rightarrow> retP () | Inl e \<Rightarrow> raiseP (AE_Journal (path_for j a) e)) (\<lambda>_. stage F j a None) I"
    for x :: "io_error + unit" using 2 by (cases x) (simp_all add: triple_def)
  show ?thesis unfolding journal_clear_def Let_def by (rule triple_bind[OF 1 3])
qed

lemma rename_stage:
  assumes env: "crash_only env" and I: "\<And>w. stage F j a ph w \<Longrightarrow> may_crash env \<Longrightarrow> I w"
    and F: "\<And>fs. F fs \<Longrightarrow> \<exists>f. map_of fs p = Some f \<and> G (AList.update q f (AList.delete p fs))"
  shows "triple (stage F j a ph) (call_or env (act_rename p q) wrap) (\<lambda>_. stage G j a ph) I"
    and "triple (stage F j a ph) (call env (act_rename p q)) (\<lambda>x w. (\<exists>u. x = Inr u) \<and> stage G j a ph w) I"
proof -
  have mv: "\<exists>u w'. act_rename p q w = Inr (u, w') \<and> stage G j a ph w'" if "stage F j a ph w" for w
    using that F[of "wd_files w"] by (auto simp: stage_def act_rename_def file_at_def journal_is_def)
  show "triple (stage F j a ph) (call_or env (act_rename p q) wrap) (\<lambda>_. stage G j a ph) I"
    by (rule triple_call_or_sure[OF env I]) (use mv in fastforce)+
  show "triple (stage F j a ph) (call env (act_rename p q)) (\<lambda>x w. (\<exists>u. x = Inr u) \<and> stage G j a ph w) I"
    by (rule triple_call_sure[OF env I]) (use mv in fastforce)+
qed

lemma size_stage:
  assumes env: "crash_only env" and I: "\<And>w. stage F j a ph w \<Longrightarrow> may_crash env \<Longrightarrow> I w"
    and F: "\<And>fs. F fs \<Longrightarrow> map_of fs p = Some f"
  shows "triple (stage F j a ph) (size_or_zero env p)
    (\<lambda>n w. stage F j a ph w \<and> n = of_nat (length (fl_bytes f))) I"
proof -
  have 1: "triple (stage F j a ph) (call env (act_stat p)) (\<lambda>x w. stage F j a ph w \<and> x = Inr f) I"
    by (rule triple_call_sure[OF env I]) (use F in \<open>auto simp: act_stat_def stage_def file_at_def journal_is_def\<close>)
  show ?thesis unfolding size_or_zero_def
    by (rule triple_bind[OF 1]) (auto simp: triple_def retP_def)
qed

lemma sync_stage:
  assumes env: "crash_only env" and I: "\<And>w. stage F j a ph w \<Longrightarrow> may_crash env \<Longrightarrow> I w"
  shows "triple (stage F j a ph) (sync_parent env p) (\<lambda>_. stage F j a ph) I"
    and "triple (stage F j a ph) (sync_parent_or_root env p) (\<lambda>_. stage F j a ph) I"
    and "triple (stage F j a ph) (create_parent env p) (\<lambda>_. stage F j a ph) I"
  unfolding sync_parent_def sync_parent_or_root_def create_parent_def
  by (auto intro!: triple_ignoring_sure[OF env] triple_nothing_sure[OF env] I triple_ret split: option.split)

lemma fsync_stage:
  assumes env: "crash_only env" and I: "\<And>w. stage F j a ph w \<Longrightarrow> may_crash env \<Longrightarrow> I w"
    and F: "\<And>fs. F fs \<Longrightarrow> map_of fs p = Some f"
  shows "triple (stage F j a ph) (fsync_file env p) (\<lambda>_. stage F j a ph) I"
  unfolding fsync_file_def
proof (rule same_bind)
  show "triple (stage F j a ph) (call_or env (act_stat p) wrap) (\<lambda>_. stage F j a ph) I" for wrap
    by (rule triple_call_or_sure[OF env I]) (use F in \<open>auto simp: act_stat_def stage_def file_at_def journal_is_def\<close>)
  show "triple (stage F j a ph) (call_or env act_nothing wrap) (\<lambda>_. stage F j a ph) I" for wrap
    by (rule triple_nothing_sure[OF env I]) simp_all
qed

section \<open>The stages of one install\<close>

text \<open>Before the original moves; between the two renames; after the replacement has moved in.\<close>

definition before_retire :: "fs_file \<Rightarrow> fs_file \<Rightarrow> commit_request \<Rightarrow> (path \<times> fs_file) list \<Rightarrow> bool" where
  "before_retire orig staged req fs \<longleftrightarrow> map_of fs (cr_final_path req) = Some orig
     \<and> map_of fs (cr_temp_path req) = Some staged \<and> map_of fs (cr_trash_path req) = None"

definition in_between :: "fs_file \<Rightarrow> fs_file \<Rightarrow> commit_request \<Rightarrow> (path \<times> fs_file) list \<Rightarrow> bool" where
  "in_between orig staged req fs \<longleftrightarrow> map_of fs (cr_final_path req) = None
     \<and> map_of fs (cr_temp_path req) = Some staged \<and> map_of fs (cr_trash_path req) = Some orig"

definition after_install :: "fs_file \<Rightarrow> fs_file \<Rightarrow> commit_request \<Rightarrow> (path \<times> fs_file) list \<Rightarrow> bool" where
  "after_install orig staged req fs \<longleftrightarrow> map_of fs (cr_final_path req) = Some staged
     \<and> map_of fs (cr_temp_path req) = None \<and> map_of fs (cr_trash_path req) = Some orig"

definition distinct_paths :: "commit_request \<Rightarrow> bool" where
  "distinct_paths req \<longleftrightarrow> cr_final_path req \<noteq> cr_temp_path req \<and> cr_final_path req \<noteq> cr_trash_path req
     \<and> cr_temp_path req \<noteq> cr_trash_path req"

definition phase_rec :: "work_area \<Rightarrow> commit_request \<Rightarrow> intent_phase \<Rightarrow> intent_record" where
  "phase_rec wa req p = (record_of wa req)\<lparr> ir_phase := p \<rparr>"

definition commit_stage :: "fs_file \<Rightarrow> fs_file \<Rightarrow> work_area \<Rightarrow> commit_request \<Rightarrow> world \<Rightarrow> bool" where
  "commit_stage orig staged wa req w \<longleftrightarrow>
     (let st = (\<lambda>F ph. stage (F orig staged req) (cr_job_id req) (cr_attempt req) ph w);
          rec = (\<lambda>p. Some (phase_rec wa req p))
      in st before_retire None \<or> st before_retire (rec Granted) \<or> st in_between (rec Granted)
       \<or> st in_between (rec Retired) \<or> st after_install (rec Retired) \<or> st after_install (rec Installed)
       \<or> st after_install None)"

lemma phase_rec_simps [simp]:
  "record_of wa req = phase_rec wa req Granted" "(phase_rec wa req p)\<lparr> ir_phase := q \<rparr> = phase_rec wa req q"
  "ir_job_id (phase_rec wa req p) = cr_job_id req" "ir_attempt (phase_rec wa req p) = cr_attempt req"
  "ir_final_path (phase_rec wa req p) = cr_final_path req" "ir_temp_path (phase_rec wa req p) = cr_temp_path req"
  "ir_trash_path (phase_rec wa req p) = cr_trash_path req" "ir_phase (phase_rec wa req p) = p"
  by (simp_all add: phase_rec_def record_of_def)

lemma commit_stages:
  assumes env: "crash_only env" and d: "distinct_paths req"
    and dev: "device (wa_root wa) = device (case parent (cr_final_path req) of Some q \<Rightarrow> q | None \<Rightarrow> [RootDir])"
    and guard: "guard_matches (cr_source_guard req) (guard_of orig)"
  shows "triple (stage (before_retire orig staged req) (cr_job_id req) (cr_attempt req) None)
     (commit env device wa req)
     (\<lambda>r w. r = R_Installed (cr_trash_path req) (of_nat (length (fl_bytes staged)))
        \<and> stage (after_install orig staged req) (cr_job_id req) (cr_attempt req) None w)
     (\<lambda>w. may_crash env \<and> commit_stage orig staged wa req w)"
proof -
  let ?j = "cr_job_id req" and ?a = "cr_attempt req"
  let ?A = "before_retire orig staged req" and ?C = "in_between orig staged req" and ?E = "after_install orig staged req"
  let ?I = "\<lambda>w. may_crash env \<and> commit_stage orig staged wa req w"
  let ?rec = "\<lambda>p. Some (phase_rec wa req p)"
  have I: "stage ?A ?j ?a None w \<Longrightarrow> may_crash env \<Longrightarrow> ?I w" "stage ?A ?j ?a (?rec Granted) w \<Longrightarrow> may_crash env \<Longrightarrow> ?I w"
    "stage ?C ?j ?a (?rec Granted) w \<Longrightarrow> may_crash env \<Longrightarrow> ?I w" "stage ?C ?j ?a (?rec Retired) w \<Longrightarrow> may_crash env \<Longrightarrow> ?I w"
    "stage ?E ?j ?a (?rec Retired) w \<Longrightarrow> may_crash env \<Longrightarrow> ?I w" "stage ?E ?j ?a (?rec Installed) w \<Longrightarrow> may_crash env \<Longrightarrow> ?I w"
    "stage ?E ?j ?a None w \<Longrightarrow> may_crash env \<Longrightarrow> ?I w" for w
    by (simp_all add: commit_stage_def Let_def)
  have dev1: "triple (stage ?A ?j ?a None) (ensure_same_device env device wa (cr_final_path req)) (\<lambda>_. stage ?A ?j ?a None) ?I"
    unfolding ensure_same_device_def Let_def
    by (intro same_then triple_nothing_sure[OF env] I(1) triple_if triple_ret) (simp_all add: dev)
  have temp: "triple (stage ?A ?j ?a None) (existsP env (cr_temp_path req)) (\<lambda>b w. stage ?A ?j ?a None w \<and> b) ?I"
    by (rule triple_exists_sure[OF env I(1)])
      (auto simp: stage_def before_retire_def file_at_def journal_is_def)
  have look: "triple (stage ?A ?j ?a None) (observe env (cr_final_path req))
      (\<lambda>x w. stage ?A ?j ?a None w \<and> x = Inr (guard_of orig)) ?I"
    unfolding observe_def
  proof (rule triple_bind)
    show "triple (stage ?A ?j ?a None) (call env (act_stat (cr_final_path req)))
        (\<lambda>x w. stage ?A ?j ?a None w \<and> x = Inr orig) ?I"
      by (rule triple_call_sure[OF env I(1)]) (auto simp: act_stat_def stage_def before_retire_def file_at_def journal_is_def)
    show "triple (\<lambda>w. stage ?A ?j ?a None w \<and> x = Inr orig) (retP (case x of Inl e \<Rightarrow> Inl e | Inr f \<Rightarrow> Inr (guard_of f)))
        (\<lambda>x w. stage ?A ?j ?a None w \<and> x = Inr (guard_of orig)) ?I" for x
      by (auto simp: triple_def retP_def)
  qed
  have retire: "triple (stage ?A ?j ?a (?rec Granted)) (call_or env (act_rename (cr_final_path req) (cr_trash_path req)) wrap)
      (\<lambda>_. stage ?C ?j ?a (?rec Granted)) ?I" for wrap
    by (rule rename_stage(1)[OF env I(2)]) (use d in \<open>auto simp: before_retire_def in_between_def distinct_paths_def\<close>)
  have move: "triple (stage ?C ?j ?a (?rec Retired)) (call env (act_rename (cr_temp_path req) (cr_final_path req)))
      (\<lambda>x w. (\<exists>u. x = Inr u) \<and> stage ?E ?j ?a (?rec Retired) w) ?I"
    by (rule rename_stage(2)[OF env I(4)]) (use d in \<open>auto simp: in_between_def after_install_def distinct_paths_def\<close>)
  have size: "triple (stage ?E ?j ?a (?rec Installed)) (size_or_zero env (cr_final_path req))
      (\<lambda>n w. stage ?E ?j ?a (?rec Installed) w \<and> n = of_nat (length (fl_bytes staged))) ?I"
    by (rule size_stage[OF env I(6)]) (simp_all add: after_install_def)
  note rec1 = record_stage[OF env, where j = ?j and a = ?a] and same = triple_then
  have finish: "triple (stage ?E ?j ?a (?rec Retired)) (thenP (journal_record env (phase_rec wa req Installed))
         (thenP (sync_parent_or_root env (cr_final_path req))
         (bindP (size_or_zero env (cr_final_path req)) (\<lambda>n.
          thenP (journal_clear env ?j ?a) (retP (R_Installed (cr_trash_path req) n))))))
      (\<lambda>r w. r = R_Installed (cr_trash_path req) (of_nat (length (fl_bytes staged))) \<and> stage ?E ?j ?a None w) ?I"
  proof (rule triple_then[OF rec1 triple_then[OF sync_stage(2) triple_bind[OF size]]])
    show "triple (\<lambda>w. stage ?E ?j ?a (?rec Installed) w \<and> n = of_nat (length (fl_bytes staged)))
        (thenP (journal_clear env ?j ?a) (retP (R_Installed (cr_trash_path req) n)))
        (\<lambda>r w. r = R_Installed (cr_trash_path req) (of_nat (length (fl_bytes staged))) \<and> stage ?E ?j ?a None w) ?I" for n
    proof (cases "n = of_nat (length (fl_bytes staged))")
      case True
      show ?thesis by (rule triple_then[OF triple_conseq[OF clear_stage[OF env I(6,7)]] triple_ret]) (simp_all add: True)
    next
      case False
      then show ?thesis by (simp add: triple_def)
    qed
  qed (use I(5,6) env in simp_all)
  have install: "triple (stage ?C ?j ?a (?rec Retired)) (install_staged env (phase_rec wa req Granted) req)
      (\<lambda>r w. r = R_Installed (cr_trash_path req) (of_nat (length (fl_bytes staged))) \<and> stage ?E ?j ?a None w) ?I"
    unfolding install_staged_def phase_rec_simps
  proof (rule triple_bind[OF move])
    fix r :: "io_error + unit"
    show "triple (\<lambda>w. (\<exists>u. r = Inr u) \<and> stage ?E ?j ?a (?rec Retired) w)
       (case r of Inl e \<Rightarrow> X e | Inr u \<Rightarrow> thenP (journal_record env (phase_rec wa req Installed))
         (thenP (sync_parent_or_root env (cr_final_path req))
         (bindP (size_or_zero env (cr_final_path req)) (\<lambda>n.
          thenP (journal_clear env ?j ?a) (retP (R_Installed (cr_trash_path req) n))))))
      (\<lambda>r w. r = R_Installed (cr_trash_path req) (of_nat (length (fl_bytes staged))) \<and> stage ?E ?j ?a None w) ?I" for X
      using finish by (cases r) (simp_all add: triple_def)
  qed
  have go: "triple (stage ?A ?j ?a None) (retire_and_install env wa req)
      (\<lambda>r w. r = R_Installed (cr_trash_path req) (of_nat (length (fl_bytes staged))) \<and> stage ?E ?j ?a None w) ?I"
    unfolding retire_and_install_def Let_def phase_rec_simps
    by (rule triple_then[OF rec1 triple_then[OF fsync_stage[OF env I(2)] triple_then[OF sync_stage(1)[OF env I(2)]
          triple_then[OF sync_stage(3)[OF env I(2)] triple_then[OF retire triple_then[OF rec1 install]]]]]])
      (simp_all add: I before_retire_def)
  have looked: "triple (\<lambda>w. stage ?A ?j ?a None w \<and> x = Inr (guard_of orig))
     (case x of Inl e \<Rightarrow> X e | Inr g \<Rightarrow> if \<not> guard_matches (cr_source_guard req) g then Y else retire_and_install env wa req)
     (\<lambda>r w. r = R_Installed (cr_trash_path req) (of_nat (length (fl_bytes staged))) \<and> stage ?E ?j ?a None w) ?I"
    for x :: "io_error + source_guard" and X Y
  proof (cases "x = Inr (guard_of orig)")
    case True
    then show ?thesis using go guard by simp
  next
    case False
    then show ?thesis by (simp add: triple_def)
  qed
  have staged: "triple (\<lambda>w. stage ?A ?j ?a None w \<and> b)
     (if \<not> b then X else bindP (observe env (cr_final_path req)) Z)
     (\<lambda>r w. r = R_Installed (cr_trash_path req) (of_nat (length (fl_bytes staged))) \<and> stage ?E ?j ?a None w) ?I"
    if "triple (stage ?A ?j ?a None) (bindP (observe env (cr_final_path req)) Z)
     (\<lambda>r w. r = R_Installed (cr_trash_path req) (of_nat (length (fl_bytes staged))) \<and> stage ?E ?j ?a None w) ?I" for b X Z
    using that by (cases b) (simp_all add: triple_def)
  show ?thesis unfolding commit_def
    by (rule triple_then[OF dev1 triple_bind[OF temp staged[OF triple_bind[OF look looked]]]])
qed

section \<open>Recovering from a stage\<close>

lemma quiet_steps [simp]:
  "call quiet act w = (case act w of Inl e \<Rightarrow> (Done (Inl e), tick w) | Inr (a, w') \<Rightarrow> (Done (Inr a), tick w'))"
  by (simp add: call_def quiet_def)

lemma bind_steps [simp]:
  "bindP p f w = (case p w of (Done a, w') \<Rightarrow> f a w' | (Raised e, w') \<Rightarrow> (Raised e, w') | (Crashed, w') \<Rightarrow> (Crashed, w'))"
  "thenP p q w = (case p w of (Done a, w') \<Rightarrow> q w' | (Raised e, w') \<Rightarrow> (Raised e, w') | (Crashed, w') \<Rightarrow> (Crashed, w'))"
  "retP a w = (Done a, w)"
  by (simp_all add: bindP_def thenP_def retP_def)

definition records_in :: "intent_record option \<Rightarrow> intent_record list" where
  "records_in ph = (case ph of None \<Rightarrow> [] | Some r \<Rightarrow> [r])"

lemma read_all_none: "filter is_json ns = [] \<Longrightarrow> read_all quiet ns v = (Done [], v)"
  by (induction ns) (auto split: if_splits)

lemma outstanding_stage:
  assumes "stage F j a ph w"
  shows "\<exists>w'. outstanding quiet w = (Done (records_in ph), w') \<and> stage F j a ph w'"
proof -
  have at: "journal_at (path_for j a) v = Some (Body r)"
    if "wd_journal v = wd_journal w" "ph = Some r" for v r
    using assms that by (auto simp: journal_at_def stage_def journal_is_def journal_base_def)
  have keep: "stage F j a ph v" if "wd_journal v = wd_journal w" "wd_files v = wd_files w" for v
    using assms that by (simp add: stage_def journal_is_def)
  show ?thesis
  proof (cases ph)
    case None
    then have "filter is_json (map fst (wd_journal w)) = []"
      using assms by (auto simp: stage_def journal_is_def journal_base_def)
    then have "read_all quiet (map fst (wd_journal w)) v = (Done [], v)" for v
      by (rule read_all_none)
    then show ?thesis using None keep[of "tick w"]
      by (simp add: outstanding_def call_or_def act_jlist_def records_in_def sort_records_def)
  next
    case (Some r)
    have "map fst (wd_journal w) = [path_for j a] \<or> map fst (wd_journal w) = [path_for j a, writing_path j a]"
      using assms Some by (auto simp: stage_def journal_is_def journal_base_def)
    then show ?thesis using Some at[of "tick w"] keep[of "tick (tick w)"]
      by (auto simp: outstanding_def call_or_def act_jlist_def act_jread_def parse_body_def records_in_def
          sort_records_def)
  qed
qed

definition original_back :: "fs_file \<Rightarrow> fs_file \<Rightarrow> commit_request \<Rightarrow> (path \<times> fs_file) list \<Rightarrow> bool" where
  "original_back orig staged req fs \<longleftrightarrow> map_of fs (cr_final_path req) = Some orig \<and> map_of fs (cr_trash_path req) = None"

definition destination_empty :: "fs_file \<Rightarrow> fs_file \<Rightarrow> commit_request \<Rightarrow> (path \<times> fs_file) list \<Rightarrow> bool" where
  "destination_empty orig staged req fs \<longleftrightarrow> map_of fs (cr_final_path req) = None \<and> map_of fs (cr_trash_path req) = Some orig"

lemma recover_one_stage:
  fixes wa req orig staged p
  defines "rec \<equiv> phase_rec wa req p"
  assumes "distinct_paths req" "stage (F orig staged req) (cr_job_id req) (cr_attempt req) (Some rec) w"
    and "(F, p, G, R) \<in> {
        (before_retire, Granted, original_back, R_SourceIntact ''interrupted before the original was moved''),
        (in_between, Granted, destination_empty, R_NeedsOperator (''journal says nothing had moved, but ''
            @ path_display (cr_final_path req) @ '' is not there'')),
        (in_between, Retired, original_back, R_SourceRestored ''interrupted between retiring the original and installing''),
        (after_install, Retired, after_install, R_Installed (cr_trash_path req) (of_nat (length (fl_bytes staged)))),
        (after_install, Installed, after_install, R_Installed (cr_trash_path req) (of_nat (length (fl_bytes staged))))}"
  shows "\<exists>w'. recover_one quiet rec w = (Done R, w')
    \<and> stage (G orig staged req) (cr_job_id req) (cr_attempt req) (Some rec) w'"
  using assms
  by (auto simp: recover_one_def rec_def existsP_def act_stat_def ignoring_def act_remove_def file_at_def call_or_def
      act_rename_def size_or_zero_def sync_parent_or_root_def stage_def journal_is_def distinct_paths_def
      before_retire_def in_between_def after_install_def original_back_def destination_empty_def)

lemma triple_run:
  assumes "triple P p Q (\<lambda>_. False)" "P w"
  shows "\<exists>a w'. p w = (Done a, w') \<and> Q a w'"
proof -
  have "case p w of (Done a, w') \<Rightarrow> Q a w' | (Raised e, w') \<Rightarrow> False | (Crashed, w') \<Rightarrow> False"
    by (rule assms(1)[unfolded triple_def, rule_format, OF assms(2)])
  then show ?thesis by (auto split: prod.splits outcome.splits)
qed

lemma recover_all_none:
  assumes "stage F j a None w"
  shows "\<exists>w'. recover_all quiet w = (Done [], w') \<and> stage F j a None w'"
  using outstanding_stage[OF assms] by (auto simp: recover_all_def records_in_def)

lemma recover_all_one:
  assumes "stage F j a (Some rec) w" "ir_job_id rec = j" "ir_attempt rec = a"
    and one: "\<And>v. stage F j a (Some rec) v \<Longrightarrow> \<exists>v'. recover_one quiet rec v = (Done R, v') \<and> stage G j a (Some rec) v'"
  shows "\<exists>w'. recover_all quiet w = (Done [(j, R)], w') \<and> stage G j a (if is_resolved R then None else Some rec) w'"
proof -
  obtain v where v: "outstanding quiet w = (Done [rec], v)" "stage F j a (Some rec) v"
    using outstanding_stage[OF assms(1)] by (auto simp: records_in_def)
  obtain u where u: "recover_one quiet rec v = (Done R, u)" "stage G j a (Some rec) u"
    using one[OF v(2)] by blast
  obtain x where x: "journal_clear quiet j a u = (Done (), x)" "stage G j a None x"
    using triple_run[OF clear_stage[OF quiet_env(1), where I = "\<lambda>_. False"] u(2)] by auto
  show ?thesis using v(1) u x assms(2,3) by (cases "is_resolved R") (simp_all add: recover_all_def)
qed

definition replaced :: "fs_file \<Rightarrow> fs_file \<Rightarrow> commit_request \<Rightarrow> world \<Rightarrow> bool" where
  "replaced orig staged req w \<longleftrightarrow> file_at (cr_final_path req) w = Some staged \<and> file_at (cr_trash_path req) w = Some orig
     \<and> journal_at (path_for (cr_job_id req) (cr_attempt req)) w = None"

definition undone :: "fs_file \<Rightarrow> commit_request \<Rightarrow> world \<Rightarrow> bool" where
  "undone orig req w \<longleftrightarrow> file_at (cr_final_path req) w = Some orig \<and> file_at (cr_trash_path req) w = None
     \<and> journal_at (path_for (cr_job_id req) (cr_attempt req)) w = None"

definition left_empty :: "fs_file \<Rightarrow> work_area \<Rightarrow> commit_request \<Rightarrow> world \<Rightarrow> bool" where
  "left_empty orig wa req w \<longleftrightarrow> file_at (cr_final_path req) w = None \<and> file_at (cr_trash_path req) w = Some orig
     \<and> journal_at (path_for (cr_job_id req) (cr_attempt req)) w = Some (Body (record_of wa req))"

text \<open>What recovery may answer and leave behind.\<close>

definition recovered :: "fs_file \<Rightarrow> fs_file \<Rightarrow> work_area \<Rightarrow> commit_request \<Rightarrow> (string \<times> resolution) list \<Rightarrow> world \<Rightarrow> bool" where
  "recovered orig staged wa req out w \<longleftrightarrow>
     undone orig req w \<and> list_all (\<lambda>(j, x). j = cr_job_id req
        \<and> resolution_label x \<in> {''source_intact'', ''source_restored''}) out
   \<or> replaced orig staged req w \<and> list_all (\<lambda>(j, x). j = cr_job_id req
        \<and> x = R_Installed (cr_trash_path req) (of_nat (length (fl_bytes staged)))) out
   \<or> left_empty orig wa req w \<and> map (\<lambda>(j, x). (j, resolution_label x)) out = [(cr_job_id req, ''needs_operator'')]"

lemma stage_journal_at: "stage F j a ph w \<Longrightarrow> journal_at (path_for j a) w = map_option Body ph"
  by (auto simp: stage_def journal_is_def journal_base_def journal_at_def split: option.splits)

lemma stage_recovered:
  assumes "stage (F orig staged req) (cr_job_id req) (cr_attempt req) ph w"
    and "ph = None \<and> F \<in> {before_retire, original_back}
          \<and> list_all (\<lambda>(j, x). j = cr_job_id req \<and> resolution_label x \<in> {''source_intact'', ''source_restored''}) out
       \<or> ph = None \<and> F = after_install
          \<and> list_all (\<lambda>(j, x). j = cr_job_id req
               \<and> x = R_Installed (cr_trash_path req) (of_nat (length (fl_bytes staged)))) out
       \<or> ph = Some (record_of wa req) \<and> F = destination_empty
          \<and> map (\<lambda>(j, x). (j, resolution_label x)) out = [(cr_job_id req, ''needs_operator'')]"
  shows "recovered orig staged wa req out w"
  using assms(2) stage_journal_at[OF assms(1)] assms(1)
  by (auto simp: recovered_def undone_def replaced_def left_empty_def stage_def before_retire_def original_back_def
      after_install_def destination_empty_def file_at_def)

lemma recover_from_stage:
  assumes d: "distinct_paths req" and s: "commit_stage orig staged wa req w"
  shows "\<exists>out w'. recover_all quiet w = (Done out, w') \<and> recovered orig staged wa req out w'"
proof -
  let ?j = "cr_job_id req" and ?a = "cr_attempt req"
  have none: ?thesis if st: "stage (F orig staged req) ?j ?a None w" and F: "F \<in> {before_retire, after_install}" for F
  proof -
    obtain w' where "recover_all quiet w = (Done [], w')" "stage (F orig staged req) ?j ?a None w'"
      using recover_all_none[OF st] by blast
    then show ?thesis using F by (intro exI[of _ "[]"] exI[of _ w']) (auto intro: stage_recovered[where F = F])
  qed
  have one: ?thesis
    if st: "stage (F orig staged req) ?j ?a (Some (phase_rec wa req p)) w"
      and step: "\<And>v. stage (F orig staged req) ?j ?a (Some (phase_rec wa req p)) v \<Longrightarrow>
        \<exists>v'. recover_one quiet (phase_rec wa req p) v = (Done R, v')
          \<and> stage (G orig staged req) ?j ?a (Some (phase_rec wa req p)) v'"
      and out: "is_resolved R \<and> G = original_back \<and> resolution_label R \<in> {''source_intact'', ''source_restored''}
        \<or> is_resolved R \<and> G = after_install \<and> R = R_Installed (cr_trash_path req) (of_nat (length (fl_bytes staged)))
        \<or> \<not> is_resolved R \<and> p = Granted \<and> G = destination_empty \<and> resolution_label R = ''needs_operator''"
    for F G p R
  proof -
    obtain w' where "recover_all quiet w = (Done [(?j, R)], w')"
      and w': "stage (G orig staged req) ?j ?a (if is_resolved R then None else Some (phase_rec wa req p)) w'"
      using recover_all_one[OF st _ _ step] by auto
    moreover have "recovered orig staged wa req [(?j, R)] w'"
      by (rule stage_recovered[where F = G, OF w']) (use out in auto)
    ultimately show ?thesis by blast
  qed
  let ?intact = "R_SourceIntact ''interrupted before the original was moved''"
  let ?gone = "R_NeedsOperator (''journal says nothing had moved, but '' @ path_display (cr_final_path req) @ '' is not there'')"
  let ?restored = "R_SourceRestored ''interrupted between retiring the original and installing''"
  let ?installed = "R_Installed (cr_trash_path req) (of_nat (length (fl_bytes staged)))"
  note step = recover_one_stage[OF d]
  consider "stage (before_retire orig staged req) ?j ?a None w"
    | "stage (before_retire orig staged req) ?j ?a (Some (phase_rec wa req Granted)) w"
    | "stage (in_between orig staged req) ?j ?a (Some (phase_rec wa req Granted)) w"
    | "stage (in_between orig staged req) ?j ?a (Some (phase_rec wa req Retired)) w"
    | "stage (after_install orig staged req) ?j ?a (Some (phase_rec wa req Retired)) w"
    | "stage (after_install orig staged req) ?j ?a (Some (phase_rec wa req Installed)) w"
    | "stage (after_install orig staged req) ?j ?a None w"
    using s unfolding commit_stage_def Let_def by blast
  then show ?thesis
  proof cases
    case 1 then show ?thesis by (intro none[where F = before_retire]) simp_all
  next
    case 2
    from one[where F = before_retire and G = original_back, OF this step[where F = before_retire and G = original_back and R = ?intact]]
    show ?thesis by (simp add: is_resolved_def)
  next
    case 3
    from one[where F = in_between and G = destination_empty, OF this step[where F = in_between and G = destination_empty and R = ?gone]]
    show ?thesis by (simp add: is_resolved_def)
  next
    case 4
    from one[where F = in_between and G = original_back, OF this step[where F = in_between and G = original_back and R = ?restored]]
    show ?thesis by (simp add: is_resolved_def)
  next
    case 5
    from one[where F = after_install and G = after_install, OF this step[where F = after_install and G = after_install and R = ?installed]]
    show ?thesis by (simp add: is_resolved_def)
  next
    case 6
    from one[where F = after_install and G = after_install, OF this step[where F = after_install and G = after_install and R = ?installed]]
    show ?thesis by (simp add: is_resolved_def)
  next
    case 7 then show ?thesis by (intro none[where F = after_install]) simp_all
  qed
qed

section \<open>Atomicity\<close>

text \<open>
  C22. Crash recovery of an install: when no system call fails of itself and the request is sound (three
  distinct paths, the destination's filesystem, a guard that matches the original), the ritual either
  returns, with the replacement at the destination, the original retained and no journal record; or the
  process died in it, and then recovery returns and leaves the install undone or complete, its journal
  record gone and its answer true; but for the one gap between the move of the original and the record
  of that move, from which recovery leaves the destination empty and says that an operator is needed.
\<close>

theorem crash_recovery:
  assumes "crash_only env" and "distinct_paths req"
    and "device (wa_root wa) = device (case parent (cr_final_path req) of Some q \<Rightarrow> q | None \<Rightarrow> [RootDir])"
    and "guard_matches (cr_source_guard req) (guard_of orig)"
    and "file_at (cr_final_path req) w = Some orig" "file_at (cr_temp_path req) w = Some staged"
    and "file_at (cr_trash_path req) w = None" "wd_journal w = []"
    and "commit env device wa req w = (res, w1)"
  shows "res = Done (R_Installed (cr_trash_path req) (of_nat (length (fl_bytes staged)))) \<and> replaced orig staged req w1
    \<or> may_crash env \<and> (\<exists>out w2. recover_all quiet w1 = (Done out, w2) \<and> recovered orig staged wa req out w2)"
proof -
  have s: "stage (before_retire orig staged req) (cr_job_id req) (cr_attempt req) None w"
    using assms(5-8) by (simp add: stage_def before_retire_def file_at_def journal_is_def journal_base_def)
  have "case commit env device wa req w of
      (Done r, w') \<Rightarrow> r = R_Installed (cr_trash_path req) (of_nat (length (fl_bytes staged)))
        \<and> stage (after_install orig staged req) (cr_job_id req) (cr_attempt req) None w'
    | (Raised e, w') \<Rightarrow> may_crash env \<and> commit_stage orig staged wa req w'
    | (Crashed, w') \<Rightarrow> may_crash env \<and> commit_stage orig staged wa req w'"
    by (rule commit_stages[OF assms(1-4), unfolded triple_def, rule_format, OF s])
  moreover have "replaced orig staged req w1"
    if "stage (after_install orig staged req) (cr_job_id req) (cr_attempt req) None w1"
    using that stage_journal_at[OF that] by (simp add: replaced_def stage_def after_install_def file_at_def)
  ultimately show ?thesis using assms(9) recover_from_stage[OF assms(2)] by (cases res) auto
qed

definition demo_request :: commit_request where
  "demo_request = \<lparr> cr_job_id = ''j'', cr_attempt = 1, cr_fencing_epoch = 1, cr_temp_path = [RootDir, Normal ''w'', Normal ''t''],
     cr_final_path = [RootDir, Normal ''m'', Normal ''f''], cr_trash_path = [RootDir, Normal ''m'', Normal ''o''],
     cr_content_sig = ''s'', cr_source_guard = \<lparr> sg_size_bytes = 2, sg_mtime_unix = 7, sg_inode = None \<rparr> \<rparr>"

definition demo_area :: work_area where
  "demo_area = \<lparr> wa_root = [RootDir, Normal ''w''], wa_agent_uid = ''a'', wa_boot_id = ''b'' \<rparr>"

definition demo_original :: fs_file where
  "demo_original = \<lparr> fl_bytes = ''xx'', fl_mtime = Some 7, fl_inode = Some 3 \<rparr>"

definition demo_staged :: fs_file where
  "demo_staged = \<lparr> fl_bytes = ''y'', fl_mtime = Some 8, fl_inode = Some 4 \<rparr>"

definition demo_world :: world where
  "demo_world = \<lparr> wd_calls = 0, wd_files = [([RootDir, Normal ''m'', Normal ''f''], demo_original),
     ([RootDir, Normal ''w'', Normal ''t''], demo_staged)], wd_journal = [] \<rparr>"

text \<open>The process dies before call \<open>n\<close>.\<close>

definition dies_at :: "nat \<Rightarrow> env" where
  "dies_at n k = (if k = n then Crashes else Proceeds)"

lemmas demo_defs = demo_request_def demo_area_def demo_original_def demo_staged_def demo_world_def

lemma demo_files:
  "file_at (cr_final_path demo_request) demo_world = Some demo_original"
  "file_at (cr_temp_path demo_request) demo_world = Some demo_staged"
  "file_at (cr_trash_path demo_request) demo_world = None" "wd_journal demo_world = []"
  "distinct_paths demo_request" "guard_matches (cr_source_guard demo_request) (guard_of demo_original)"
  by (simp_all add: demo_defs file_at_def distinct_paths_def guard_matches_def guard_of_def)

text \<open>Where recovery leaves an install that dies before call \<open>n\<close>.\<close>

definition demo_outcome :: "nat \<Rightarrow> fs_file option \<times> fs_file option \<times> string list" where
  "demo_outcome n = (let w1 = snd (commit (dies_at n) (\<lambda>_. 1) demo_area demo_request demo_world)
     in case recover_all quiet w1 of
          (Done out, w2) \<Rightarrow> (file_at (cr_final_path demo_request) w2, file_at (cr_trash_path demo_request) w2,
             map (resolution_label \<circ> snd) out)
        | (_, w2) \<Rightarrow> (None, None, []))"

lemma demo_outcomes:
  "demo_outcome 4 = (Some demo_original, None, [])"
  "demo_outcome 10 = (Some demo_original, None, [''source_intact''])"
  "demo_outcome 14 = (None, Some demo_original, [''needs_operator''])"
  "demo_outcome 19 = (Some demo_original, None, [''source_restored''])"
  "demo_outcome 22 = (Some demo_staged, Some demo_original, [''installed''])"
  by code_simp+


theorem crash_recovery_witness:
  "fst (commit (dies_at 19) (\<lambda>_. 1) demo_area demo_request demo_world) = Crashed
   \<and> (\<exists>out w2. recover_all quiet (snd (commit (dies_at 19) (\<lambda>_. 1) demo_area demo_request demo_world)) = (Done out, w2)
        \<and> recovered demo_original demo_staged demo_area demo_request out w2)"
proof -
  have "crash_only (dies_at 19)" by (simp add: crash_only_def dies_at_def)
  from crash_recovery[where wa = demo_area and device = "\<lambda>_. 1", OF this demo_files(5) refl demo_files(6,1,2,3,4) prod.collapse[symmetric]]
  have "fst (commit (dies_at 19) (\<lambda>_. 1) demo_area demo_request demo_world)
        = Done (R_Installed (cr_trash_path demo_request) (of_nat (length (fl_bytes demo_staged))))
    \<or> (\<exists>out w2. recover_all quiet (snd (commit (dies_at 19) (\<lambda>_. 1) demo_area demo_request demo_world)) = (Done out, w2)
        \<and> recovered demo_original demo_staged demo_area demo_request out w2)" by blast
  moreover have "fst (commit (dies_at 19) (\<lambda>_. 1) demo_area demo_request demo_world) = Crashed" by code_simp
  ultimately show ?thesis by simp
qed

end
