(* ===== verification/Handshake.thy ===== *)
theory Handshake
  imports Prelude
begin

text \<open>
  Registration (\<open>crates/transcodarr-proto/src/handshake.rs\<close>, \<open>message.rs\<close> and the errors of
  \<open>lib.rs\<close>): the identity of an agent, the version gate with its fencing rule, and the phases of a
  commit as they are spelled on the wire. The lemmas give the gate's verdict in closed form and show
  that it reads every version it could have been sent.
\<close>

section \<open>Errors\<close>

datatype proto_error = PE_Unrecognised string string | PE_Missing string

fun show_proto_error :: "proto_error \<Rightarrow> string" where
  "show_proto_error (PE_Unrecognised field v) = field @ '' holds '' @ v @ '', which this build does not recognise''"
| "show_proto_error (PE_Missing field) = field @ '' is required but was not set''"

definition proto_version :: u32 where
  "proto_version = 1"

definition min_supported_proto :: u32 where
  "min_supported_proto = 1"

section \<open>Identity and outcome\<close>

record agent_identity =
  ai_agent_id :: string
  ai_agent_uid :: string
  ai_boot_id :: string
  ai_agent_version :: string
  ai_proto_version :: u32

datatype register_outcome =
    RO_Accepted (ro_fencing_epoch: i64) (ro_new_instance: bool)
  | RO_Rejected (ro_reason: string)

definition accepted_outcome :: "register_outcome \<Rightarrow> bool" where
  "accepted_outcome r = (case r of RO_Accepted _ _ \<Rightarrow> True | RO_Rejected _ \<Rightarrow> False)"

type_synonym semver = "u32 \<times> u32 \<times> u32"

record version_gate =
  vg_min_supported_proto :: u32
  vg_server_proto :: u32
  vg_min_agent_version :: semver

definition default_gate :: version_gate where
  "default_gate = \<lparr> vg_min_supported_proto = min_supported_proto, vg_server_proto = proto_version,
     vg_min_agent_version = (0, 1, 0) \<rparr>"

section \<open>Versions\<close>

definition parse_u32 :: "string \<Rightarrow> u32 option" where
  "parse_u32 s = map_option of_nat (parse_unsigned (2 ^ 32) s)"

text \<open>The part before a pre-release or build suffix; a missing component is zero, a fourth is refused.\<close>

definition parse_semver :: "string \<Rightarrow> semver option" where
  "parse_semver s =
     (let parts = split_on (CHR ''.'') (takeWhile (\<lambda>c. c \<noteq> CHR ''-'' \<and> c \<noteq> CHR ''+'') s)
      in case parse_u32 (hd parts) of
           None \<Rightarrow> None
         | Some major \<Rightarrow>
             (case parse_u32 (if 1 < length parts then parts ! 1 else ''0'') of
                None \<Rightarrow> None
              | Some minor \<Rightarrow>
                  (case parse_u32 (if 2 < length parts then parts ! 2 else ''0'') of
                     None \<Rightarrow> None
                   | Some patch \<Rightarrow> if 3 < length parts then None else Some (major, minor, patch))))"

text \<open>The order of tuples.\<close>

fun semver_less :: "semver \<Rightarrow> semver \<Rightarrow> bool" where
  "semver_less (a, b, c) (x, y, z) \<longleftrightarrow> a < x \<or> a = x \<and> (b < y \<or> b = y \<and> c < z)"

fun show_semver :: "semver \<Rightarrow> string" where
  "show_semver (a, b, c) = show_word a @ ''.'' @ show_word b @ ''.'' @ show_word c"

section \<open>The gate\<close>

definition gate_evaluate :: "version_gate \<Rightarrow> agent_identity \<Rightarrow> string option \<Rightarrow> i64 \<Rightarrow> register_outcome" where
  "gate_evaluate g ident known_boot_id current_epoch =
     (if ai_proto_version ident < vg_min_supported_proto g
      then RO_Rejected (''proto_version '' @ show_word (ai_proto_version ident) @ '' < min_supported ''
             @ show_word (vg_min_supported_proto g) @ ''; upgrade the agent'')
      else if vg_server_proto g < ai_proto_version ident
      then RO_Rejected (''proto_version '' @ show_word (ai_proto_version ident) @ '' > server ''
             @ show_word (vg_server_proto g) @ ''; upgrade the server'')
      else case parse_semver (ai_agent_version ident) of
        None \<Rightarrow> RO_Rejected (''agent_version '' @ [CHR 0x27] @ ai_agent_version ident @ [CHR 0x27]
                  @ '' is not a semver; refusing rather than assuming it is new enough'')
      | Some v \<Rightarrow>
          if semver_less v (vg_min_agent_version g)
          then RO_Rejected (''agent_version '' @ ai_agent_version ident @ '' < min ''
                 @ show_semver (vg_min_agent_version g))
          else (let new_instance = (known_boot_id \<noteq> Some (ai_boot_id ident))
                in RO_Accepted (if new_instance then current_epoch + 1 else current_epoch) new_instance))"

section \<open>Commit phases\<close>

datatype commit_phase = CP_Granted | CP_Retired | CP_Installed

fun commit_phase_as_str :: "commit_phase \<Rightarrow> string" where
  "commit_phase_as_str CP_Granted = ''granted''"
| "commit_phase_as_str CP_Retired = ''retired''"
| "commit_phase_as_str CP_Installed = ''installed''"

definition commit_phase_parse :: "string \<Rightarrow> proto_error + commit_phase" where
  "commit_phase_parse s =
     (let l = to_lower s
      in if l = ''granted'' then Inr CP_Granted else if l = ''retired'' then Inr CP_Retired
         else if l = ''installed'' then Inr CP_Installed else Inl (PE_Unrecognised ''phase'' l))"

record live_intent =
  li_job_id :: string
  li_attempt :: i64
  li_fencing_epoch :: i64
  li_phase :: commit_phase
  li_temp_path :: string
  li_final_path :: string
  li_trash_path :: string

section \<open>Lemmas\<close>

lemma accepted_iff:
  "gate_evaluate g ident known cur = RO_Accepted e new \<longleftrightarrow>
     vg_min_supported_proto g \<le> ai_proto_version ident \<and> ai_proto_version ident \<le> vg_server_proto g
   \<and> (\<exists>v. parse_semver (ai_agent_version ident) = Some v \<and> \<not> semver_less v (vg_min_agent_version g))
   \<and> new = (known \<noteq> Some (ai_boot_id ident)) \<and> e = (if new then cur + 1 else cur)"
  by (auto simp: gate_evaluate_def Let_def not_less split: option.splits)

lemma rejected_iff:
  "(\<exists>r. gate_evaluate g ident known cur = RO_Rejected r) \<longleftrightarrow> (\<nexists>e new. gate_evaluate g ident known cur = RO_Accepted e new)"
  by (cases "gate_evaluate g ident known cur") auto

text \<open>A version the gate's own rendering could have printed is read back, whatever suffix follows.\<close>

lemma show_digits_set: "0 \<le> i \<Longrightarrow> set (show_digits i) \<subseteq> {c. digit_value c \<noteq> None}"
  using show_digits_digits by blast

lemma parse_u32_show: "parse_u32 (show_word (w :: u32)) = Some w"
proof -
  obtain c cs where s: "show_digits (uint w) = c # cs" using show_digits_nonempty by (metis list.exhaust)
  have "digit_value c \<noteq> None" using show_digits_set[of "uint w"] by (auto simp: s)
  then have "c \<noteq> CHR ''+''" by (auto simp: digit_value_def Let_def)
  moreover have "parse_digits 0 (c # cs) = Some (unat w)"
    using parse_digits_show_digits[of "uint w"] by (simp only: s unat_eq_nat_uint uint_ge_0)
  moreover have "unat w < 2 ^ 32" using unsigned_less[of w, where ?'a = nat] by simp
  ultimately show ?thesis by (simp add: parse_u32_def parse_unsigned_def show_word_def s del: parse_digits.simps)
qed

lemma show_word_plain: "c \<in> set (show_word (w :: u32)) \<Longrightarrow> c \<noteq> CHR ''.'' \<and> c \<noteq> CHR ''-'' \<and> c \<noteq> CHR ''+''"
  using show_digits_set[of "uint w"] by (auto simp: show_word_def digit_value_def Let_def)

lemma parse_semver_show:
  assumes "tail = [] \<or> hd tail \<in> {CHR ''-'', CHR ''+''}"
  shows "parse_semver (show_semver v @ tail) = Some v"
proof -
  obtain a b c where v: "v = (a, b, c)" by (cases v)
  let ?P = "\<lambda>c. c \<noteq> CHR ''-'' \<and> c \<noteq> CHR ''+''"
  have "takeWhile ?P (show_semver v @ tail) = show_semver v @ takeWhile ?P tail"
    by (rule takeWhile_append2) (use show_word_plain in \<open>auto simp: v\<close>)
  moreover have "takeWhile ?P tail = []" using assms by (cases tail) auto
  moreover have "split_on (CHR ''.'') (show_semver v) = [show_word a, show_word b, show_word c]"
  proof -
    have "CHR ''.'' \<notin> set (show_word w)" for w :: u32 using show_word_plain by blast
    then show ?thesis by (simp add: v split_on_append split_on_absent)
  qed
  ultimately show ?thesis by (simp add: parse_semver_def Let_def parse_u32_show v)
qed

lemma commit_phase_parse_as_str: "commit_phase_parse (commit_phase_as_str p) = Inr p"
  by (cases p) (simp only:, code_simp)+

lemma commit_phase_parse_Inr: "commit_phase_parse s = Inr p \<longleftrightarrow> to_lower s = commit_phase_as_str p"
  by (cases p) (auto simp: commit_phase_parse_def Let_def)

section \<open>Properties\<close>

text \<open>
  The version gate is exact, and its epoch is the fencing rule: an agent is accepted precisely
  when its protocol lies between the gate's bounds and its version is a semver not below the
  minimum; the epoch it gets is the current one when its boot id is the known one, and the next one
  otherwise; every version printed as major.minor.patch is read as that triple, whatever
  pre-release or build suffix follows; and a rejection names no epoch.
\<close>

lemma gate_admits_exactly:
  shows "(accepted_outcome (gate_evaluate g ident known cur) \<longleftrightarrow>
            vg_min_supported_proto g \<le> ai_proto_version ident \<and> ai_proto_version ident \<le> vg_server_proto g
          \<and> (\<exists>v. parse_semver (ai_agent_version ident) = Some v \<and> \<not> semver_less v (vg_min_agent_version g)))
       \<and> (accepted_outcome (gate_evaluate g ident known cur) \<longrightarrow>
            gate_evaluate g ident known cur =
              (if known = Some (ai_boot_id ident) then RO_Accepted cur False else RO_Accepted (cur + 1) True))
       \<and> (\<forall>v tail. tail = [] \<or> hd tail \<in> {CHR ''-'', CHR ''+''} \<longrightarrow> parse_semver (show_semver v @ tail) = Some v)"
proof (intro conjI allI impI)
  let ?out = "gate_evaluate g ident known cur"
  show "accepted_outcome ?out \<longleftrightarrow> vg_min_supported_proto g \<le> ai_proto_version ident
      \<and> ai_proto_version ident \<le> vg_server_proto g
      \<and> (\<exists>v. parse_semver (ai_agent_version ident) = Some v \<and> \<not> semver_less v (vg_min_agent_version g))"
    by (auto simp: accepted_outcome_def gate_evaluate_def Let_def not_less split: option.splits)
  show "accepted_outcome ?out \<Longrightarrow> ?out = (if known = Some (ai_boot_id ident) then RO_Accepted cur False else RO_Accepted (cur + 1) True)"
    by (auto simp: accepted_outcome_def gate_evaluate_def Let_def split: option.splits if_splits)
  show "tail = [] \<or> hd tail \<in> {CHR ''-'', CHR ''+''} \<Longrightarrow> parse_semver (show_semver v @ tail) = Some v" for v tail
    by (rule parse_semver_show)
qed

lemma gate_admits_exactly_witness:
  "accepted_outcome (gate_evaluate default_gate
     \<lparr> ai_agent_id = ''a'', ai_agent_uid = ''u'', ai_boot_id = ''b'', ai_agent_version = ''1.2.3-rc1'', ai_proto_version = 1 \<rparr> None 0)
   \<and> parse_semver (show_semver (1, 2, 3) @ ''-rc1'') = Some (1, 2, 3)"
proof
  let ?i = "\<lparr> ai_agent_id = ''a'', ai_agent_uid = ''u'', ai_boot_id = ''b'', ai_agent_version = ''1.2.3-rc1'', ai_proto_version = 1 \<rparr>"
  have "digit_char 1 = CHR ''1''" "digit_char 2 = CHR ''2''" "digit_char 3 = CHR ''3''" by (code_simp+)
  then have "show_semver (1, 2, 3) = ''1.2.3''"
    by (simp add: show_word_def show_digits.simps[of 1] show_digits.simps[of 2] show_digits.simps[of 3])
  then have v: "parse_semver ''1.2.3-rc1'' = Some (1, 2, 3)" using parse_semver_show[of "''-rc1''" "(1, 2, 3)"] by simp
  have m: "\<not> semver_less (1, 2, 3) (vg_min_agent_version default_gate)" by (simp add: default_gate_def)
  have p: "vg_min_supported_proto default_gate \<le> 1" "1 \<le> vg_server_proto default_gate"
    by (simp_all add: default_gate_def min_supported_proto_def proto_version_def)
  show "accepted_outcome (gate_evaluate default_gate ?i None 0)"
    unfolding gate_admits_exactly[THEN conjunct1] agent_identity.select_convs using v m p by blast
  show "parse_semver (show_semver (1, 2, 3) @ ''-rc1'') = Some (1, 2, 3)"
    by (rule gate_admits_exactly[THEN conjunct2, THEN conjunct2, rule_format]) simp
qed

end
