(* ===== verification/Fleet.thy ===== *)
theory Fleet
  imports Handshake "HOL-Library.List_Lexorder" "HOL-Library.Char_ord"
begin

text \<open>
  The registry of connected agents (\<open>crates/transcodarr-server/src/fleet.rs\<close>) and the messages it
  carries (\<open>proto/transcodarr/v1/agent.proto\<close>): one connection per agent, each with a bounded queue
  whose other end is the agent's stream. A queue is a channel with an identity of its own, so that a
  displaced stream and its replacement are told apart. The lemmas state the registry as a map from
  agents to their newest connection.
\<close>

section \<open>Messages\<close>

record job_assignment =
  ja_job_id :: string
  ja_attempt :: u32
  ja_fencing_epoch :: u64
  ja_source_path :: string
  ja_final_path :: string
  ja_temp_path :: string
  ja_argv :: "string list"
  ja_validation_spec_json :: string
  ja_expected_content_sig :: string

datatype server_message =
    SM_Assignment job_assignment
  | SM_CommitGrant (cg_job_id: string) (cg_granted: bool) (cg_reason: string) (cg_trash_path: string)
  | SM_Revoke (rv_job_id: string) (rv_reason: string)
  | SM_Drain bool string
  | SM_Config u32 "(string \<times> u32) list" u32

section \<open>Registry\<close>

definition outbound_depth :: nat where
  "outbound_depth = 64"

text \<open>A channel: what is queued, and whether the stream at its other end is still there.\<close>

record channel =
  cn_queue :: "server_message list"
  cn_open :: bool

record connected =
  cd_agent_id :: string
  cd_fencing_epoch :: i64
  cd_running :: "string list"
  cd_outbound :: nat

record fleet =
  fl_table :: "(string \<times> connected) list"
  fl_channels :: "(nat \<times> channel) list"
  fl_next :: nat

definition empty_fleet :: fleet where
  "empty_fleet = \<lparr> fl_table = [], fl_channels = [], fl_next = 0 \<rparr>"

definition channel_at :: "nat \<Rightarrow> fleet \<Rightarrow> channel" where
  "channel_at i fl = or_default \<lparr> cn_queue = [], cn_open = False \<rparr> (map_of (fl_channels fl) i)"

definition fleet_get :: "string \<Rightarrow> fleet \<Rightarrow> connected option" where
  "fleet_get a fl = map_of (fl_table fl) a"

text \<open>Connecting answers the channel whose other end is the stream.\<close>

definition fleet_connect :: "string \<Rightarrow> i64 \<Rightarrow> fleet \<Rightarrow> nat \<times> fleet" where
  "fleet_connect a epoch fl =
     (let i = fl_next fl
      in (i, fl\<lparr> fl_table := AList.update a
                   \<lparr> cd_agent_id = a, cd_fencing_epoch = epoch, cd_running = [], cd_outbound = i \<rparr> (fl_table fl),
                 fl_channels := AList.update i \<lparr> cn_queue = [], cn_open = True \<rparr> (fl_channels fl),
                 fl_next := Suc i \<rparr>))"

definition fleet_disconnect :: "string \<Rightarrow> i64 \<Rightarrow> fleet \<Rightarrow> fleet" where
  "fleet_disconnect a epoch fl =
     (case fleet_get a fl of
        Some c \<Rightarrow> if cd_fencing_epoch c = epoch then fl\<lparr> fl_table := AList.delete a (fl_table fl) \<rparr> else fl
      | None \<Rightarrow> fl)"

definition fleet_set_running :: "string \<Rightarrow> string list \<Rightarrow> fleet \<Rightarrow> fleet" where
  "fleet_set_running a jobs fl =
     (case fleet_get a fl of
        Some c \<Rightarrow> fl\<lparr> fl_table := AList.update a (c\<lparr> cd_running := jobs \<rparr>) (fl_table fl) \<rparr> | None \<Rightarrow> fl)"

definition fleet_connected :: "fleet \<Rightarrow> connected list" where
  "fleet_connected fl = sort_key cd_agent_id (map snd (fl_table fl))"

text \<open>\<open>try_send\<close>: refused when the queue is full or the stream is gone.\<close>

definition channel_send :: "nat \<Rightarrow> server_message \<Rightarrow> fleet \<Rightarrow> bool \<times> fleet" where
  "channel_send i msg fl =
     (let c = channel_at i fl
      in if cn_open c \<and> length (cn_queue c) < outbound_depth
         then (True, fl\<lparr> fl_channels := AList.update i (c\<lparr> cn_queue := cn_queue c @ [msg] \<rparr>) (fl_channels fl) \<rparr>)
         else (False, fl))"

definition fleet_send :: "string \<Rightarrow> server_message \<Rightarrow> fleet \<Rightarrow> bool \<times> fleet" where
  "fleet_send a msg fl = (case fleet_get a fl of None \<Rightarrow> (False, fl) | Some c \<Rightarrow> channel_send (cd_outbound c) msg fl)"

text \<open>The stream's side: taking the next message, and going away.\<close>

definition channel_recv :: "nat \<Rightarrow> fleet \<Rightarrow> fleet" where
  "channel_recv i fl = fl\<lparr> fl_channels := AList.map_entry i (\<lambda>c. c\<lparr> cn_queue := tl (cn_queue c) \<rparr>) (fl_channels fl) \<rparr>"

definition channel_close :: "nat \<Rightarrow> fleet \<Rightarrow> fleet" where
  "channel_close i fl = fl\<lparr> fl_channels := AList.map_entry i (\<lambda>c. c\<lparr> cn_open := False \<rparr>) (fl_channels fl) \<rparr>"

section \<open>Steps of the others\<close>

datatype fleet_step = FS_Connect string i64 | FS_Disconnect string i64 | FS_Running string "string list"
  | FS_Send string server_message | FS_Recv nat | FS_Close nat

fun fleet_act :: "fleet_step \<Rightarrow> fleet \<Rightarrow> fleet" where
  "fleet_act (FS_Connect a e) fl = snd (fleet_connect a e fl)"
| "fleet_act (FS_Disconnect a e) fl = fleet_disconnect a e fl"
| "fleet_act (FS_Running a jobs) fl = fleet_set_running a jobs fl"
| "fleet_act (FS_Send a m) fl = snd (fleet_send a m fl)"
| "fleet_act (FS_Recv i) fl = channel_recv i fl"
| "fleet_act (FS_Close i) fl = channel_close i fl"

section \<open>Invariant\<close>

text \<open>
  One connection per agent, under the agent's own name, each on a channel of its own, and no queue
  beyond its bound.
\<close>

definition fleet_ok :: "fleet \<Rightarrow> bool" where
  "fleet_ok fl \<longleftrightarrow> keys_distinct (fl_table fl)
     \<and> (\<forall>a c. fleet_get a fl = Some c \<longrightarrow> cd_agent_id c = a \<and> cd_outbound c < fl_next fl)
     \<and> (\<forall>a b c d. fleet_get a fl = Some c \<longrightarrow> fleet_get b fl = Some d \<longrightarrow> cd_outbound c = cd_outbound d \<longrightarrow> a = b)
     \<and> (\<forall>i c. map_of (fl_channels fl) i = Some c \<longrightarrow> length (cn_queue c) \<le> outbound_depth)
     \<and> (\<forall>i. fl_next fl \<le> i \<longrightarrow> map_of (fl_channels fl) i = None)"

lemma empty_fleet_ok [simp]: "fleet_ok empty_fleet"
  by (simp add: fleet_ok_def empty_fleet_def fleet_get_def)

text \<open>The registry as a directory: what each agent's newest connection is.\<close>

record link =
  lk_epoch :: i64
  lk_running :: "string list"
  lk_queue :: "server_message list"
  lk_open :: bool

definition fleet_abs :: "fleet \<Rightarrow> string \<Rightarrow> link option" where
  "fleet_abs fl a = map_option (\<lambda>c. \<lparr> lk_epoch = cd_fencing_epoch c, lk_running = cd_running c,
     lk_queue = cn_queue (channel_at (cd_outbound c) fl), lk_open = cn_open (channel_at (cd_outbound c) fl) \<rparr>) (fleet_get a fl)"

definition spec_connect :: "string \<Rightarrow> i64 \<Rightarrow> (string \<Rightarrow> link option) \<Rightarrow> string \<Rightarrow> link option" where
  "spec_connect a e d = d(a \<mapsto> \<lparr> lk_epoch = e, lk_running = [], lk_queue = [], lk_open = True \<rparr>)"

definition spec_disconnect :: "string \<Rightarrow> i64 \<Rightarrow> (string \<Rightarrow> link option) \<Rightarrow> string \<Rightarrow> link option" where
  "spec_disconnect a e d = (case d a of Some l \<Rightarrow> if lk_epoch l = e then d(a := None) else d | None \<Rightarrow> d)"

definition spec_running :: "string \<Rightarrow> string list \<Rightarrow> (string \<Rightarrow> link option) \<Rightarrow> string \<Rightarrow> link option" where
  "spec_running a jobs d = (case d a of Some l \<Rightarrow> d(a \<mapsto> l\<lparr> lk_running := jobs \<rparr>) | None \<Rightarrow> d)"

definition spec_send :: "string \<Rightarrow> server_message \<Rightarrow> (string \<Rightarrow> link option) \<Rightarrow> bool \<times> (string \<Rightarrow> link option)" where
  "spec_send a msg d = (case d a of
     Some l \<Rightarrow> if lk_open l \<and> length (lk_queue l) < outbound_depth
               then (True, d(a \<mapsto> l\<lparr> lk_queue := lk_queue l @ [msg] \<rparr>)) else (False, d)
   | None \<Rightarrow> (False, d))"

lemma channel_at_update [simp]:
  "channel_at i (fl\<lparr> fl_channels := AList.update j c (fl_channels fl) \<rparr>) = (if i = j then c else channel_at i fl)"
  by (simp add: channel_at_def)

lemma channel_at_table [simp]: "channel_at i (fl\<lparr> fl_table := t \<rparr>) = channel_at i fl"
  by (simp add: channel_at_def)

lemma fleet_get_channels [simp]: "fleet_get a (fl\<lparr> fl_channels := ch \<rparr>) = fleet_get a fl" "fleet_get a (fl\<lparr> fl_next := n \<rparr>) = fleet_get a fl"
  by (simp_all add: fleet_get_def)

lemma fleet_get_table:
  "fleet_get b (fl\<lparr> fl_table := AList.update a c (fl_table fl) \<rparr>) = (if b = a then Some c else fleet_get b fl)"
  "fleet_get b (fl\<lparr> fl_table := AList.delete a (fl_table fl) \<rparr>) = (if b = a then None else fleet_get b fl)"
  by (simp_all add: fleet_get_def)

lemma connect_ok: "fleet_ok fl \<Longrightarrow> fleet_ok (snd (fleet_connect a e fl))"
  unfolding fleet_ok_def fleet_connect_def Let_def
  by (auto simp: keys_distinct_update fleet_get_def less_Suc_eq outbound_depth_def split: if_splits) (metis less_irrefl)+

lemma disconnect_ok: "fleet_ok fl \<Longrightarrow> fleet_ok (fleet_disconnect a e fl)"
  unfolding fleet_ok_def fleet_disconnect_def
  by (auto simp: keys_distinct_delete fleet_get_def split: if_splits option.splits)

lemma running_ok: "fleet_ok fl \<Longrightarrow> fleet_ok (fleet_set_running a jobs fl)"
  unfolding fleet_ok_def fleet_set_running_def
  by (auto simp: keys_distinct_update fleet_get_def split: if_splits option.splits)

lemma channel_send_ok: "fleet_ok fl \<Longrightarrow> i < fl_next fl \<Longrightarrow> fleet_ok (snd (channel_send i msg fl))"
  unfolding fleet_ok_def channel_send_def Let_def by (auto simp: fleet_get_def split: if_splits)

lemma outbound_less: "fleet_ok fl \<Longrightarrow> fleet_get a fl = Some c \<Longrightarrow> cd_outbound c < fl_next fl"
  unfolding fleet_ok_def by blast

lemma send_ok: "fleet_ok fl \<Longrightarrow> fleet_ok (snd (fleet_send a msg fl))"
  unfolding fleet_send_def by (cases "fleet_get a fl") (auto intro: channel_send_ok simp: outbound_less)

lemma entry_ok:
  "fleet_ok fl \<Longrightarrow> (\<And>c. length (cn_queue (f c)) \<le> length (cn_queue c)) \<Longrightarrow>
   fleet_ok (fl\<lparr> fl_channels := AList.map_entry i f (fl_channels fl) \<rparr>)"
  unfolding fleet_ok_def
  by (auto simp: fleet_get_def AList.map_of_map_entry split: option.splits if_splits) (meson order_trans)

lemma fleet_act_ok: "fleet_ok fl \<Longrightarrow> fleet_ok (fleet_act s fl)"
  by (cases s) (simp_all add: connect_ok disconnect_ok running_ok send_ok channel_recv_def channel_close_def entry_ok)

lemma fleet_acts_ok: "fleet_ok fl \<Longrightarrow> fleet_ok (fold fleet_act ss fl)"
  by (induction ss arbitrary: fl) (simp_all add: fleet_act_ok)

section \<open>Properties\<close>


text \<open>
  A stream displaced by a reconnection of the same process instance carries the same epoch, so the
  guard of \<open>disconnect\<close> does not tell it from its replacement: its late teardown removes the new one.
\<close>

lemma same_epoch_teardown:
  "fleet_abs (fleet_disconnect a e (snd (fleet_connect a e fl))) a = None"
  by (simp add: fleet_disconnect_def fleet_connect_def Let_def fleet_get_def fleet_abs_def)


end
