(* ===== verification/File_Transfer.thy ===== *)
theory File_Transfer
  imports Agent_Fs Handshake
begin

text \<open>
  Moving a file in chunks (\<open>crates/transcodarr-proto/src/transfer.rs\<close>): the sender's loop over what
  its reads return, and the sink that writes the chunks and checks their offsets and the signature of
  the whole. The digest of the bytes is an argument. A read returns some prefix of what is left, or an
  error; the receiver of a stream may hang up at any message; a write may reach the file in two parts.
\<close>

section \<open>Messages\<close>

datatype status_code = SC_Unauthenticated | SC_PermissionDenied | SC_NotFound | SC_InvalidArgument
  | SC_FailedPrecondition | SC_DataLoss | SC_Internal

datatype rpc_status = Status (status_code: status_code) (status_message: string)

record chunk =
  ch_job_id :: string
  ch_attempt :: u32
  ch_offset :: u64
  ch_data :: string
  ch_last :: bool
  ch_content_sig :: string

definition chunk_bytes :: nat where
  "chunk_bytes = 512 * 1024"

section \<open>Sending\<close>

text \<open>
  What the \<open>k\<close>-th read returns of the bytes left: an error, or at least one byte and at most a
  buffer, with nothing only at the end; and whether the \<open>k\<close>-th message finds a receiver.
\<close>

record reader =
  rd_read :: "nat \<Rightarrow> io_error + nat"
  rd_open :: "nat \<Rightarrow> bool"

definition read_some :: "reader \<Rightarrow> nat \<Rightarrow> string \<Rightarrow> io_error + string" where
  "read_some rd k left = (case rd_read rd k of
     Inl e \<Rightarrow> Inl e | Inr n \<Rightarrow> Inr (take (max 1 (min n chunk_bytes)) left))"

definition data_chunk :: "string \<Rightarrow> u32 \<Rightarrow> u64 \<Rightarrow> string \<Rightarrow> chunk" where
  "data_chunk job attempt offset bytes = \<lparr> ch_job_id = job, ch_attempt = attempt, ch_offset = offset, ch_data = bytes,
     ch_last = False, ch_content_sig = [] \<rparr>"

definition last_chunk :: "string \<Rightarrow> u32 \<Rightarrow> u64 \<Rightarrow> string \<Rightarrow> chunk" where
  "last_chunk job attempt offset sig = \<lparr> ch_job_id = job, ch_attempt = attempt, ch_offset = offset, ch_data = [],
     ch_last = True, ch_content_sig = sig \<rparr>"

text \<open>\<open>seen\<close> is what the hasher was fed.\<close>

function source_loop :: "(string \<Rightarrow> string) \<Rightarrow> reader \<Rightarrow> path \<Rightarrow> string \<Rightarrow> u32 \<Rightarrow> nat \<Rightarrow> u64 \<Rightarrow> string \<Rightarrow> string
    \<Rightarrow> (rpc_status + chunk) list" where
  "source_loop digest rd p job attempt k offset seen left =
     (case read_some rd k left of
        Inl e \<Rightarrow> [Inl (Status SC_Internal (''reading '' @ path_display p @ '' at offset '' @ show_word offset @ '': '' @ show_io e))]
      | Inr bytes \<Rightarrow>
          if bytes = [] then [Inr (last_chunk job attempt offset (digest seen))]
          else if \<not> rd_open rd k then []
          else Inr (data_chunk job attempt offset bytes)
            # source_loop digest rd p job attempt (Suc k) (offset + of_nat (length bytes)) (seen @ bytes)
                (drop (length bytes) left))"
  by pat_completeness auto
termination
  by (relation "measure (\<lambda>(_, _, _, _, _, _, _, _, left). length left)")
    (auto simp: read_some_def split: sum.splits)

definition source_stream :: "(string \<Rightarrow> string) \<Rightarrow> reader \<Rightarrow> string \<Rightarrow> u32 \<Rightarrow> path \<Rightarrow> io_error + string
    \<Rightarrow> (rpc_status + chunk) list" where
  "source_stream digest rd job attempt p opened = (case opened of
     Inl e \<Rightarrow> [Inl (Status SC_NotFound (''source '' @ path_display p @ '' cannot be opened: '' @ show_io e))]
   | Inr content \<Rightarrow> source_loop digest rd p job attempt 0 0 [] content)"

text \<open>A client stream has nowhere to put an error: it ends without a terminator.\<close>

function output_loop :: "(string \<Rightarrow> string) \<Rightarrow> reader \<Rightarrow> string \<Rightarrow> u32 \<Rightarrow> nat \<Rightarrow> u64 \<Rightarrow> string \<Rightarrow> string \<Rightarrow> chunk list" where
  "output_loop digest rd job attempt k offset seen left =
     (case read_some rd k left of
        Inl e \<Rightarrow> []
      | Inr bytes \<Rightarrow>
          if bytes = [] then [last_chunk job attempt offset (digest seen)]
          else if \<not> rd_open rd k then []
          else data_chunk job attempt offset bytes
            # output_loop digest rd job attempt (Suc k) (offset + of_nat (length bytes)) (seen @ bytes)
                (drop (length bytes) left))"
  by pat_completeness auto
termination
  by (relation "measure (\<lambda>(_, _, _, _, _, _, _, left). length left)")
    (auto simp: read_some_def split: sum.splits)

definition output_stream :: "(string \<Rightarrow> string) \<Rightarrow> reader \<Rightarrow> string \<Rightarrow> u32 \<Rightarrow> string \<Rightarrow> chunk list" where
  "output_stream digest rd job attempt content = output_loop digest rd job attempt 0 0 [] content"

declare source_loop.simps [simp del] output_loop.simps [simp del]

section \<open>Receiving\<close>

record sink =
  sk_path :: path
  sk_hashed :: string
  sk_written :: u64
  sk_finished :: bool

text \<open>
  What the file system adds to a call: the times and the inode a file gets at the \<open>n\<close>-th call, and
  where a write is cut in two.
\<close>

record transfer_env =
  tv_calls :: env
  tv_mtime :: "nat \<Rightarrow> i64 option"
  tv_inode :: "nat \<Rightarrow> u64 option"
  tv_cut :: "nat \<Rightarrow> nat"

definition act_create :: "transfer_env \<Rightarrow> path \<Rightarrow> world \<Rightarrow> io_error + unit \<times> world" where
  "act_create tv p w = Inr ((), w\<lparr> wd_files := AList.update p
     \<lparr> fl_bytes = [], fl_mtime = tv_mtime tv (wd_calls w),
       fl_inode = (case file_at p w of Some f \<Rightarrow> fl_inode f | None \<Rightarrow> tv_inode tv (wd_calls w)) \<rparr> (wd_files w) \<rparr>)"

text \<open>Writing through an open handle; a file unlinked meanwhile takes the bytes with it.\<close>

definition act_append :: "transfer_env \<Rightarrow> path \<Rightarrow> string \<Rightarrow> world \<Rightarrow> io_error + unit \<times> world" where
  "act_append tv p bytes w = (case file_at p w of
     None \<Rightarrow> Inr ((), w)
   | Some f \<Rightarrow> Inr ((), w\<lparr> wd_files := AList.update p
       (f\<lparr> fl_bytes := fl_bytes f @ bytes, fl_mtime := tv_mtime tv (wd_calls w) \<rparr>) (wd_files w) \<rparr>))"

definition write_all :: "transfer_env \<Rightarrow> path \<Rightarrow> string \<Rightarrow> (io_error + unit) prog" where
  "write_all tv p bytes = (\<lambda>w.
     let n = tv_cut tv (wd_calls w)
     in bindP (call (tv_calls tv) (act_append tv p (take n bytes))) (\<lambda>r. case r of
          Inl e \<Rightarrow> retP (Inl e)
        | Inr u \<Rightarrow> call (tv_calls tv) (act_append tv p (drop n bytes))) w)"

definition sink_create :: "transfer_env \<Rightarrow> path \<Rightarrow> (io_error + sink) prog" where
  "sink_create tv p =
     bindP (case parent p of Some q \<Rightarrow> call (tv_calls tv) act_nothing | None \<Rightarrow> retP (Inr ())) (\<lambda>r. case r of
       Inl e \<Rightarrow> retP (Inl e)
     | Inr u \<Rightarrow> bindP (call (tv_calls tv) (act_create tv p)) (\<lambda>r. case r of
         Inl e \<Rightarrow> retP (Inl e)
       | Inr u \<Rightarrow> retP (Inr \<lparr> sk_path = p, sk_hashed = [], sk_written = 0, sk_finished = False \<rparr>)))"

text \<open>Flushing and synchronising, then the signature, then the mark.\<close>

definition sink_finish :: "transfer_env \<Rightarrow> (string \<Rightarrow> string) \<Rightarrow> chunk \<Rightarrow> sink \<Rightarrow> ((string + bool) \<times> sink) prog" where
  "sink_finish tv digest c s =
     bindP (call (tv_calls tv) act_nothing) (\<lambda>r. case r of
       Inl e \<Rightarrow> retP (Inl (''flushing '' @ path_display (sk_path s) @ '': '' @ show_io e), s)
     | Inr u \<Rightarrow> bindP (call (tv_calls tv) act_nothing) (\<lambda>r. case r of
         Inl e \<Rightarrow> retP (Inl (''syncing '' @ path_display (sk_path s) @ '': '' @ show_io e), s)
       | Inr u \<Rightarrow>
           if digest (sk_hashed s) \<noteq> ch_content_sig c
           then retP (Inl (''content signature mismatch after '' @ show_word (sk_written s) @ '' bytes: sender said ''
                  @ ch_content_sig c @ '', received bytes hash to '' @ digest (sk_hashed s)), s)
           else retP (Inr True, s\<lparr> sk_finished := True \<rparr>)))"

definition sink_accept :: "transfer_env \<Rightarrow> (string \<Rightarrow> string) \<Rightarrow> chunk \<Rightarrow> sink \<Rightarrow> ((string + bool) \<times> sink) prog" where
  "sink_accept tv digest c s =
     (if sk_finished s then retP (Inl ''a chunk arrived after the transfer was declared complete'', s)
      else if ch_offset c \<noteq> sk_written s
      then retP (Inl (''chunk claims offset '' @ show_word (ch_offset c) @ '' but '' @ show_word (sk_written s)
             @ '' bytes have been written; the stream restarted or lost a chunk''), s)
      else bindP (if ch_data c = [] then retP (Inr ()) else write_all tv (sk_path s) (ch_data c)) (\<lambda>r. case r of
        Inl e \<Rightarrow> retP (Inl (''writing at offset '' @ show_word (sk_written s) @ '': '' @ show_io e), s)
      | Inr u \<Rightarrow>
          (let s = (if ch_data c = [] then s
                    else s\<lparr> sk_hashed := sk_hashed s @ ch_data c, sk_written := sk_written s + of_nat (length (ch_data c)) \<rparr>)
           in if \<not> ch_last c then retP (Inr False, s) else sink_finish tv digest c s)))"

text \<open>
  The server's staging of a push (\<open>transcodarr-server/src/session.rs\<close>, \<open>receive\<close>): the first chunk is
  given, the rest come from the stream, each a chunk or the status that broke it.
\<close>

fun receive_loop :: "transfer_env \<Rightarrow> (string \<Rightarrow> string) \<Rightarrow> string \<Rightarrow> i64 \<Rightarrow> (rpc_status + chunk) list \<Rightarrow> chunk \<Rightarrow> sink
    \<Rightarrow> (rpc_status + u64) prog" where
  "receive_loop tv digest job attempt stream c s =
     (if ch_job_id c \<noteq> job \<or> uint (ch_attempt c) \<noteq> attempt
      then retP (Inl (Status SC_InvalidArgument (''a chunk for '' @ ch_job_id c @ '':'' @ show_word (ch_attempt c)
             @ '' arrived inside a transfer of '' @ job @ '':'' @ show_int attempt @ ''; one stream carries one attempt'')))
      else bindP (sink_accept tv digest c s) (\<lambda>(r, s). case r of
        Inl m \<Rightarrow> retP (Inl (Status SC_DataLoss m))
      | Inr done \<Rightarrow>
          if done then retP (Inr (sk_written s))
          else (case stream of
            [] \<Rightarrow> retP (Inl (Status SC_DataLoss
              ''the stream ended without a final chunk; a transfer that stopped is not a transfer that finished''))
          | Inl e # _ \<Rightarrow> retP (Inl e)
          | Inr c' # rest \<Rightarrow> receive_loop tv digest job attempt rest c' s)))"

declare receive_loop.simps [simp del]

definition receive :: "transfer_env \<Rightarrow> (string \<Rightarrow> string) \<Rightarrow> (rpc_status + chunk) list \<Rightarrow> chunk \<Rightarrow> path \<Rightarrow> string \<Rightarrow> i64
    \<Rightarrow> (rpc_status + u64) prog" where
  "receive tv digest stream first temp job attempt =
     bindP (sink_create tv temp) (\<lambda>r. case r of
       Inl e \<Rightarrow> retP (Inl (Status SC_Internal (''cannot stage at '' @ path_display temp @ '': '' @ show_io e)))
     | Inr s \<Rightarrow> receive_loop tv digest job attempt stream first s)"

section \<open>What a completed transfer left\<close>

abbreviation anywhere :: "world \<Rightarrow> bool" where
  "anywhere \<equiv> (\<lambda>_. True)"

text \<open>The file holds what was hashed, and the count is its length.\<close>

definition sink_agrees :: "sink \<Rightarrow> world \<Rightarrow> bool" where
  "sink_agrees s w \<longleftrightarrow> (\<exists>f. file_at (sk_path s) w = Some f \<and> fl_bytes f = sk_hashed s)
     \<and> sk_written s = of_nat (length (sk_hashed s))"

definition holds_bytes :: "path \<Rightarrow> string \<Rightarrow> world \<Rightarrow> bool" where
  "holds_bytes p bytes w \<longleftrightarrow> (\<exists>f. file_at p w = Some f \<and> fl_bytes f = bytes)"

lemma holds_bytes_tick [simp]: "holds_bytes p b (tick w) = holds_bytes p b w"
  by (simp add: holds_bytes_def)

lemma append_holds:
  "holds_bytes p b w \<Longrightarrow> act_append tv p bytes w = Inr (u, w') \<Longrightarrow> holds_bytes p (b @ bytes) w'"
  by (auto simp: holds_bytes_def act_append_def file_at_def split: option.splits)

lemma triple_append:
  "triple (holds_bytes p b) (call env (act_append tv p bytes)) (\<lambda>r w. \<forall>u. r = Inr u \<longrightarrow> holds_bytes p (b @ bytes) w) anywhere"
  by (rule triple_call) (auto dest: append_holds)

lemma triple_write_all:
  "triple (holds_bytes p b) (write_all tv p bytes) (\<lambda>r w. \<forall>u. r = Inr u \<longrightarrow> holds_bytes p (b @ bytes) w) anywhere"
proof -
  have "triple (holds_bytes p b) (bindP (call (tv_calls tv) (act_append tv p (take n bytes))) (\<lambda>r. case r of
          Inl e \<Rightarrow> retP (Inl e) | Inr u \<Rightarrow> call (tv_calls tv) (act_append tv p (drop n bytes))))
       (\<lambda>r w. \<forall>u. r = Inr u \<longrightarrow> holds_bytes p (b @ bytes) w) anywhere" for n
  proof (rule triple_bind[OF triple_append])
    fix r :: "io_error + unit"
    have "triple (holds_bytes p (b @ take n bytes)) (call (tv_calls tv) (act_append tv p (drop n bytes)))
        (\<lambda>r w. \<forall>u. r = Inr u \<longrightarrow> holds_bytes p (b @ bytes) w) anywhere"
      using triple_append[of p "b @ take n bytes" "tv_calls tv" tv "drop n bytes"] by simp
    then show "triple (\<lambda>w. \<forall>u. r = Inr u \<longrightarrow> holds_bytes p (b @ take n bytes) w) (case r of
          Inl e \<Rightarrow> retP (Inl e) | Inr u \<Rightarrow> call (tv_calls tv) (act_append tv p (drop n bytes)))
       (\<lambda>r w. \<forall>u. r = Inr u \<longrightarrow> holds_bytes p (b @ bytes) w) anywhere"
      by (cases r) (auto simp: triple_ret)
  qed
  then show ?thesis by (simp add: triple_def write_all_def Let_def)
qed

text \<open>What an accepted chunk did.\<close>

definition accepted_step :: "(string \<Rightarrow> string) \<Rightarrow> chunk \<Rightarrow> sink \<Rightarrow> (string + bool) \<times> sink \<Rightarrow> world \<Rightarrow> bool" where
  "accepted_step digest c s out w \<longleftrightarrow> (\<forall>b. fst out = Inr b \<longrightarrow>
     (let t = snd out in b = ch_last c \<and> ch_offset c = sk_written s \<and> sk_path t = sk_path s
        \<and> sk_hashed t = sk_hashed s @ ch_data c \<and> sink_agrees t w \<and> (b \<longrightarrow> digest (sk_hashed t) = ch_content_sig c)))"

lemma triple_plain_call: "(\<And>w. P w = P (tick w)) \<Longrightarrow> triple P (call env act_nothing) (\<lambda>_. P) anywhere"
  by (rule triple_call) auto

lemma sink_agrees_tick [simp]: "sink_agrees s (tick w) = sink_agrees s w"
  by (simp add: sink_agrees_def)

lemma triple_finish:
  "triple (sink_agrees t) (sink_finish tv digest c t)
     (\<lambda>out w. \<forall>b. fst out = Inr b \<longrightarrow> b \<and> snd out = t\<lparr> sk_finished := True \<rparr> \<and> digest (sk_hashed t) = ch_content_sig c
        \<and> sink_agrees t w) anywhere"
  unfolding sink_finish_def
  by (intro triple_bind[OF triple_plain_call] triple_case_sum triple_if triple_ret) auto

lemma triple_accept: "triple (sink_agrees s) (sink_accept tv digest c s) (accepted_step digest c s) anywhere"
proof (cases "sk_finished s \<or> ch_offset c \<noteq> sk_written s")
  case True
  then show ?thesis by (auto simp: sink_accept_def triple_def retP_def accepted_step_def)
next
  case False
  define t where "t = (if ch_data c = [] then s
            else s\<lparr> sk_hashed := sk_hashed s @ ch_data c, sk_written := sk_written s + of_nat (length (ch_data c)) \<rparr>)"
  let ?q = "if \<not> ch_last c then retP (Inr False, t) else sink_finish tv digest c t"
  have t: "sk_path t = sk_path s" "sk_hashed t = sk_hashed s @ ch_data c"
    "sk_written t = sk_written s + of_nat (length (ch_data c))" by (simp_all add: t_def)
  have agrees: "holds_bytes (sk_path s) (sk_hashed s @ ch_data c) w \<Longrightarrow> sink_agrees t w"
    if "sk_written s = of_nat (length (sk_hashed s))" for w
    by (simp add: sink_agrees_def holds_bytes_def t that)
  have fin: "triple (sink_agrees t) (sink_finish tv digest c t) (accepted_step digest c s) anywhere" if "ch_last c"
    by (rule triple_conseq[OF triple_finish]) (use that False t in \<open>auto simp: accepted_step_def Let_def sink_agrees_def\<close>)
  have q: "triple (sink_agrees t) ?q (accepted_step digest c s) anywhere"
    using fin False t by (auto simp: triple_ret accepted_step_def)
  have wr: "triple (sink_agrees s) (if ch_data c = [] then retP (Inr ()) else write_all tv (sk_path s) (ch_data c))
      (\<lambda>r w. \<forall>u. r = Inr u \<longrightarrow> sink_agrees t w) anywhere"
  proof (cases "ch_data c = []")
    case True then show ?thesis by (simp add: triple_ret t_def)
  next
    case D: False
    show ?thesis
    proof (cases "sk_written s = of_nat (length (sk_hashed s))")
      case True
      have "triple (holds_bytes (sk_path s) (sk_hashed s)) (write_all tv (sk_path s) (ch_data c))
          (\<lambda>r w. \<forall>u. r = Inr u \<longrightarrow> sink_agrees t w) anywhere"
        by (rule triple_conseq[OF triple_write_all]) (use agrees[OF True] in auto)
      then have "triple (sink_agrees s) (write_all tv (sk_path s) (ch_data c)) (\<lambda>r w. \<forall>u. r = Inr u \<longrightarrow> sink_agrees t w) anywhere"
        by (rule triple_conseq) (auto simp: sink_agrees_def holds_bytes_def)
      then show ?thesis using D by simp
    next
      case F: False then show ?thesis by (simp add: triple_def sink_agrees_def)
    qed
  qed
  have step: "triple (\<lambda>w. \<forall>u. r = Inr u \<longrightarrow> sink_agrees t w) (case r of
        Inl e \<Rightarrow> retP (Inl (m e), s) | Inr u \<Rightarrow> ?q)
      (accepted_step digest c s) anywhere" for r :: "io_error + unit" and m
  proof (cases r)
    case (Inl e) then show ?thesis by (simp add: triple_ret accepted_step_def)
  next
    case (Inr u) then show ?thesis using q by simp
  qed
  show ?thesis unfolding sink_accept_def t_def[symmetric] Let_def using False triple_bind[OF wr step] by simp
qed

text \<open>
  A completed reception read some chunks and then a last one; the file is what the data of these
  chunks makes, in order, and the last one's signature is its digest.
\<close>

definition completes_with :: "(string \<Rightarrow> string) \<Rightarrow> string \<Rightarrow> (rpc_status + chunk) list \<Rightarrow> string \<Rightarrow> bool" where
  "completes_with digest before items bytes \<longleftrightarrow> (\<exists>cs l rest. items = map Inr cs @ Inr l # rest
     \<and> list_all (\<lambda>c. \<not> ch_last c) cs \<and> ch_last l
     \<and> bytes = before @ concat (map ch_data cs) @ ch_data l \<and> ch_content_sig l = digest bytes)"

lemma completes_Cons:
  "\<not> ch_last c \<Longrightarrow> completes_with digest (before @ ch_data c) items bytes \<Longrightarrow> completes_with digest before (Inr c # items) bytes"
  unfolding completes_with_def
  by (elim exE conjE, rule_tac x = "c # cs" in exI, rule_tac x = l in exI, rule_tac x = rest in exI) simp

lemma completes_last:
  "ch_last c \<Longrightarrow> digest (before @ ch_data c) = ch_content_sig c \<Longrightarrow> completes_with digest before (Inr c # items) (before @ ch_data c)"
  unfolding completes_with_def by (rule exI[of _ "[]"]) auto

definition received :: "(string \<Rightarrow> string) \<Rightarrow> string \<Rightarrow> path \<Rightarrow> (rpc_status + chunk) list \<Rightarrow> rpc_status + u64 \<Rightarrow> world \<Rightarrow> bool" where
  "received digest before p items r w \<longleftrightarrow> (\<forall>n. r = Inr n \<longrightarrow>
     (\<exists>bytes. holds_bytes p bytes w \<and> n = of_nat (length bytes) \<and> completes_with digest before items bytes))"

lemma triple_receive_loop:
  "triple (sink_agrees s) (receive_loop tv digest job attempt stream c s)
     (received digest (sk_hashed s) (sk_path s) (Inr c # stream)) anywhere"
proof (induction tv digest job attempt stream c s rule: receive_loop.induct)
  case (1 tv digest job attempt stream c s)
  let ?Q = "received digest (sk_hashed s) (sk_path s) (Inr c # stream)"
  have after: "triple (accepted_step digest c s out) (case out of (r, s) \<Rightarrow> case r of
        Inl m \<Rightarrow> retP (Inl (Status SC_DataLoss m))
      | Inr done \<Rightarrow> if done then retP (Inr (sk_written s))
          else (case stream of
            [] \<Rightarrow> retP (Inl (Status SC_DataLoss
              ''the stream ended without a final chunk; a transfer that stopped is not a transfer that finished''))
          | Inl e # _ \<Rightarrow> retP (Inl e)
          | Inr c' # rest \<Rightarrow> receive_loop tv digest job attempt rest c' s)) ?Q anywhere"
    if here: "\<not> (ch_job_id c \<noteq> job \<or> uint (ch_attempt c) \<noteq> attempt)" for out
  proof -
    obtain r t where out: "out = (r, t)" by (cases out)
    consider (bad) m where "r = Inl m" | (fin) "r = Inr True" | (stop) "r = Inr False" "stream = [] \<or> (\<exists>e rest. stream = Inl e # rest)"
      | (more) c' rest where "r = Inr False" "stream = Inr c' # rest"
      by (cases r; cases stream) (auto, metis sum.exhaust)
    then show ?thesis
    proof cases
      case bad then show ?thesis by (simp add: out triple_ret received_def)
    next
      case fin
      show ?thesis unfolding out fin
        by (simp, rule triple_ret)
          (auto simp: accepted_step_def received_def Let_def sink_agrees_def holds_bytes_def intro: completes_last)
    next
      case stop then show ?thesis by (auto simp: out triple_ret received_def)
    next
      case more
      have "triple (\<lambda>w. sink_agrees t w \<and> (\<not> ch_last c \<and> sk_path t = sk_path s \<and> sk_hashed t = sk_hashed s @ ch_data c))
          (receive_loop tv digest job attempt rest c' t) ?Q anywhere"
      proof (cases "\<not> ch_last c \<and> sk_path t = sk_path s \<and> sk_hashed t = sk_hashed s @ ch_data c")
        case True
        have ih: "triple (sink_agrees t) (receive_loop tv digest job attempt rest c' t)
            (received digest (sk_hashed t) (sk_path t) (Inr c' # rest)) anywhere"
          by (rule "1"[OF here, where b = False]) (use more in auto)
        show ?thesis
          by (rule triple_conseq[OF ih]) (use True more in \<open>auto simp: received_def intro: completes_Cons\<close>)
      next
        case False then show ?thesis unfolding triple_def by blast
      qed
      then show ?thesis unfolding out more
        by (simp, elim triple_conseq) (auto simp: accepted_step_def Let_def)
    qed
  qed
  show ?case
  proof (cases "ch_job_id c \<noteq> job \<or> uint (ch_attempt c) \<noteq> attempt")
    case True then show ?thesis by (simp add: receive_loop.simps[of tv digest job attempt stream c s] triple_ret received_def)
  next
    case False
    show ?thesis unfolding receive_loop.simps[of tv digest job attempt stream c s] if_not_P[OF False]
      by (rule triple_bind[OF triple_accept after[OF False]])
  qed
qed

section \<open>What a sender sends\<close>

lemma source_is_output:
  "\<exists>tail. source_loop digest rd p job attempt k offset seen left = map Inr (output_loop digest rd job attempt k offset seen left) @ tail
     \<and> (\<forall>x \<in> set tail. \<exists>e. x = Inl e)"
proof (induction digest rd p job attempt k offset seen left rule: source_loop.induct)
  case (1 digest rd p job attempt k offset seen left)
  show ?case
  proof (cases "read_some rd k left")
    case (Inl e)
    then show ?thesis
      by (simp add: source_loop.simps[of digest rd p job attempt k offset seen left]
          output_loop.simps[of digest rd job attempt k offset seen left])
  next
    case (Inr bytes)
    show ?thesis
    proof (cases "bytes = [] \<or> \<not> rd_open rd k")
      case True
      then show ?thesis
        by (auto simp: source_loop.simps[of digest rd p job attempt k offset seen left]
            output_loop.simps[of digest rd job attempt k offset seen left] Inr)
    next
      case False
      then show ?thesis using "1"[OF Inr]
        by (simp add: source_loop.simps[of digest rd p job attempt k offset seen left]
            output_loop.simps[of digest rd job attempt k offset seen left] Inr)
    qed
  qed
qed

lemma read_some_prefix:
  assumes "read_some rd k left = Inr bytes"
  shows "bytes @ drop (length bytes) left = left"
proof -
  obtain n where "bytes = take n left" using assms by (auto simp: read_some_def split: sum.splits)
  then show ?thesis by (cases "n \<le> length left") simp_all
qed

lemma read_some_empty: "read_some rd k left = Inr [] \<Longrightarrow> left = []"
  by (cases left) (auto simp: read_some_def take_Cons' split: sum.splits if_splits)

lemma completes_Cons_data:
  "completes_with digest before (Inr c # items) bytes \<Longrightarrow> \<not> ch_last c \<Longrightarrow> completes_with digest (before @ ch_data c) items bytes"
  unfolding completes_with_def
proof (elim exE conjE)
  fix cs l rest
  assume *: "\<not> ch_last c" "Inr c # items = map Inr cs @ Inr l # rest" "list_all (\<lambda>c. \<not> ch_last c) cs" "ch_last l"
    "bytes = before @ concat (map ch_data cs) @ ch_data l" "ch_content_sig l = digest bytes"
  then obtain cs' where "cs = c # cs'" by (cases cs) auto
  with * show "\<exists>cs l rest. items = map Inr cs @ Inr l # rest \<and> list_all (\<lambda>c. \<not> ch_last c) cs \<and> ch_last l
      \<and> bytes = (before @ ch_data c) @ concat (map ch_data cs) @ ch_data l \<and> ch_content_sig l = digest bytes"
    by (intro exI[of _ cs'] exI[of _ l] exI[of _ rest]) simp
qed

lemma completes_no_chunk: "\<forall>x \<in> set items. \<exists>e. x = Inl e \<Longrightarrow> \<not> completes_with digest before items bytes"
  by (auto simp: completes_with_def)

text \<open>However a stream is cut short, what completes is the whole of what was left to send.\<close>

lemma completes_output:
  assumes "completes_with digest before (take m (map Inr (output_loop digest' rd job attempt k offset seen left)) @ tail) bytes"
    "\<forall>x \<in> set tail. \<exists>e. x = Inl e"
  shows "bytes = before @ left"
  using assms
proof (induction digest' rd job attempt k offset seen left arbitrary: before m rule: output_loop.induct)
  case (1 digest' rd job attempt k offset seen left)
  note unf = output_loop.simps[of digest' rd job attempt k offset seen left]
  have none: "\<not> completes_with digest before tail bytes" for before using completes_no_chunk[OF "1.prems"(2)] .
  show ?case
  proof (cases "read_some rd k left")
    case (Inl e) then show ?thesis using "1.prems"(1) none by (simp add: unf)
  next
    case (Inr got)
    show ?thesis
    proof (cases m)
      case 0 then show ?thesis using "1.prems"(1) none by simp
    next
      case (Suc n)
      show ?thesis
      proof (cases "got = []")
        case True
        then have "completes_with digest before (Inr (last_chunk job attempt offset (digest' seen)) # tail) bytes"
          using "1.prems"(1) by (simp add: unf Inr Suc)
        then have "bytes = before" 
          by (auto simp: completes_with_def Cons_eq_append_conv last_chunk_def)
        then show ?thesis using read_some_empty Inr True by simp
      next
        case False
        show ?thesis
        proof (cases "rd_open rd k")
          case True
          have "completes_with digest (before @ got) (take n (map Inr (output_loop digest' rd job attempt (Suc k)
              (offset + of_nat (length got)) (seen @ got) (drop (length got) left))) @ tail) bytes"
            using completes_Cons_data[of digest before "data_chunk job attempt offset got"] "1.prems"(1) False True
            by (simp add: unf Inr Suc data_chunk_def)
          from "1.IH"[OF Inr False _ this "1.prems"(2)] True show ?thesis using read_some_prefix[OF Inr] by simp
        next
          case F: False then show ?thesis using "1.prems"(1) none False by (simp add: unf Inr)
        qed
      qed
    qed
  qed
qed

section \<open>A transfer nothing disturbs\<close>

lemma quiet_call: "call quiet act w = (case act w of Inl e \<Rightarrow> (Done (Inl e), tick w) | Inr (a, w') \<Rightarrow> (Done (Inr a), tick w'))"
  by (simp add: call_def quiet_def)

lemma quiet_append:
  "holds_bytes p b w \<Longrightarrow> \<exists>w'. call quiet (act_append tv p bytes) w = (Done (Inr ()), w') \<and> holds_bytes p (b @ bytes) w'"
  by (auto simp: quiet_call act_append_def holds_bytes_def file_at_def)

lemma quiet_write_all:
  assumes "tv_calls tv = quiet" "holds_bytes p b w"
  shows "\<exists>w'. write_all tv p bytes w = (Done (Inr ()), w') \<and> holds_bytes p (b @ bytes) w'"
proof -
  let ?n = "tv_cut tv (wd_calls w)"
  obtain w1 where 1: "call quiet (act_append tv p (take ?n bytes)) w = (Done (Inr ()), w1)" "holds_bytes p (b @ take ?n bytes) w1"
    using quiet_append[OF assms(2)] by blast
  obtain w2 where 2: "call quiet (act_append tv p (drop ?n bytes)) w1 = (Done (Inr ()), w2)"
      "holds_bytes p ((b @ take ?n bytes) @ drop ?n bytes) w2"
    using quiet_append[OF 1(2)] by blast
  show ?thesis using 1(1) 2 by (simp add: write_all_def bindP_def Let_def assms(1))
qed

lemma quiet_accept:
  assumes q: "tv_calls tv = quiet" and s: "sink_agrees s w" "\<not> sk_finished s" "ch_offset c = sk_written s"
    and sig: "ch_last c \<Longrightarrow> digest (sk_hashed s @ ch_data c) = ch_content_sig c"
  shows "\<exists>t w'. sink_accept tv digest c s w = (Done (Inr (ch_last c), t), w') \<and> sink_agrees t w' \<and> sk_finished t = ch_last c
     \<and> sk_path t = sk_path s \<and> sk_hashed t = sk_hashed s @ ch_data c
     \<and> sk_written t = sk_written s + of_nat (length (ch_data c))"
proof -
  have fin: "sink_finish tv digest c t v = (Done (Inr True, t\<lparr> sk_finished := True \<rparr>), tick (tick v))"
    if "digest (sk_hashed t) = ch_content_sig c" for t v
    using that by (simp add: sink_finish_def bindP_def quiet_call q retP_def)
  have agr: "sink_agrees (t\<lparr> sk_finished := b \<rparr>) v = sink_agrees t v" for t b v by (simp add: sink_agrees_def)
  show ?thesis
  proof (cases "ch_data c = []")
    case True
    then show ?thesis using s sig fin[of s w] by (simp add: sink_accept_def bindP_def retP_def Let_def agr)
  next
    case False
    let ?t = "s\<lparr> sk_hashed := sk_hashed s @ ch_data c, sk_written := sk_written s + of_nat (length (ch_data c)) \<rparr>"
    have "holds_bytes (sk_path s) (sk_hashed s) w" using s(1) by (auto simp: sink_agrees_def holds_bytes_def)
    from quiet_write_all[OF q this, of "ch_data c"] obtain w1 where
      w1: "write_all tv (sk_path s) (ch_data c) w = (Done (Inr ()), w1)" "holds_bytes (sk_path s) (sk_hashed s @ ch_data c) w1"
      by blast
    then have "sink_agrees ?t w1" using s(1) by (auto simp: sink_agrees_def holds_bytes_def)
    then show ?thesis using w1 s sig fin[of ?t w1] False by (simp add: sink_accept_def bindP_def retP_def Let_def agr)
  qed
qed

text \<open>A reader whose reads succeed and whose receiver stays.\<close>

definition steady :: "reader \<Rightarrow> bool" where
  "steady rd \<longleftrightarrow> (\<forall>k. rd_open rd k \<and> (\<exists>n. rd_read rd k = Inr n))"

lemma steady_read: "steady rd \<Longrightarrow> \<exists>got. read_some rd k left = Inr got"
  unfolding steady_def read_some_def by (metis sum.simps(6))

lemma quiet_receive_loop:
  assumes q: "tv_calls tv = quiet" and rd: "steady rd"
  shows "output_loop digest rd job attempt k (sk_written s) (sk_hashed s) left = c # cs \<Longrightarrow> sink_agrees s w \<Longrightarrow> \<not> sk_finished s \<Longrightarrow>
    \<exists>w'. receive_loop tv digest job (uint attempt) (map Inr cs) c s w = (Done (Inr (of_nat (length (sk_hashed s @ left)))), w')
       \<and> holds_bytes (sk_path s) (sk_hashed s @ left) w'"
proof (induction left arbitrary: k s c cs w rule: length_induct)
  case (1 left)
  note unf = output_loop.simps[of digest rd job attempt k "sk_written s" "sk_hashed s" left]
  obtain got where got: "read_some rd k left = Inr got" using steady_read[OF rd] by blast
  have op: "rd_open rd k" using rd by (simp add: steady_def)
  have len: "sk_written t = of_nat (length (sk_hashed t))" if "sink_agrees t v" for t v using that by (simp add: sink_agrees_def)
  show ?case
  proof (cases "got = []")
    case True
    then have c: "c = last_chunk job attempt (sk_written s) (digest (sk_hashed s))" "cs = []" and e: "left = []"
      using "1.prems"(1) got read_some_empty by (auto simp: unf)
    obtain t w' where a: "sink_accept tv digest c s w = (Done (Inr True, t), w')" "sink_agrees t w'" "sk_path t = sk_path s"
        "sk_hashed t = sk_hashed s"
      using quiet_accept[OF q "1.prems"(2,3), of c digest] by (auto simp: c last_chunk_def)
    then show ?thesis using len[OF a(2)] unfolding receive_loop.simps[of tv digest job "uint attempt" "map Inr cs" c s]
      by (auto simp: bindP_def retP_def e sink_agrees_def holds_bytes_def) (auto simp: c(1) last_chunk_def)
  next
    case False
    let ?left = "drop (length got) left"
    have c: "c = data_chunk job attempt (sk_written s) got"
      and cs: "cs = output_loop digest rd job attempt (Suc k) (sk_written s + of_nat (length got)) (sk_hashed s @ got) ?left"
      using "1.prems"(1) got False op by (auto simp: unf)
    obtain t w1 where a: "sink_accept tv digest c s w = (Done (Inr False, t), w1)" "sink_agrees t w1" "\<not> sk_finished t"
        "sk_path t = sk_path s" "sk_hashed t = sk_hashed s @ got" "sk_written t = sk_written s + of_nat (length got)"
      using quiet_accept[OF q "1.prems"(2,3), of c digest] by (auto simp: c data_chunk_def)
    have shorter: "length ?left < length left" using False read_some_prefix[OF got] by (cases left) auto
    obtain got' where got': "read_some rd (Suc k) ?left = Inr got'"
      using steady_read[OF rd] by blast
    have "cs \<noteq> []" using got' rd
      by (simp add: cs output_loop.simps[of digest rd job attempt "Suc k" _ _ ?left] steady_def)
    then obtain c' cs' where cs': "cs = c' # cs'" by (cases cs) auto
    have "output_loop digest rd job attempt (Suc k) (sk_written t) (sk_hashed t) ?left = c' # cs'"
      using cs cs' a(5,6) by simp
    from "1.IH"[rule_format, OF shorter this a(2,3)] obtain w' where
      "receive_loop tv digest job (uint attempt) (map Inr cs') c' t w1 = (Done (Inr (of_nat (length (sk_hashed t @ ?left)))), w')"
      "holds_bytes (sk_path t) (sk_hashed t @ ?left) w'" by blast
    moreover have "sk_hashed t @ ?left = sk_hashed s @ left" using read_some_prefix[OF got] a(5) by simp
    ultimately show ?thesis using a(1,4) unfolding receive_loop.simps[of tv digest job "uint attempt" "map Inr cs" c s]
      by (auto simp: bindP_def cs') (auto simp: c data_chunk_def)
  qed
qed

section \<open>Properties\<close>

lemma sink_create_agrees:
  "triple anywhere (sink_create tv p) (\<lambda>r w. \<forall>s. r = Inr s \<longrightarrow> sink_agrees s w \<and> sk_hashed s = [] \<and> sk_path s = p) anywhere"
proof -
  have create: "triple anywhere (call (tv_calls tv) (act_create tv p)) (\<lambda>r w. r = Inr () \<longrightarrow> holds_bytes p [] w) anywhere"
    by (rule triple_call) (auto simp: act_create_def holds_bytes_def file_at_def)
  have mk: "triple (\<lambda>w. r = Inr () \<longrightarrow> holds_bytes p [] w) (case r of Inl e \<Rightarrow> retP (Inl e)
       | Inr u \<Rightarrow> retP (Inr \<lparr> sk_path = p, sk_hashed = [], sk_written = 0, sk_finished = False \<rparr>))
      (\<lambda>r w. \<forall>s. r = Inr s \<longrightarrow> sink_agrees s w \<and> sk_hashed s = [] \<and> sk_path s = p) anywhere" for r :: "io_error + unit"
    by (cases r) (auto simp: triple_ret sink_agrees_def holds_bytes_def)
  have dir: "triple anywhere (case parent p of Some q \<Rightarrow> call (tv_calls tv) act_nothing | None \<Rightarrow> retP (Inr ())) (\<lambda>_. anywhere) anywhere"
    by (cases "parent p") (auto intro: triple_ret triple_plain_call)
  show ?thesis unfolding sink_create_def
    by (rule triple_bind[OF dir], rule triple_case_sum, rule triple_ret, simp, rule triple_bind[OF create mk])
qed

lemma triple_receive:
  "triple anywhere (receive tv digest stream c p job attempt) (received digest [] p (Inr c # stream)) anywhere"
  unfolding receive_def
proof (rule triple_bind[OF sink_create_agrees])
  fix r
  show "triple (\<lambda>w. \<forall>s. r = Inr s \<longrightarrow> sink_agrees s w \<and> sk_hashed s = [] \<and> sk_path s = p) (case r of
       Inl e \<Rightarrow> retP (Inl (Status SC_Internal (''cannot stage at '' @ path_display p @ '': '' @ show_io e)))
     | Inr s \<Rightarrow> receive_loop tv digest job attempt stream c s) (received digest [] p (Inr c # stream)) anywhere"
  proof (cases r)
    case (Inl e) then show ?thesis by (simp add: triple_ret received_def)
  next
    case (Inr s)
    show ?thesis
    proof (cases "sk_hashed s = [] \<and> sk_path s = p")
      case True
      then show ?thesis using triple_receive_loop[of s tv digest job attempt stream c] by (simp add: Inr)
    next
      case False then show ?thesis by (auto simp: Inr triple_def)
    qed
  qed
qed

lemma receive_done:
  assumes "receive tv digest stream c p job attempt w = (Done (Inr n), w')"
  shows "\<exists>bytes. holds_bytes p bytes w' \<and> n = of_nat (length bytes) \<and> completes_with digest [] (Inr c # stream) bytes"
  using triple_receive[of tv digest stream c p job attempt] assms by (auto simp: triple_def received_def dest!: spec[of _ w])

lemma receive_quiet:
  assumes "tv_calls tv = quiet" "steady rd" "output_stream digest rd job attempt content = c # cs"
  shows "\<exists>w'. receive tv digest (map Inr cs) c p job (uint attempt) w = (Done (Inr (of_nat (length content))), w') \<and> holds_bytes p content w'"
proof -
  let ?s = "\<lparr> sk_path = p, sk_hashed = [], sk_written = 0, sk_finished = False \<rparr>"
  obtain w1 where w1: "sink_create tv p w = (Done (Inr ?s), w1)" "sink_agrees ?s w1"
    by (cases "parent p")
      (auto simp: sink_create_def bindP_def retP_def assms(1) quiet_call act_create_def sink_agrees_def file_at_def)
  have "output_loop digest rd job attempt 0 (sk_written ?s) (sk_hashed ?s) content = c # cs"
    using assms(3) by (simp add: output_stream_def)
  from quiet_receive_loop[OF assms(1,2) this w1(2)] show ?thesis by (simp add: receive_def bindP_def w1(1))
qed

text \<open>
  C24. A transfer that completes is the file that was sent. Whatever the reads return and wherever the
  receiver or the connection stops, and whichever system calls of the sink fail: if the chunks a sender
  made of a file, cut short anywhere and possibly ended by an error, are received to completion, the
  staged file has the sender's bytes and the count is their length. For a stream from elsewhere the
  signature decides: if it completes and its last chunk is signed with the digest of a text that no
  other text shares, the file has that text. And a transfer nothing disturbs does complete.
\<close>

theorem transfer_is_exact:
  assumes "output_stream digest rd job attempt content = c # cs"
  shows "(receive tv digest' (take m (map Inr cs) @ tail) c p job' attempt' w = (Done (Inr n), w')
            \<longrightarrow> (\<forall>x \<in> set tail. \<exists>e. x = Inl e)
            \<longrightarrow> holds_bytes p content w' \<and> n = of_nat (length content))
       \<and> (receive tv digest' stream d p job' attempt' w = (Done (Inr n), w')
            \<longrightarrow> (\<forall>x. digest' x = digest' text \<longrightarrow> x = text)
            \<longrightarrow> (\<forall>l. Inr l \<in> set (Inr d # stream) \<longrightarrow> ch_last l \<longrightarrow> ch_content_sig l = digest' text)
            \<longrightarrow> holds_bytes p text w' \<and> n = of_nat (length text))
       \<and> (tv_calls tv = quiet \<longrightarrow> steady rd \<longrightarrow>
            (\<exists>v. receive tv digest (map Inr cs) c p job (uint attempt) w = (Done (Inr (of_nat (length content))), v)
               \<and> holds_bytes p content v))"
proof (intro conjI impI)
  assume r: "receive tv digest' (take m (map Inr cs) @ tail) c p job' attempt' w = (Done (Inr n), w')"
    and tail: "\<forall>x \<in> set tail. \<exists>e. x = Inl e"
  obtain bytes where b: "holds_bytes p bytes w'" "n = of_nat (length bytes)"
      "completes_with digest' [] (Inr c # take m (map Inr cs) @ tail) bytes" using receive_done[OF r] by blast
  have "Inr c # take m (map Inr cs) @ tail = take (Suc m) (map Inr (output_loop digest rd job attempt 0 0 [] content)) @ tail"
    using assms by (simp add: output_stream_def)
  with b(3) completes_output[OF _ tail] have "bytes = [] @ content" by metis
  with b(1,2) show "holds_bytes p content w'" "n = of_nat (length content)" by simp_all
next
  assume r: "receive tv digest' stream d p job' attempt' w = (Done (Inr n), w')"
    and inj: "\<forall>x. digest' x = digest' text \<longrightarrow> x = text"
    and sig: "\<forall>l. Inr l \<in> set (Inr d # stream) \<longrightarrow> ch_last l \<longrightarrow> ch_content_sig l = digest' text"
  obtain bytes where b: "holds_bytes p bytes w'" "n = of_nat (length bytes)" "completes_with digest' [] (Inr d # stream) bytes"
    using receive_done[OF r] by blast
  from b(3) obtain l cs' rest where l: "Inr d # stream = map Inr cs' @ Inr l # rest" "ch_last l" "ch_content_sig l = digest' bytes"
    by (auto simp: completes_with_def)
  then have "digest' bytes = digest' text" using sig by (metis in_set_conv_decomp)
  then have "bytes = text" using inj by blast
  with b(1,2) show "holds_bytes p text w'" "n = of_nat (length text)" by simp_all
next
  assume "tv_calls tv = quiet" "steady rd"
  from receive_quiet[OF this assms] show "\<exists>v. receive tv digest (map Inr cs) c p job (uint attempt) w
      = (Done (Inr (of_nat (length content))), v) \<and> holds_bytes p content v" .
qed

definition sample_transfer :: transfer_env where
  "sample_transfer = \<lparr> tv_calls = quiet, tv_mtime = (\<lambda>n. Some 1), tv_inode = (\<lambda>n. Some 9), tv_cut = (\<lambda>n. 1) \<rparr>"

definition sample_reader :: reader where
  "sample_reader = \<lparr> rd_read = (\<lambda>k. Inr 3), rd_open = (\<lambda>k. True) \<rparr>"

lemma transfer_is_exact_witness:
  "length (output_stream id sample_reader ''j'' 1 ''video'') = 3
   \<and> (\<exists>v. receive sample_transfer id (map Inr (tl (output_stream id sample_reader ''j'' 1 ''video'')))
         (hd (output_stream id sample_reader ''j'' 1 ''video'')) [Normal ''t''] ''j'' 1 \<lparr> wd_calls = 0, wd_files = [], wd_journal = [] \<rparr>
       = (Done (Inr 5), v) \<and> holds_bytes [Normal ''t''] ''video'' v)"
proof -
  let ?out = "output_stream id sample_reader ''j'' 1 ''video''"
  have len: "length ?out = 3"
    by (simp add: output_stream_def output_loop.simps read_some_def sample_reader_def chunk_bytes_def data_chunk_def last_chunk_def)
  then obtain c cs where out: "?out = c # cs" by (cases ?out) auto
  have s: "tv_calls sample_transfer = quiet" "steady sample_reader"
    by (simp_all add: sample_transfer_def steady_def sample_reader_def)
  from transfer_is_exact[OF out, THEN conjunct2, THEN conjunct2, rule_format, OF s, of "[Normal ''t'']"] len show ?thesis
    by (simp add: out)
qed

end
