(* ===== verification/Server_Base.thy ===== *)
theory Server_Base
  imports Writer Fleet File_Transfer
begin

text \<open>
  What the handlers and loops of the server run on: the database behind the writer, the registry of
  connected agents and the files of the machine. Every access is one step. Before it, the others that
  share the server take theirs; then the access happens, or fails as the surroundings decide. A
  handler returns, breaks off with a status, or ends with the death of the process. The rules keep an
  invariant of the server whatever the others do within it.
\<close>

section \<open>State and surroundings\<close>

record server =
  sv_db :: database
  sv_fleet :: fleet
  sv_world :: world
  sv_calls :: nat

text \<open>
  For the \<open>k\<close>-th access: the clock, the fault it meets, the writes and the registry steps of the
  others before it; and how an error is printed.
\<close>

record surroundings =
  su_clock :: "nat \<Rightarrow> i64"
  su_fault :: "nat \<Rightarrow> store_error option"
  su_writes :: "nat \<Rightarrow> (i64 \<times> write_op) list"
  su_fleet :: "nat \<Rightarrow> fleet_step list"
  su_render :: "store_error \<Rightarrow> string"

datatype ('e, 'a) answer = Reply 'a | Broken 'e | Died

text \<open>A process may keep state of its own beside the server's.\<close>

type_synonym ('b, 'e, 'a) process = "'b server_scheme \<Rightarrow> ('e, 'a) answer \<times> 'b server_scheme"

definition retH :: "'a \<Rightarrow> ('b, 'e, 'a) process" where
  "retH a s = (Reply a, s)"

definition failH :: "'e \<Rightarrow> ('b, 'e, 'a) process" where
  "failH e s = (Broken e, s)"

definition bindH :: "('b, 'e, 'a) process \<Rightarrow> ('a \<Rightarrow> ('b, 'e, 'c) process) \<Rightarrow> ('b, 'e, 'c) process" where
  "bindH h f s = (case h s of
     (Reply a, s') \<Rightarrow> f a s' | (Broken e, s') \<Rightarrow> (Broken e, s') | (Died, s') \<Rightarrow> (Died, s'))"

definition thenH :: "('b, 'e, 'a) process \<Rightarrow> ('b, 'e, 'c) process \<Rightarrow> ('b, 'e, 'c) process" where
  "thenH h g = bindH h (\<lambda>_. g)"

text \<open>The code's \<open>?\<close> on a result.\<close>

definition tryH :: "'e + 'a \<Rightarrow> ('b, 'e, 'a) process" where
  "tryH r = (case r of Inl e \<Rightarrow> failH e | Inr a \<Rightarrow> retH a)"

text \<open>An error the caller looks at.\<close>

definition caught :: "('b, 'e, 'a) process \<Rightarrow> ('b, 'f, 'e + 'a) process" where
  "caught h s = (case h s of
     (Reply a, s') \<Rightarrow> (Reply (Inr a), s') | (Broken e, s') \<Rightarrow> (Reply (Inl e), s') | (Died, s') \<Rightarrow> (Died, s'))"

section \<open>Accesses\<close>

definition others_act :: "surroundings \<Rightarrow> 'b server_scheme \<Rightarrow> 'b server_scheme" where
  "others_act su s = s\<lparr> sv_db := run_writes (su_writes su (sv_calls s)) (sv_db s),
     sv_fleet := fold fleet_act (su_fleet su (sv_calls s)) (sv_fleet s), sv_calls := Suc (sv_calls s) \<rparr>"

definition read_db :: "surroundings \<Rightarrow> (database \<Rightarrow> store_error + 'a) \<Rightarrow> ('b, 'e, store_error + 'a) process" where
  "read_db su f s =
     (let t = others_act su s
      in case su_fault su (sv_calls s) of Some e \<Rightarrow> (Reply (Inl e), t) | None \<Rightarrow> (Reply (f (sv_db t)), t))"

text \<open>An operation goes through the writer: it is applied whole, or not at all.\<close>

definition submit :: "surroundings \<Rightarrow> write_op \<Rightarrow> ('b, 'e, store_error + write_ack) process" where
  "submit su op s =
     (let t = others_act su s
      in case su_fault su (sv_calls s) of
           Some e \<Rightarrow> (Reply (Inl e), t)
         | None \<Rightarrow> (case apply_op op (su_clock su (sv_calls s)) (sv_db t) of (r, db) \<Rightarrow> (Reply r, t\<lparr> sv_db := db \<rparr>)))"

definition on_fleet :: "surroundings \<Rightarrow> (fleet \<Rightarrow> 'a \<times> fleet) \<Rightarrow> ('b, 'e, 'a) process" where
  "on_fleet su f s = (let t = others_act su s in case f (sv_fleet t) of (a, fl) \<Rightarrow> (Reply a, t\<lparr> sv_fleet := fl \<rparr>))"

definition on_files :: "'a prog \<Rightarrow> ('b, 'e, agent_error + 'a) process" where
  "on_files p s = (case p (sv_world s) of
     (Done a, w) \<Rightarrow> (Reply (Inr a), s\<lparr> sv_world := w \<rparr>)
   | (Raised e, w) \<Rightarrow> (Reply (Inl e), s\<lparr> sv_world := w \<rparr>)
   | (Crashed, w) \<Rightarrow> (Died, s\<lparr> sv_world := w \<rparr>))"

section \<open>Rules\<close>

text \<open>
  From a server satisfying \<open>P\<close>, a handler that replies \<open>a\<close> does so in one satisfying \<open>Q a\<close>, and
  wherever it breaks off or dies \<open>I\<close> holds.
\<close>

definition spec :: "('b server_scheme \<Rightarrow> bool) \<Rightarrow> ('b, 'e, 'a) process \<Rightarrow> ('a \<Rightarrow> 'b server_scheme \<Rightarrow> bool) \<Rightarrow> ('b server_scheme \<Rightarrow> bool) \<Rightarrow> bool" where
  "spec P h Q I \<longleftrightarrow> (\<forall>s. P s \<longrightarrow> (case h s of
     (Reply a, s') \<Rightarrow> Q a s' | (Broken e, s') \<Rightarrow> I s' | (Died, s') \<Rightarrow> I s'))"

abbreviation keeps :: "('b server_scheme \<Rightarrow> bool) \<Rightarrow> ('b, 'e, 'a) process \<Rightarrow> bool" where
  "keeps I h \<equiv> spec I h (\<lambda>_. I) I"

named_theorems specs \<open>rules for handlers, applied backwards\<close>

lemma specI:
  "(\<And>s r s'. P s \<Longrightarrow> h s = (r, s') \<Longrightarrow> (case r of Reply a \<Rightarrow> Q a s' | _ \<Rightarrow> I s')) \<Longrightarrow> spec P h Q I"
  by (fastforce simp: spec_def split: prod.splits answer.splits)

lemma specD: "spec P h Q I \<Longrightarrow> P s \<Longrightarrow> h s = (r, s') \<Longrightarrow> (case r of Reply a \<Rightarrow> Q a s' | _ \<Rightarrow> I s')"
  by (fastforce simp: spec_def split: answer.splits)

lemma spec_conseq:
  "spec P h Q I \<Longrightarrow> (\<And>s. P' s \<Longrightarrow> P s) \<Longrightarrow> (\<And>a s. Q a s \<Longrightarrow> Q' a s) \<Longrightarrow> (\<And>s. I s \<Longrightarrow> I' s) \<Longrightarrow> spec P' h Q' I'"
  by (fastforce simp: spec_def split: prod.splits answer.splits)

lemma spec_ret: "(\<And>s. P s \<Longrightarrow> Q a s) \<Longrightarrow> spec P (retH a) Q I"
  by (simp add: spec_def retH_def)

lemma spec_fail: "(\<And>s. P s \<Longrightarrow> I s) \<Longrightarrow> spec P (failH e) Q I"
  by (simp add: spec_def failH_def)

lemma spec_bind: "spec P h Q I \<Longrightarrow> (\<And>a. spec (Q a) (f a) R I) \<Longrightarrow> spec P (bindH h f) R I"
  by (fastforce simp: spec_def bindH_def split: prod.splits answer.splits)

lemma spec_then: "spec P h (\<lambda>_. Q) I \<Longrightarrow> spec Q g R I \<Longrightarrow> spec P (thenH h g) R I"
  unfolding thenH_def by (rule spec_bind)

lemma spec_try: "(\<And>e s. r = Inl e \<Longrightarrow> P s \<Longrightarrow> I s) \<Longrightarrow> (\<And>a s. r = Inr a \<Longrightarrow> P s \<Longrightarrow> Q a s) \<Longrightarrow> spec P (tryH r) Q I"
  by (cases r) (simp_all add: tryH_def spec_ret spec_fail)

lemma spec_if: "(b \<Longrightarrow> spec P h Q I) \<Longrightarrow> (\<not> b \<Longrightarrow> spec P g Q I) \<Longrightarrow> spec P (if b then h else g) Q I"
  by simp

lemma spec_sum:
  "(\<And>e. r = Inl e \<Longrightarrow> spec P (f e) Q I) \<Longrightarrow> (\<And>a. r = Inr a \<Longrightarrow> spec P (g a) Q I)
   \<Longrightarrow> spec P (case r of Inl e \<Rightarrow> f e | Inr a \<Rightarrow> g a) Q I"
  by (cases r) simp_all

lemma spec_option:
  "(r = None \<Longrightarrow> spec P f Q I) \<Longrightarrow> (\<And>a. r = Some a \<Longrightarrow> spec P (g a) Q I)
   \<Longrightarrow> spec P (case r of None \<Rightarrow> f | Some a \<Rightarrow> g a) Q I"
  by (cases r) simp_all

lemma spec_prod: "(\<And>a b. p = (a, b) \<Longrightarrow> spec P (f a b) Q I) \<Longrightarrow> spec P (case p of (a, b) \<Rightarrow> f a b) Q I"
  by (cases p) simp

lemma spec_pure: "(C \<Longrightarrow> spec P h Q I) \<Longrightarrow> spec (\<lambda>s. P s \<and> C) h Q I"
  by (cases C) (simp_all add: spec_def)

lemma spec_caught:
  "spec P h (\<lambda>a. Q (Inr a)) J \<Longrightarrow> (\<And>e s. J s \<Longrightarrow> Q (Inl e) s \<and> I s) \<Longrightarrow> spec P (caught h) Q I"
  by (fastforce simp: spec_def caught_def split: prod.splits answer.splits)

lemma keeps_bind: "keeps I h \<Longrightarrow> (\<And>a. keeps I (f a)) \<Longrightarrow> keeps I (bindH h f)"
  by (rule spec_bind)

lemma keeps_then: "keeps I h \<Longrightarrow> keeps I g \<Longrightarrow> keeps I (thenH h g)"
  by (rule spec_then)

lemma keeps_ret: "keeps I (retH a)"
  by (rule spec_ret)

lemma keeps_fail: "keeps I (failH e)"
  by (rule spec_fail)

lemma keeps_try: "keeps I (tryH r)"
  by (rule spec_try)

lemma keeps_caught: "keeps I h \<Longrightarrow> keeps I (caught h)"
  by (rule spec_caught) simp_all

lemmas keeps_intros = keeps_bind keeps_then keeps_ret keeps_fail keeps_try keeps_caught spec_if spec_sum spec_option spec_prod

lemma keepsD: "keeps I h \<Longrightarrow> I s \<Longrightarrow> I (snd (h s))"
proof -
  assume k: "keeps I h" and s: "I s"
  obtain r t where h: "h s = (r, t)" by (cases "h s")
  show ?thesis using specD[OF k s h] h by (cases r) simp_all
qed

text \<open>
  The contract between the server's handlers and what they share: an invariant that the others keep
  between two accesses, that every operation of a family keeps, and every step of the registry.
\<close>

locale guarded_server =
  fixes su :: surroundings
    and inv :: "'b server_scheme \<Rightarrow> bool"
    and ops :: "write_op set"
  assumes others_kept: "inv s \<Longrightarrow> inv (others_act su s)"
    and write_kept: "op \<in> ops \<Longrightarrow> inv s \<Longrightarrow> inv (s\<lparr> sv_db := snd (apply_op op now (sv_db s)) \<rparr>)"
    and fleet_kept: "inv s \<Longrightarrow> inv (s\<lparr> sv_fleet := fleet_act x (sv_fleet s) \<rparr>)"
    and files_kept: "inv s \<Longrightarrow> inv (s\<lparr> sv_world := w \<rparr>)"
begin

lemma read_keeps: "keeps inv (read_db su f)"
  by (simp add: spec_def read_db_def Let_def others_kept split: option.split)

lemma submit_keeps:
  assumes "op \<in> ops"
  shows "keeps inv (submit su op)"
proof (rule specI)
  fix s r s' assume s: "inv s" and h: "submit su op s = (r, s')"
  note o = others_kept[OF s]
  show "case r of Reply a \<Rightarrow> inv s' | _ \<Rightarrow> inv s'"
  proof (cases "su_fault su (sv_calls s)")
    case None
    obtain x db where a: "apply_op op (su_clock su (sv_calls s)) (sv_db (others_act su s)) = (x, db)" by (cases "apply_op op (su_clock su (sv_calls s)) (sv_db (others_act su s))")
    then show ?thesis using h None write_kept[OF assms o, of "su_clock su (sv_calls s)"] by (auto simp: submit_def Let_def)
  next
    case (Some e) then show ?thesis using h o by (auto simp: submit_def Let_def)
  qed
qed

lemma fleet_keeps:
  assumes "\<And>fl. snd (f fl) = fleet_act x fl"
  shows "keeps inv (on_fleet su f)"
proof (rule specI)
  fix s r s' assume s: "inv s" and h: "on_fleet su f s = (r, s')"
  have "s' = (others_act su s)\<lparr> sv_fleet := fleet_act x (sv_fleet (others_act su s)) \<rparr>"
    using h assms[of "sv_fleet (others_act su s)"] by (auto simp: on_fleet_def Let_def split: prod.splits)
  then have "inv s'" using fleet_kept[OF others_kept[OF s]] by simp
  then show "case r of Reply a \<Rightarrow> inv s' | _ \<Rightarrow> inv s'" by (cases r) simp_all
qed

lemma files_keeps: "keeps inv (on_files p)"
  by (simp add: spec_def on_files_def files_kept split: prod.split outcome.split)

lemmas keeps_rules = spec_ret spec_fail spec_bind spec_then spec_try spec_if spec_sum spec_option spec_prod
  read_keeps submit_keeps files_keeps

end

text \<open>The server's own invariant; the others submit operations of the repositories.\<close>

definition server_ok :: "surroundings \<Rightarrow> 'b server_scheme \<Rightarrow> bool" where
  "server_ok su s \<longleftrightarrow> store_ok (sv_db s) \<and> fleet_ok (sv_fleet s) \<and> (\<forall>k. \<forall>(now, op) \<in> set (su_writes su k). op \<in> store_ops)"

interpretation server_store: guarded_server su "server_ok su" store_ops for su
proof
  show "server_ok su (others_act su s)" if "server_ok su s" for s
    using that store_writes.run_kept[of "su_writes su (sv_calls s)" "sv_db s"] fleet_acts_ok
    by (auto simp: server_ok_def others_act_def)
  show "server_ok su (s\<lparr> sv_db := snd (apply_op op now (sv_db s)) \<rparr>)" if "op \<in> store_ops" "server_ok su s" for s op now
    using that store_writes.apply_kept by (simp add: server_ok_def)
  show "server_ok su (s\<lparr> sv_fleet := fleet_act x (sv_fleet s) \<rparr>)" if "server_ok su s" for s x
    using that fleet_act_ok by (simp add: server_ok_def)
  show "server_ok su (s\<lparr> sv_world := w \<rparr>)" if "server_ok su s" for s w
    using that by (simp add: server_ok_def)
qed

section \<open>Undisturbed runs\<close>

text \<open>No faults and nobody else: what a handler does by itself.\<close>

definition calm :: "surroundings \<Rightarrow> bool" where
  "calm su \<longleftrightarrow> (\<forall>k. su_fault su k = None \<and> su_writes su k = [] \<and> su_fleet su k = [])"

lemma calm_others: "calm su \<Longrightarrow> others_act su s = s\<lparr> sv_calls := Suc (sv_calls s) \<rparr>"
  by (simp add: calm_def others_act_def)

lemma calm_read: "calm su \<Longrightarrow> read_db su f s = (Reply (f (sv_db s)), s\<lparr> sv_calls := Suc (sv_calls s) \<rparr>)"
  by (simp add: calm_def others_act_def read_db_def)

lemma calm_submit:
  "calm su \<Longrightarrow> submit su op s = (case apply_op op (su_clock su (sv_calls s)) (sv_db s) of
     (r, db) \<Rightarrow> (Reply r, s\<lparr> sv_calls := Suc (sv_calls s), sv_db := db \<rparr>))"
  by (simp add: calm_def others_act_def submit_def)

lemma calm_fleet:
  "calm su \<Longrightarrow> on_fleet su f s = (case f (sv_fleet s) of (a, fl) \<Rightarrow> (Reply a, s\<lparr> sv_calls := Suc (sv_calls s), sv_fleet := fl \<rparr>))"
  by (simp add: calm_def others_act_def on_fleet_def)

lemmas handler_steps = bindH_def thenH_def retH_def failH_def tryH_def caught_def

section \<open>A sample server\<close>

definition sample_server :: server where
  "sample_server = \<lparr> sv_db = run_writes sample_ledger_steps (empty_database [sample_file] [sample_library] [sample_agent]),
     sv_fleet = snd (fleet_connect ''a'' 7 empty_fleet), sv_world = \<lparr> wd_calls = 0, wd_files = [], wd_journal = [] \<rparr>, sv_calls = 0 \<rparr>"

definition undisturbed :: surroundings where
  "undisturbed = \<lparr> su_clock = int, su_fault = (\<lambda>k. None), su_writes = (\<lambda>k. []), su_fleet = (\<lambda>k. []), su_render = (\<lambda>e. []) \<rparr>"

lemma sample_store_ok: "store_ok (empty_database [sample_file] [sample_library] [sample_agent])"
proof -
  have discovered: "\<exists>s. ''Discovered'' = file_state_as_str s" by (rule exI[of _ FS_Discovered]) simp
  show ?thesis
    by (simp add: store_ok_def)
      (simp add: agents_ok_def libraries_ok_def blocks_ok_def files_ok_def empty_database_def agent_checks_def
        sample_agent_def sample_library_def sample_file_def file_row_ok_def no_probe_def discovered)
qed

lemma sample_server_ok: "calm undisturbed" "server_ok undisturbed sample_server"
proof -
  show "calm undisturbed" by (simp add: calm_def undisturbed_def)
  note sample_store_ok
  moreover have "\<forall>(now, op) \<in> set sample_ledger_steps. op \<in> store_ops"
    using sample_ledger_ops by (auto simp: store_ops_def)
  ultimately have "store_ok (sv_db sample_server)"
    unfolding sample_server_def by (simp add: store_writes.run_kept)
  then show "server_ok undisturbed sample_server"
    by (simp add: server_ok_def undisturbed_def connect_ok sample_server_def)
qed

lemma sample_server_job: "\<exists>j. get_job ''j'' (sv_db sample_server) = Inr j \<and> jr_state j = Assigned
    \<and> jr_agent_id j = Some ''a'' \<and> jr_fencing_epoch j = 7 \<and> jr_attempt j = 0 \<and> jr_max_attempts j = 3 \<and> jr_file_id j = 1"
  using job_class_spelling.parse_eq_Some[of "''Audio''" JC_Audio]
    size_bucket_spelling.parse_eq_Some[of "''Small''" Small]
    job_state_spelling.parse_eq_Some[of "''Assigned''" Assigned]
  by (simp add: sample_server_def sample_ledger_steps_def grant_op_def insert_intent_def intent_checks_def
      new_intent_row_def sample_intent_def run_sample)

lemma sample_server_files: "db_files (sv_db sample_server) = [sample_file]"
  by (simp add: sample_server_def sample_ledger_steps_def grant_op_def insert_intent_def intent_checks_def
      new_intent_row_def sample_intent_def run_sample)

end
