(* ===== verification/Wire.thy ===== *)
theory Wire
  imports Handshake Capability
begin

text \<open>
  The boundary between the messages of the wire and the domain
  (\<open>crates/transcodarr-proto/src/convert.rs\<close>, with the messages of \<open>proto/transcodarr/v1/agent.proto\<close>):
  identities, decode verdicts, mounts, the capability document and the replayed commit intents. An
  enumeration arrives as the number the peer sent; a map arrives as its entries in some order. The
  lemmas show that what the domain sends is read back and which numbers are refused.
\<close>

section \<open>Messages\<close>

type_synonym i32 = int

record pb_identity =
  pi_agent_id :: string
  pi_agent_uid :: string
  pi_boot_id :: string
  pi_agent_version :: string
  pi_proto_version :: u32

record pb_decoder_triple =
  pt_codec :: string
  pt_profile :: string
  pt_bit_depth :: u32
  pt_kind :: i32

record pb_decoder_capability =
  pd_triple :: "pb_decoder_triple option"
  pd_status :: i32
  pd_evidence :: string
  pd_probed_at_unix :: u64

record pb_mount =
  pm_local_path :: string
  pm_canonical_prefix :: string
  pm_pool_id :: string
  pm_fstype :: string
  pm_free_bytes :: u64
  pm_total_bytes :: u64
  pm_writable :: bool
  pm_rename_probe :: i32
  pm_same_device :: "(string \<times> bool) list"

record pb_capability =
  pb_platform :: string
  pb_arch :: string
  pb_ffmpeg_version :: string
  pb_ffprobe_version :: string
  pb_nvidia_driver_version :: string
  pb_physical_cores :: u32
  pb_effective_cores :: f64
  pb_classes :: "string list"
  pb_encoders :: "string list"
  pb_decoders :: "pb_decoder_capability list"
  pb_muxers :: "string list"
  pb_mounts :: "pb_mount list"
  pb_workarea_free_bytes :: u64
  pb_capability_hash :: string
  pb_labels :: "(string \<times> string) list"
  pb_transport :: i32
  pb_workarea_path :: string

record pb_live_intent =
  pl_job_id :: string
  pl_attempt :: u32
  pl_fencing_epoch :: u64
  pl_phase :: string
  pl_temp_path :: string
  pl_final_path :: string
  pl_trash_path :: string

section \<open>Identity\<close>

definition identity_to_pb :: "agent_identity \<Rightarrow> pb_identity" where
  "identity_to_pb v = \<lparr> pi_agent_id = ai_agent_id v, pi_agent_uid = ai_agent_uid v, pi_boot_id = ai_boot_id v,
     pi_agent_version = ai_agent_version v, pi_proto_version = ai_proto_version v \<rparr>"

definition identity_from_pb :: "pb_identity \<Rightarrow> proto_error + agent_identity" where
  "identity_from_pb v =
     (if pi_agent_id v = [] then Inl (PE_Missing ''agent_id'')
      else if pi_agent_uid v = [] then Inl (PE_Missing ''agent_uid'')
      else if pi_boot_id v = [] then Inl (PE_Missing ''boot_id'')
      else Inr \<lparr> ai_agent_id = pi_agent_id v, ai_agent_uid = pi_agent_uid v, ai_boot_id = pi_boot_id v,
                 ai_agent_version = pi_agent_version v, ai_proto_version = pi_proto_version v \<rparr>)"

section \<open>Decode verdicts\<close>

definition decoder_kind_from_pb :: "i32 \<Rightarrow> proto_error + decoder_kind" where
  "decoder_kind_from_pb v =
     (if v = 0 then Inr Software else if v = 1 then Inr Nvdec else if v = 2 then Inr Qsv
      else if v = 3 then Inr Vaapi else if v = 4 then Inr Videotoolbox
      else Inl (PE_Unrecognised ''decoder_kind'' (show_int v)))"

fun decoder_kind_to_pb :: "decoder_kind \<Rightarrow> proto_error + i32" where
  "decoder_kind_to_pb Software = Inr 0"
| "decoder_kind_to_pb Nvdec = Inr 1"
| "decoder_kind_to_pb Qsv = Inr 2"
| "decoder_kind_to_pb Vaapi = Inr 3"
| "decoder_kind_to_pb Videotoolbox = Inr 4"

definition decoder_status_from_pb :: "i32 \<Rightarrow> proto_error + decoder_status" where
  "decoder_status_from_pb v =
     (if v = 0 then Inr Untested else if v = 1 then Inr VerifiedOk else if v = 2 then Inr VerifiedSoftFallback
      else if v = 3 then Inr VerifiedFail
      else Inl (PE_Unrecognised ''decoder_status'' (show_int v)))"

fun decoder_status_to_pb :: "decoder_status \<Rightarrow> proto_error + i32" where
  "decoder_status_to_pb Untested = Inr 0"
| "decoder_status_to_pb VerifiedOk = Inr 1"
| "decoder_status_to_pb VerifiedSoftFallback = Inr 2"
| "decoder_status_to_pb VerifiedFail = Inr 3"

definition triple_from_pb :: "pb_decoder_triple \<Rightarrow> proto_error + decoder_triple" where
  "triple_from_pb v =
     (let bad = PE_Unrecognised ''bit_depth'' (show_word (pt_bit_depth v))
      in if 256 \<le> unat (pt_bit_depth v) then Inl bad
         else case from_bits (ucast (pt_bit_depth v)) of
           None \<Rightarrow> Inl bad
         | Some d \<Rightarrow> bindR (decoder_kind_from_pb (pt_kind v)) (\<lambda>k.
             Inr \<lparr> dt_codec = pt_codec v, dt_profile = pt_profile v, dt_bit_depth = d, dt_kind = k \<rparr>))"

definition triple_to_pb :: "decoder_triple \<Rightarrow> proto_error + pb_decoder_triple" where
  "triple_to_pb v = bindR (decoder_kind_to_pb (dt_kind v)) (\<lambda>k.
     Inr \<lparr> pt_codec = dt_codec v, pt_profile = dt_profile v, pt_bit_depth = ucast (bits (dt_bit_depth v)), pt_kind = k \<rparr>)"

definition decoder_from_pb :: "pb_decoder_capability \<Rightarrow> proto_error + decoder_capability" where
  "decoder_from_pb v =
     bindR (case pd_triple v of None \<Rightarrow> Inl (PE_Missing ''decoder_capability.triple'') | Some t \<Rightarrow> triple_from_pb t) (\<lambda>t.
     bindR (decoder_status_from_pb (pd_status v)) (\<lambda>s.
       Inr \<lparr> dc_triple = t, dc_status = s, dc_evidence = pd_evidence v \<rparr>))"

definition decoder_to_pb :: "decoder_capability \<Rightarrow> proto_error + pb_decoder_capability" where
  "decoder_to_pb v =
     bindR (triple_to_pb (dc_triple v)) (\<lambda>t. bindR (decoder_status_to_pb (dc_status v)) (\<lambda>s.
       Inr \<lparr> pd_triple = Some t, pd_status = s, pd_evidence = dc_evidence v, pd_probed_at_unix = 0 \<rparr>))"

section \<open>Mounts\<close>

definition mount_from_pb :: "pb_mount \<Rightarrow> mount" where
  "mount_from_pb v = \<lparr> mo_canonical_prefix = pm_canonical_prefix v, mo_local_path = pm_local_path v,
     mo_writable = pm_writable v \<rparr>"

definition mount_to_pb :: "mount \<Rightarrow> pb_mount" where
  "mount_to_pb v = \<lparr> pm_local_path = mo_local_path v, pm_canonical_prefix = mo_canonical_prefix v, pm_pool_id = [],
     pm_fstype = [], pm_free_bytes = 0, pm_total_bytes = 0, pm_writable = mo_writable v, pm_rename_probe = 0,
     pm_same_device = [] \<rparr>"

section \<open>Vocabularies\<close>

definition agent_class_from_str :: "string \<Rightarrow> proto_error + agent_class" where
  "agent_class_from_str s =
     (if s = ''cpu'' then Inr AC_Cpu else if s = ''gpu'' then Inr AC_Gpu else if s = ''audio'' then Inr AC_Audio
      else Inl (PE_Unrecognised ''classes'' s))"

fun agent_class_to_str :: "agent_class \<Rightarrow> proto_error + string" where
  "agent_class_to_str AC_Cpu = Inr ''cpu''"
| "agent_class_to_str AC_Gpu = Inr ''gpu''"
| "agent_class_to_str AC_Audio = Inr ''audio''"

definition encoder_from_str :: "string \<Rightarrow> proto_error + encoder_id" where
  "encoder_from_str s =
     (if s = ''hevc_nvenc'' then Inr HevcNvenc else if s = ''libx265'' then Inr Libx265
      else if s = ''libx264'' then Inr Libx264 else if s = ''eac3'' then Inr Eac3 else if s = ''ac3'' then Inr Ac3
      else if s = ''aac'' then Inr Aac else if s = ''copy'' then Inr Copy
      else Inl (PE_Unrecognised ''encoders'' s))"

definition container_from_str :: "string \<Rightarrow> proto_error + container_id" where
  "container_from_str s =
     (if s = ''matroska'' then Inr Matroska else if s = ''mp4'' then Inr Mp4
      else Inl (PE_Unrecognised ''muxers'' s))"

fun container_to_str :: "container_id \<Rightarrow> proto_error + string" where
  "container_to_str Matroska = Inr ''matroska''"
| "container_to_str Mp4 = Inr ''mp4''"

definition platform_from_str :: "string \<Rightarrow> proto_error + platform" where
  "platform_from_str s =
     (if s = ''linux'' then Inr Linux else if s = ''windows'' then Inr Windows
      else Inl (PE_Unrecognised ''platform'' s))"

fun platform_to_str :: "platform \<Rightarrow> proto_error + string" where
  "platform_to_str Linux = Inr ''linux''"
| "platform_to_str Windows = Inr ''windows''"

section \<open>Capability document\<close>

text \<open>\<open>map(f).collect()\<close> over results: the first error, or every value.\<close>

fun traverse :: "('a \<Rightarrow> 'e + 'b) \<Rightarrow> 'a list \<Rightarrow> 'e + 'b list" where
  "traverse f [] = Inr []"
| "traverse f (x # xs) = bindR (f x) (\<lambda>y. bindR (traverse f xs) (\<lambda>ys. Inr (y # ys)))"

text \<open>\<open>filter_map(|x| f(x).ok())\<close>.\<close>

fun keep_ok :: "('a \<Rightarrow> 'e + 'b) \<Rightarrow> 'a list \<Rightarrow> 'b list" where
  "keep_ok f [] = []"
| "keep_ok f (x # xs) = (case f x of Inl e \<Rightarrow> keep_ok f xs | Inr y \<Rightarrow> y # keep_ok f xs)"

text \<open>The generated accessor of the transport reads an undeclared number as the zero variant.\<close>

definition transport_of_pb :: "i32 \<Rightarrow> transport_mode" where
  "transport_of_pb v = (if v = 1 then Stream else Mount)"

definition capability_from_pb :: "pb_capability \<Rightarrow> proto_error + capability" where
  "capability_from_pb v =
     bindR (traverse agent_class_from_str (pb_classes v)) (\<lambda>classes.
     bindR (traverse decoder_from_pb (pb_decoders v)) (\<lambda>decoders.
     bindR (if pb_platform v = [] then Inr None
            else bindR (platform_from_str (pb_platform v)) (\<lambda>p. Inr (Some p))) (\<lambda>platform.
       Inr \<lparr> cap_transport = transport_of_pb (pb_transport v), cap_classes = classes,
         cap_encoders = keep_ok encoder_from_str (pb_encoders v),
         cap_muxers = keep_ok container_from_str (pb_muxers v), cap_decoders = decoders,
         cap_effective_cores = pb_effective_cores v, cap_mounts = map mount_from_pb (pb_mounts v),
         cap_platform = platform, cap_workarea_free_bytes = pb_workarea_free_bytes v,
         cap_workarea_path = pb_workarea_path v, cap_labels = pb_labels v \<rparr>)))"

text \<open>Collecting labels into a map keeps the last value of a key.\<close>

definition label_map :: "(string \<times> string) list \<Rightarrow> (string \<times> string) list" where
  "label_map ls = fold (\<lambda>(k, v). AList.update k v) ls []"

definition capability_to_pb :: "(string \<Rightarrow> string) \<Rightarrow> (capability \<Rightarrow> string option) \<Rightarrow> capability \<Rightarrow> proto_error + pb_capability" where
  "capability_to_pb hash to_json v =
     bindR (case cap_platform v of None \<Rightarrow> Inr [] | Some p \<Rightarrow> platform_to_str p) (\<lambda>platform.
     bindR (traverse agent_class_to_str (cap_classes v)) (\<lambda>classes.
     bindR (traverse decoder_to_pb (cap_decoders v)) (\<lambda>decoders.
     bindR (traverse container_to_str (cap_muxers v)) (\<lambda>muxers.
       Inr \<lparr> pb_platform = platform, pb_arch = [], pb_ffmpeg_version = [], pb_ffprobe_version = [],
         pb_nvidia_driver_version = [], pb_physical_cores = 0, pb_effective_cores = cap_effective_cores v,
         pb_classes = classes, pb_encoders = map encoder_as_ffmpeg (cap_encoders v), pb_decoders = decoders,
         pb_muxers = muxers, pb_mounts = map mount_to_pb (cap_mounts v),
         pb_workarea_free_bytes = cap_workarea_free_bytes v,
         pb_capability_hash = capability_hash hash to_json v, pb_labels = label_map (cap_labels v),
         pb_transport = (case cap_transport v of Mount \<Rightarrow> 0 | Stream \<Rightarrow> 1),
         pb_workarea_path = cap_workarea_path v \<rparr>))))"

section \<open>Replayed intents\<close>

definition live_intent_from_pb :: "pb_live_intent \<Rightarrow> proto_error + live_intent" where
  "live_intent_from_pb v =
     (if i64_max < uint (pl_fencing_epoch v)
      then Inl (PE_Unrecognised ''fencing_epoch'' (show_word (pl_fencing_epoch v)))
      else bindR (commit_phase_parse (pl_phase v)) (\<lambda>phase.
        Inr \<lparr> li_job_id = pl_job_id v, li_attempt = uint (pl_attempt v), li_fencing_epoch = uint (pl_fencing_epoch v),
          li_phase = phase, li_temp_path = pl_temp_path v, li_final_path = pl_final_path v,
          li_trash_path = pl_trash_path v \<rparr>))"

definition live_intent_to_pb :: "live_intent \<Rightarrow> proto_error + pb_live_intent" where
  "live_intent_to_pb v =
     (if li_attempt v < 0 \<or> 2 ^ 32 \<le> li_attempt v then Inl (PE_Unrecognised ''attempt'' (show_int (li_attempt v)))
      else if li_fencing_epoch v < 0 \<or> 2 ^ 64 \<le> li_fencing_epoch v
      then Inl (PE_Unrecognised ''fencing_epoch'' (show_int (li_fencing_epoch v)))
      else Inr \<lparr> pl_job_id = li_job_id v, pl_attempt = word_of_int (li_attempt v),
        pl_fencing_epoch = word_of_int (li_fencing_epoch v), pl_phase = commit_phase_as_str (li_phase v),
        pl_temp_path = li_temp_path v, pl_final_path = li_final_path v, pl_trash_path = li_trash_path v \<rparr>)"

section \<open>Lemmas\<close>

lemma decoder_kind_to_pb_total: "\<exists>n. decoder_kind_to_pb k = Inr n \<and> decoder_kind_from_pb n = Inr k"
  by (cases k) (simp_all add: decoder_kind_from_pb_def)

lemma decoder_status_to_pb_total: "\<exists>n. decoder_status_to_pb s = Inr n \<and> decoder_status_from_pb n = Inr s"
  by (cases s) (simp_all add: decoder_status_from_pb_def)

lemma decoder_status_from_pb_Inr:
  "decoder_status_from_pb n = Inr s \<longleftrightarrow> decoder_status_to_pb s = Inr n"
  by (cases s) (auto simp: decoder_status_from_pb_def)

lemma wire_bits: "(ucast (ucast (bits d) :: u32) :: u8) = bits d" "unat (ucast (bits d) :: u32) < 256"
  "from_bits (bits d) = Some d"
  by (cases d; simp add: from_bits_def)+

lemma triple_roundtrip: "\<exists>q. triple_to_pb t = Inr q \<and> triple_from_pb q = Inr t"
proof -
  obtain n where "decoder_kind_to_pb (dt_kind t) = Inr n" "decoder_kind_from_pb n = Inr (dt_kind t)"
    using decoder_kind_to_pb_total by blast
  then show ?thesis using wire_bits[of "dt_bit_depth t"] by (simp add: triple_to_pb_def triple_from_pb_def Let_def)
qed

lemma decoder_roundtrip: "\<exists>q. decoder_to_pb d = Inr q \<and> decoder_from_pb q = Inr d"
proof -
  obtain t where t: "triple_to_pb (dc_triple d) = Inr t" "triple_from_pb t = Inr (dc_triple d)"
    using triple_roundtrip by blast
  obtain n where "decoder_status_to_pb (dc_status d) = Inr n" "decoder_status_from_pb n = Inr (dc_status d)"
    using decoder_status_to_pb_total by blast
  with t show ?thesis by (simp add: decoder_to_pb_def decoder_from_pb_def)
qed

lemma traverse_roundtrip:
  "(\<And>x. \<exists>q. to x = Inr q \<and> frm q = Inr x) \<Longrightarrow> \<exists>qs. traverse to xs = Inr qs \<and> traverse frm qs = Inr xs"
proof (induction xs)
  case (Cons x xs)
  obtain q qs where "to x = Inr q" "frm q = Inr x" "traverse to xs = Inr qs" "traverse frm qs = Inr xs"
    using Cons by blast
  then show ?case by simp
qed simp

lemma traverse_Inr: "traverse f xs = Inr ys \<longleftrightarrow> list_all2 (\<lambda>x y. f x = Inr y) xs ys"
  by (induction xs arbitrary: ys) (auto simp: bindR_Inr_iff list_all2_Cons1)

lemma keep_ok_roundtrip: "(\<And>x. frm (to x) = Inr x) \<Longrightarrow> keep_ok frm (map to xs) = xs"
  by (induction xs) simp_all

lemma agent_class_roundtrip: "\<exists>q. agent_class_to_str c = Inr q \<and> agent_class_from_str q = Inr c"
  by (cases c) (simp_all add: agent_class_from_str_def)

lemma encoder_roundtrip: "encoder_from_str (encoder_as_ffmpeg e) = Inr e"
  by (cases e) (simp_all add: encoder_from_str_def)

lemma container_roundtrip: "\<exists>q. container_to_str c = Inr q \<and> container_from_str q = Inr c"
  by (cases c) (simp_all add: container_from_str_def)

lemma platform_roundtrip: "\<exists>q. platform_to_str p = Inr q \<and> q \<noteq> [] \<and> platform_from_str q = Inr p"
  by (cases p) (simp_all add: platform_from_str_def)

lemma traverse_keep_ok: "traverse frm qs = Inr xs \<Longrightarrow> keep_ok frm qs = xs"
  by (induction qs arbitrary: xs) (auto simp: bindR_Inr_iff)

lemma mount_roundtrip [simp]: "mount_from_pb (mount_to_pb m) = m"
  by (simp add: mount_from_pb_def mount_to_pb_def)

lemma label_map_distinct: "distinct (map fst ls) \<Longrightarrow> label_map ls = ls"
proof -
  have "distinct (map fst (acc @ ls)) \<Longrightarrow> fold (\<lambda>(k, v). AList.update k v) ls acc = acc @ ls" for acc :: "(string \<times> string) list"
  proof (induction ls arbitrary: acc)
    case (Cons l ls)
    then have "map_of acc (fst l) = None" by (auto simp: map_of_eq_None_iff)
    then have "AList.update (fst l) (snd l) acc = acc @ [l]" by (simp add: update_fresh)
    then show ?case using Cons.IH[of "acc @ [l]"] Cons.prems by (simp add: case_prod_unfold)
  qed simp
  from this[of "[]"] show "distinct (map fst ls) \<Longrightarrow> label_map ls = ls" by (simp add: label_map_def)
qed

lemma transport_roundtrip: "transport_of_pb (case t of Mount \<Rightarrow> 0 | Stream \<Rightarrow> 1) = t"
  by (cases t) (simp_all add: transport_of_pb_def)

text \<open>What a document a peer sent became: every verdict it names is the one the peer gave.\<close>

lemma capability_from_pb_Inr:
  assumes "capability_from_pb q = Inr c"
  shows "list_all2 (\<lambda>s a. agent_class_from_str s = Inr a) (pb_classes q) (cap_classes c)"
    and "list_all2 (\<lambda>p d. decoder_from_pb p = Inr d) (pb_decoders q) (cap_decoders c)"
    and "cap_platform c = None \<longleftrightarrow> pb_platform q = []"
  using assms by (auto simp: capability_from_pb_def bindR_Inr_iff traverse_Inr split: if_splits)

lemma decoder_from_pb_status: "decoder_from_pb p = Inr d \<Longrightarrow> satisfies_hardware_requirement (dc_status d) \<longleftrightarrow> pd_status p = 1"
  by (auto simp: decoder_from_pb_def bindR_Inr_iff decoder_status_from_pb_def satisfies_hardware_requirement_def
      split: if_splits)

lemma live_intent_roundtrip:
  assumes "0 \<le> li_attempt i" "li_attempt i < 2 ^ 32" "0 \<le> li_fencing_epoch i" "li_fencing_epoch i \<le> i64_max"
  shows "\<exists>q. live_intent_to_pb i = Inr q \<and> live_intent_from_pb q = Inr i"
  using assms commit_phase_parse_as_str[of "li_phase i"]
  by (auto simp: live_intent_to_pb_def live_intent_from_pb_def i64_max_def uint_word_of_int mod_pos_pos_trivial)

section \<open>Properties\<close>

text \<open>
  C23. The wire keeps a capability document: every document an agent can hold has a message, and the
  server reads that message back as the same document, its labels in whatever order the map
  yields them, up to labels of the same key. Nothing a peer sends becomes more than it said: in any message
  that is read, a decoder counts as hardware exactly when its verdict is the number of a verified
  success, as many decoders come out as went in, and a class that is not one of the three, or an
  undeclared verdict, refuses the message.
\<close>

theorem capability_crosses_the_wire:
  shows "(\<exists>p. capability_to_pb hash to_json c = Inr p
            \<and> (\<forall>ls. capability_from_pb (p\<lparr> pb_labels := ls \<rparr>) = Inr (c\<lparr> cap_labels := ls \<rparr>))
            \<and> (distinct (map fst (cap_labels c)) \<longrightarrow> pb_labels p = cap_labels c))
       \<and> (\<forall>q c'. capability_from_pb q = Inr c' \<longrightarrow>
            list_all2 (\<lambda>p d. satisfies_hardware_requirement (dc_status d) \<longleftrightarrow> pd_status p = 1) (pb_decoders q) (cap_decoders c'))
       \<and> (\<forall>q. (\<exists>s \<in> set (pb_classes q). s \<notin> {''cpu'', ''gpu'', ''audio''}) \<or> (\<exists>d \<in> set (pb_decoders q). pd_status d \<notin> {0, 1, 2, 3})
            \<longrightarrow> (\<exists>e. capability_from_pb q = Inl e))"
proof (intro conjI allI impI)
  obtain pl where pl: "(case cap_platform c of None \<Rightarrow> Inr [] | Some p \<Rightarrow> platform_to_str p) = Inr pl"
      "(if pl = [] then Inr None else bindR (platform_from_str pl) (\<lambda>p. Inr (Some p))) = Inr (cap_platform c)"
  proof (cases "cap_platform c")
    case None then show ?thesis using that by simp
  next
    case (Some p) then show ?thesis using platform_roundtrip[of p] that by auto
  qed
  obtain cs ds ms where r: "traverse agent_class_to_str (cap_classes c) = Inr cs" "traverse agent_class_from_str cs = Inr (cap_classes c)"
      "traverse decoder_to_pb (cap_decoders c) = Inr ds" "traverse decoder_from_pb ds = Inr (cap_decoders c)"
      "traverse container_to_str (cap_muxers c) = Inr ms" "traverse container_from_str ms = Inr (cap_muxers c)"
    using traverse_roundtrip[of agent_class_to_str agent_class_from_str, OF agent_class_roundtrip]
      traverse_roundtrip[of decoder_to_pb decoder_from_pb, OF decoder_roundtrip]
      traverse_roundtrip[of container_to_str container_from_str, OF container_roundtrip] by metis
  show "\<exists>p. capability_to_pb hash to_json c = Inr p
            \<and> (\<forall>ls. capability_from_pb (p\<lparr> pb_labels := ls \<rparr>) = Inr (c\<lparr> cap_labels := ls \<rparr>))
            \<and> (distinct (map fst (cap_labels c)) \<longrightarrow> pb_labels p = cap_labels c)"
    using pl(2)
    by (cases "pl = []"; cases "platform_from_str pl")
      (auto intro!: capability.equality simp: capability_to_pb_def pl(1) r capability_from_pb_def traverse_keep_ok[OF r(6)] label_map_distinct
        keep_ok_roundtrip[of encoder_from_str encoder_as_ffmpeg, OF encoder_roundtrip] transport_roundtrip o_def)
next
  fix q :: pb_capability and c' assume "capability_from_pb q = Inr c'"
  from capability_from_pb_Inr(2)[OF this] show "list_all2 (\<lambda>p d. satisfies_hardware_requirement (dc_status d) \<longleftrightarrow> pd_status p = 1)
      (pb_decoders q) (cap_decoders c')"
    by (rule list_all2_mono) (rule decoder_from_pb_status)
next
  fix q :: pb_capability
  assume bad: "(\<exists>s \<in> set (pb_classes q). s \<notin> {''cpu'', ''gpu'', ''audio''}) \<or> (\<exists>d \<in> set (pb_decoders q). pd_status d \<notin> {0, 1, 2, 3})"
  show "\<exists>e. capability_from_pb q = Inl e"
  proof (cases "capability_from_pb q")
    case (Inr c')
    have "s \<in> {''cpu'', ''gpu'', ''audio''}" if "s \<in> set (pb_classes q)" for s
      using that capability_from_pb_Inr(1)[OF Inr]
      by (auto simp: in_set_conv_nth list_all2_conv_all_nth agent_class_from_str_def split: if_splits)
    moreover have "pd_status d \<in> {0, 1, 2, 3}" if "d \<in> set (pb_decoders q)" for d
      using that capability_from_pb_Inr(2)[OF Inr]
      by (auto simp: in_set_conv_nth list_all2_conv_all_nth decoder_from_pb_def bindR_Inr_iff decoder_status_from_pb_def split: if_splits)
    ultimately show ?thesis using bad by blast
  qed simp
qed

definition sample_document :: pb_capability where
  "sample_document = \<lparr> pb_platform = ''linux'', pb_arch = [], pb_ffmpeg_version = ''7.0'', pb_ffprobe_version = [],
     pb_nvidia_driver_version = [], pb_physical_cores = 8, pb_effective_cores = 4, pb_classes = [''cpu''],
     pb_encoders = [''libx265'', ''libvvenc''], pb_decoders = [\<lparr> pd_triple = Some \<lparr> pt_codec = ''h264'', pt_profile = [],
       pt_bit_depth = 10, pt_kind = 1 \<rparr>, pd_status = 2, pd_evidence = [], pd_probed_at_unix = 0 \<rparr>],
     pb_muxers = [''matroska''], pb_mounts = [], pb_workarea_free_bytes = 0, pb_capability_hash = [],
     pb_labels = [(''rack'', ''1'')], pb_transport = 1, pb_workarea_path = ''/w'' \<rparr>"

lemma capability_crosses_the_wire_witness:
  "(\<exists>p. capability_to_pb id (\<lambda>c. None) default_capability = Inr p \<and> pb_labels p = [])
   \<and> (\<exists>c. capability_from_pb sample_document = Inr c \<and> \<not> satisfies_hardware_requirement (dc_status (hd (cap_decoders c))))
   \<and> (\<exists>e. capability_from_pb (sample_document\<lparr> pb_classes := [''tpu''] \<rparr>) = Inl e)"
proof (intro conjI)
  show "\<exists>p. capability_to_pb id (\<lambda>c. None) default_capability = Inr p \<and> pb_labels p = []"
    using capability_crosses_the_wire[of id "\<lambda>c. None" default_capability, THEN conjunct1]
    by (auto simp: default_capability_def)
  have "\<exists>c. capability_from_pb sample_document = Inr c \<and> cap_decoders c \<noteq> []"
    by (simp add: sample_document_def capability_from_pb_def agent_class_from_str_def decoder_from_pb_def triple_from_pb_def
        from_bits_def decoder_kind_from_pb_def decoder_status_from_pb_def platform_from_str_def)
  then obtain c where c: "capability_from_pb sample_document = Inr c" "cap_decoders c \<noteq> []" by blast
  have "\<not> satisfies_hardware_requirement (dc_status (hd (cap_decoders c)))"
    using capability_crosses_the_wire[THEN conjunct2, THEN conjunct1, rule_format, OF c(1)]
    by (auto simp: sample_document_def list_all2_Cons1)
  then show "\<exists>c. capability_from_pb sample_document = Inr c \<and> \<not> satisfies_hardware_requirement (dc_status (hd (cap_decoders c)))"
    using c(1) by blast
  show "\<exists>e. capability_from_pb (sample_document\<lparr> pb_classes := [''tpu''] \<rparr>) = Inl e"
    by (rule capability_crosses_the_wire[THEN conjunct2, THEN conjunct2, rule_format]) (simp add: sample_document_def)
qed

end
