(* ===== verification/Session.thy ===== *)
theory Session
  imports Server_Base Wire Hardening "HOL-Library.Word"
begin

unbundle bit_operations_syntax

text \<open>
  The server's side of the agent stream (\<open>crates/transcodarr-server/src/session.rs\<close>): registration,
  the opening and the life of a stream, and the handler of each message an agent sends. A handler runs
  over the shared server, so the others may write between any two of its accesses; the serialisers and
  the reader of a validation report are arguments.
\<close>

section \<open>Messages\<close>

record register_request =
  rq_identity :: "pb_identity option"
  rq_capability :: "pb_capability option"
  rq_auth_token :: string
  rq_live_intents :: "pb_live_intent list"

record register_response =
  rr_accepted :: bool
  rr_reject_reason :: string
  rr_server_proto_version :: u32
  rr_min_supported_proto :: u32
  rr_min_agent_version :: string
  rr_server_version :: string
  rr_fencing_epoch :: u64
  rr_unknown_job_ids :: "string list"

record heartbeat =
  hb_at_unix_ms :: u64
  hb_running_job_ids :: "string list"
  hb_mounts :: "pb_mount list"
  hb_load_average :: f64

record job_result =
  jx_job_id :: string
  jx_attempt :: u32
  jx_exit_code :: i32
  jx_signal :: i32
  jx_stderr_tail :: string
  jx_validation_json :: string
  jx_output_bytes :: u64

record pb_commit_request =
  pc_job_id :: string
  pc_attempt :: u32
  pc_fencing_epoch :: u64

record commit_report =
  rp_job_id :: string
  rp_attempt :: u32
  rp_fencing_epoch :: u64
  rp_resolution :: string
  rp_detail :: string

datatype agent_message =
    AM_Heartbeat heartbeat
  | AM_Progress
  | AM_Result job_result
  | AM_CommitRequest pb_commit_request
  | AM_CommitReport commit_report
  | AM_DrainAck "string list"

section \<open>Configuration\<close>

definition lease_seconds :: i64 where
  "lease_seconds = 45"

definition server_version :: string where
  "server_version = ''0.1.0''"

definition held_states :: "job_state list" where
  "held_states = [Assigned, Running, Verifying, Committing]"

record session =
  ss_gate :: version_gate
  ss_auth_token :: "string option"

text \<open>Code not under the repository: the digest, the serialiser, and the reader of a report.\<close>

record codecs =
  cx_hash :: "string \<Rightarrow> string"
  cx_capability_json :: "capability \<Rightarrow> string option"
  cx_classes_json :: "agent_class list \<Rightarrow> string option"
  cx_mounts_json :: "mount list \<Rightarrow> string option"
  cx_passed :: "string \<Rightarrow> bool option"

definition internal :: "surroundings \<Rightarrow> string \<Rightarrow> store_error \<Rightarrow> rpc_status" where
  "internal su what e = Status SC_Internal (what @ su_render su e)"

text \<open>A read or a write whose error ends the call.\<close>

type_synonym ('b, 'a) call = "('b, rpc_status, 'a) process"

type_synonym 'a handler = "(unit, 'a) call"

definition read_or :: "surroundings \<Rightarrow> string \<Rightarrow> (database \<Rightarrow> store_error + 'a) \<Rightarrow> ('b, 'a) call" where
  "read_or su what f = bindH (read_db su f) (\<lambda>r. case r of Inl e \<Rightarrow> failH (internal su what e) | Inr a \<Rightarrow> retH a)"

definition session_write :: "surroundings \<Rightarrow> write_op \<Rightarrow> ('b, (rpc_status + unit)) call" where
  "session_write su op = bindH (submit su op) (\<lambda>r. case r of
     Inl e \<Rightarrow> retH (Inl (internal su ''write failed: '' e)) | Inr a \<Rightarrow> retH (Inr ()))"

definition write_or :: "surroundings \<Rightarrow> write_op \<Rightarrow> ('b, unit) call" where
  "write_or su op = bindH (session_write su op) tryH"

section \<open>Checks\<close>

definition refuse :: "string \<Rightarrow> register_response" where
  "refuse reason = \<lparr> rr_accepted = False, rr_reject_reason = reason, rr_server_proto_version = proto_version,
     rr_min_supported_proto = min_supported_proto, rr_min_agent_version = [], rr_server_version = server_version,
     rr_fencing_epoch = 0, rr_unknown_job_ids = [] \<rparr>"

definition token_ok :: "session \<Rightarrow> string \<Rightarrow> bool" where
  "token_ok ss presented = (case ss_auth_token ss of
     None \<Rightarrow> True
   | Some expected \<Rightarrow>
       if length expected \<noteq> length presented then False
       else fold (\<lambda>(a, b) acc. acc OR (of_char a XOR of_char b)) (zip expected presented) (0 :: u8) = 0)"

definition commit_eligible :: "transport_mode \<Rightarrow> pb_mount list \<Rightarrow> bool" where
  "commit_eligible transport mounts \<longleftrightarrow>
     transport = Stream \<or> mounts \<noteq> [] \<and> list_all (\<lambda>m. pm_rename_probe m = 1) mounts"

fun unknown_intents :: "surroundings \<Rightarrow> pb_live_intent list \<Rightarrow> ('b, string list) call" where
  "unknown_intents su [] = retH []"
| "unknown_intents su (i # is) =
     bindH (read_or su ''commit ledger unreadable: '' (\<lambda>db. Inr (live_for_job (pl_job_id i) db))) (\<lambda>known.
     bindH (read_or su ''commit ledger unreadable: '' (\<lambda>db. Inr (live_for_path (pl_final_path i) db))) (\<lambda>live.
     bindH (unknown_intents su is) (\<lambda>rest.
       retH (if known = None \<and> live = None then pl_job_id i # rest else rest))))"

text \<open>\<open>i64::try_from(u64)\<close> and \<open>u64::try_from(i64)\<close>.\<close>

definition i64_of_u64 :: "u64 \<Rightarrow> i64 option" where
  "i64_of_u64 w = (if uint w \<le> i64_max then Some (uint w) else None)"

definition u64_of_i64 :: "i64 \<Rightarrow> u64 option" where
  "u64_of_i64 i = (if 0 \<le> i then Some (word_of_int i) else None)"

definition validation_passed :: "codecs \<Rightarrow> string \<Rightarrow> bool" where
  "validation_passed cx json = or_default False (cx_passed cx json)"

definition resolution_code :: "string \<Rightarrow> string" where
  "resolution_code r = (if r = ''installed'' then ''installed'' else if r = ''source_intact'' then ''not_installed''
     else if r = ''source_restored'' then ''restored'' else if r = ''needs_operator'' then ''ambiguous_commit''
     else ''unknown_resolution'')"

definition outcome_of :: "string \<Rightarrow> job_state \<times> string" where
  "outcome_of r = ((if r = ''installed'' then Succeeded else if r = ''needs_operator'' then NeedsOperator else Failed),
     resolution_code r)"

text \<open>The last 500 characters; a character starts at every byte that does not continue one.\<close>

definition continues :: "char \<Rightarrow> bool" where
  "continues c \<longleftrightarrow> 128 \<le> (of_char c :: nat) \<and> (of_char c :: nat) < 192"

fun skip_chars :: "nat \<Rightarrow> string \<Rightarrow> string" where
  "skip_chars 0 s = s"
| "skip_chars (Suc n) [] = []"
| "skip_chars (Suc n) (c # cs) = skip_chars n (dropWhile continues cs)"

definition tail :: "string \<Rightarrow> string" where
  "tail s = (if length s \<le> 500 then s
             else skip_chars (length (filter (\<lambda>c. \<not> continues c) s) - 500) s)"

text \<open>\<open>s.parse::<i64>()\<close>.\<close>

definition parse_i64 :: "string \<Rightarrow> i64 option" where
  "parse_i64 s = (case s of
     c # ds \<Rightarrow> if c = CHR ''-''
       then (if ds = [] then None else case parse_digits 0 ds of
               None \<Rightarrow> None | Some n \<Rightarrow> if n \<le> 2 ^ 63 then Some (- int n) else None)
       else map_option int (parse_unsigned (2 ^ 63) s)
   | [] \<Rightarrow> None)"

text \<open>The metadata of a request: a key's value, when it has one that is text.\<close>

definition stream_identity :: "(string \<Rightarrow> string option) \<Rightarrow> rpc_status + string \<times> i64" where
  "stream_identity md = (case md ''x-agent-id'' of
     None \<Rightarrow> Inl (Status SC_Unauthenticated ''x-agent-id is required'')
   | Some a \<Rightarrow>
       if a = [] then Inl (Status SC_Unauthenticated ''x-agent-id is required'')
       else (case Option.bind (md ''x-agent-epoch'') parse_i64 of
               None \<Rightarrow> Inl (Status SC_Unauthenticated ''x-agent-epoch must be an integer'')
             | Some e \<Rightarrow> Inr (a, e)))"

section \<open>Registration\<close>

definition some_text :: "string \<Rightarrow> string option" where
  "some_text s = (if s = [] then None else Some s)"

text \<open>What the gate is asked about: a reinstall keeps the epoch but no boot id.\<close>

definition known_to_gate :: "agent_identity \<Rightarrow> known_instance option \<Rightarrow> string option \<times> i64" where
  "known_to_gate ident known = (case known of
     Some k \<Rightarrow> if ki_agent_uid k = ai_agent_uid ident then (ki_boot_id k, ki_fencing_epoch k)
               else (None, ki_fencing_epoch k)
   | None \<Rightarrow> (None, 0))"

definition registration_of :: "agent_identity \<Rightarrow> pb_capability \<Rightarrow> capability \<Rightarrow> string \<Rightarrow> string \<Rightarrow> string \<Rightarrow> string
    \<Rightarrow> i64 \<Rightarrow> registration" where
  "registration_of ident wire cap hash capability_json classes_json mounts_json epoch =
     \<lparr> rg_id = ai_agent_id ident, rg_agent_uid = ai_agent_uid ident, rg_boot_id = ai_boot_id ident, rg_hostname = None,
       rg_platform = (if capability_json \<noteq> [] then map_option debug_platform (cap_platform cap) else None),
       rg_arch = None, rg_agent_version = ai_agent_version ident, rg_proto_version = uint (ai_proto_version ident),
       rg_ffmpeg_version = some_text (pb_ffmpeg_version wire), rg_ffprobe_version = some_text (pb_ffprobe_version wire),
       rg_driver_version = some_text (pb_nvidia_driver_version wire), rg_classes_json = classes_json,
       rg_capability_json = capability_json, rg_capability_hash = hash, rg_effective_cores = cap_effective_cores cap,
       rg_physical_cores = (if 0 < uint (pb_physical_cores wire) then Some (uint (pb_physical_cores wire)) else None),
       rg_mounts_json = mounts_json,
       rg_rename_probe_status = (if commit_eligible Mount (pb_mounts wire) then ''ok'' else ''untested''),
       rg_commit_eligible = commit_eligible (cap_transport cap) (pb_mounts wire), rg_fencing_epoch = epoch \<rparr>"

definition or_status :: "status_code \<Rightarrow> string \<Rightarrow> 'a option \<Rightarrow> rpc_status + 'a" where
  "or_status code msg x = (case x of None \<Rightarrow> Inl (Status code msg) | Some a \<Rightarrow> Inr a)"

definition proto_or :: "string \<Rightarrow> proto_error + 'a \<Rightarrow> rpc_status + 'a" where
  "proto_or what r = (case r of Inl e \<Rightarrow> Inl (Status SC_InvalidArgument (what @ show_proto_error e)) | Inr a \<Rightarrow> Inr a)"

definition accept_response :: "i64 \<Rightarrow> string list \<Rightarrow> register_response" where
  "accept_response epoch unknown = \<lparr> rr_accepted = True, rr_reject_reason = [], rr_server_proto_version = proto_version,
     rr_min_supported_proto = min_supported_proto, rr_min_agent_version = [], rr_server_version = server_version,
     rr_fencing_epoch = or_default 0 (u64_of_i64 epoch), rr_unknown_job_ids = unknown \<rparr>"

text \<open>After the gate: the capability document, the row, its history, the first heartbeat.\<close>

definition admit :: "surroundings \<Rightarrow> codecs \<Rightarrow> register_request \<Rightarrow> agent_identity \<Rightarrow> known_instance option \<Rightarrow> i64
    \<Rightarrow> register_response handler" where
  "admit su cx req ident known epoch =
     bindH (tryH (or_status SC_InvalidArgument ''capability is required'' (rq_capability req))) (\<lambda>wire.
     bindH (tryH (proto_or ''capability: '' (capability_from_pb wire))) (\<lambda>cap.
     let hash = capability_hash (cx_hash cx) (cx_capability_json cx) cap in
     bindH (tryH (or_status SC_Internal ''capability not serialisable'' (cx_capability_json cx cap))) (\<lambda>capability_json.
     bindH (tryH (or_status SC_Internal ''classes not serialisable'' (cx_classes_json cx (cap_classes cap)))) (\<lambda>classes_json.
     bindH (tryH (or_status SC_Internal ''mounts not serialisable'' (cx_mounts_json cx (cap_mounts cap)))) (\<lambda>mounts_json.
     bindH (if known = None then retH False
            else bindH (read_or su ''agent registry unreadable: '' (\<lambda>db. Inr (get_agent (ai_agent_id ident) db)))
                   (\<lambda>a. retH (case Option.bind a ar_capability_hash of None \<Rightarrow> True | Some h \<Rightarrow> h \<noteq> hash))) (\<lambda>hash_changed.
     thenH (write_or su (register_op (registration_of ident wire cap hash capability_json classes_json mounts_json epoch)))
     (thenH (if hash_changed
             then write_or su (record_capability_op (ai_agent_id ident) hash capability_json (Some (ai_agent_version ident))
                    (some_text (pb_ffmpeg_version wire)) (some_text (pb_nvidia_driver_version wire)) ''capability hash changed'')
             else retH ())
     (thenH (write_or su (heartbeat_op (ai_agent_id ident) lease_seconds))
     (bindH (unknown_intents su (rq_live_intents req)) (\<lambda>unknown. retH (accept_response epoch unknown)))))))))))"

definition register :: "surroundings \<Rightarrow> codecs \<Rightarrow> session \<Rightarrow> register_request \<Rightarrow> register_response handler" where
  "register su cx ss req =
     (if \<not> token_ok ss (rq_auth_token req) then retH (refuse ''authentication failed'')
      else bindH (tryH (or_status SC_InvalidArgument ''identity is required'' (rq_identity req))) (\<lambda>pb.
      bindH (tryH (proto_or ''identity: '' (identity_from_pb pb))) (\<lambda>ident.
      bindH (read_or su ''agent registry unreadable: '' (\<lambda>db. Inr (instance_of (ai_agent_id ident) db))) (\<lambda>known.
      case known_to_gate ident known of (known_boot_id, current_epoch) \<Rightarrow>
        (case gate_evaluate (ss_gate ss) ident known_boot_id current_epoch of
           RO_Rejected reason \<Rightarrow> retH (refuse reason)
         | RO_Accepted epoch new_instance \<Rightarrow> admit su cx req ident known epoch)))))"

section \<open>The stream\<close>

definition require_current_epoch :: "surroundings \<Rightarrow> string \<Rightarrow> i64 \<Rightarrow> unit handler" where
  "require_current_epoch su agent_id claimed =
     bindH (read_or su ''agent registry unreadable: '' (\<lambda>db. Inr (get_agent agent_id db))) (\<lambda>found.
     bindH (tryH (or_status SC_Unauthenticated ''register before streaming'' found)) (\<lambda>agent.
     if ar_status agent = ''Quarantined'' then failH (Status SC_PermissionDenied ''agent is quarantined'')
     else if claimed \<noteq> ar_fencing_epoch agent
     then failH (Status SC_Unauthenticated (''epoch '' @ show_int claimed @ '' is not current (''
            @ show_int (ar_fencing_epoch agent) @ ''); register again''))
     else retH ()))"

text \<open>Opening a stream: the agent, its epoch, and the channel it will read.\<close>

definition connect :: "surroundings \<Rightarrow> (string \<Rightarrow> string option) \<Rightarrow> (string \<times> i64 \<times> nat) handler" where
  "connect su md =
     bindH (tryH (stream_identity md)) (\<lambda>(agent_id, claimed).
     bindH (read_or su ''agent registry unreadable: '' (\<lambda>db. Inr (get_agent agent_id db))) (\<lambda>found.
     bindH (tryH (or_status SC_Unauthenticated ''register before connecting'' found)) (\<lambda>agent.
     if ar_status agent = ''Quarantined'' then failH (Status SC_PermissionDenied ''agent is quarantined'')
     else if claimed \<noteq> ar_fencing_epoch agent
     then failH (Status SC_Unauthenticated (''epoch '' @ show_int claimed @ '' is not current (''
            @ show_int (ar_fencing_epoch agent) @ ''); register again''))
     else bindH (on_fleet su (fleet_connect agent_id (ar_fencing_epoch agent))) (\<lambda>rx.
       thenH (write_or su (set_status_op agent_id ''Online'')) (retH (agent_id, ar_fencing_epoch agent, rx))))))"

definition recognised :: "string \<Rightarrow> i64 \<Rightarrow> job_record \<Rightarrow> bool" where
  "recognised agent_id epoch job \<longleftrightarrow> jr_agent_id job = Some agent_id \<and> jr_fencing_epoch job = epoch
     \<and> jr_state job \<in> set held_states"

text \<open>A job that is looked up: a missing one is an answer, any other error ends the call.\<close>

definition look_up_job :: "surroundings \<Rightarrow> string \<Rightarrow> ('b, job_record option) call" where
  "look_up_job su i = bindH (read_db su (get_job i)) (\<lambda>r. case r of
     Inr job \<Rightarrow> retH (Some job)
   | Inl (SE_NotFound k x) \<Rightarrow> retH None
   | Inl e \<Rightarrow> failH (internal su ''job lookup failed: '' e))"

definition revoke_message :: "string \<Rightarrow> server_message" where
  "revoke_message i = SM_Revoke i ''the server has no record of this job on this agent''"

fun revoke_unrecognised :: "surroundings \<Rightarrow> string \<Rightarrow> i64 \<Rightarrow> string list \<Rightarrow> unit handler" where
  "revoke_unrecognised su agent_id epoch [] = retH ()"
| "revoke_unrecognised su agent_id epoch (i # is) =
     bindH (look_up_job su i) (\<lambda>job.
     thenH (if (case job of None \<Rightarrow> False | Some j \<Rightarrow> recognised agent_id epoch j) then retH ()
            else bindH (on_fleet su (fleet_send agent_id (revoke_message i))) (\<lambda>sent. retH ()))
       (revoke_unrecognised su agent_id epoch is))"

definition on_heartbeat :: "surroundings \<Rightarrow> string \<Rightarrow> i64 \<Rightarrow> heartbeat \<Rightarrow> unit handler" where
  "on_heartbeat su agent_id epoch hb =
     thenH (on_fleet su (\<lambda>fl. ((), fleet_set_running agent_id (hb_running_job_ids hb) fl)))
     (thenH (write_or su (heartbeat_op agent_id lease_seconds))
       (revoke_unrecognised su agent_id epoch (hb_running_job_ids hb)))"

section \<open>Results\<close>

definition release_intent :: "surroundings \<Rightarrow> string \<Rightarrow> i64 \<Rightarrow> unit handler" where
  "release_intent su i attempt =
     bindH (session_write su (resolve_op (i @ '':'' @ show_int attempt) ''abandoned'')) (\<lambda>r. retH ())"

definition move :: "surroundings \<Rightarrow> string \<Rightarrow> job_state \<Rightarrow> job_state \<Rightarrow> string option \<Rightarrow> string option \<Rightarrow> unit handler" where
  "move su i from to reason detail = write_or su (transition_op i from to reason detail)"

text \<open>Where a rejected attempt goes, once it has been recorded as retrying.\<close>

definition after_rejection :: "surroundings \<Rightarrow> string \<Rightarrow> job_record \<Rightarrow> unit handler" where
  "after_rejection su i job = (case decide_retry Transient (jr_attempt job) (jr_max_attempts job) of
     RD_RetryAfter seconds attempt \<Rightarrow>
       thenH (write_or su (bump_attempt_op i)) (move su i Retrying Eligible None None)
   | RD_DeadLetter reason \<Rightarrow> move su i Retrying DeadLettered (Some ''attempts_exhausted'') None
   | RD_Permanent reason \<Rightarrow> move su i Retrying Failed (Some ''permanent'') None)"

definition on_result :: "surroundings \<Rightarrow> codecs \<Rightarrow> string \<Rightarrow> i64 \<Rightarrow> job_result \<Rightarrow> unit handler" where
  "on_result su cx agent_id epoch r =
     bindH (look_up_job su (jx_job_id r)) (\<lambda>found. case found of
       None \<Rightarrow> retH ()
     | Some job \<Rightarrow>
         if jr_agent_id job \<noteq> Some agent_id \<or> jr_fencing_epoch job \<noteq> epoch then retH ()
         else
           thenH (if jr_state job = Assigned then move su (jx_job_id r) Assigned Running None None else retH ())
           (if jx_exit_code r = 0 \<and> validation_passed cx (jx_validation_json r)
            then move su (jx_job_id r) Running Verifying None None
            else thenH (release_intent su (jx_job_id r) (jr_attempt job))
              (thenH (move su (jx_job_id r) Running Retrying (Some ''validation_failed'') (Some (tail (jx_stderr_tail r))))
                (after_rejection su (jx_job_id r) job))))"

section \<open>Commits\<close>

text \<open>The answer: whether, why not, and where the original goes.\<close>

definition judge_commit :: "surroundings \<Rightarrow> string \<Rightarrow> i64 \<Rightarrow> pb_commit_request \<Rightarrow> (bool \<times> string \<times> string) handler" where
  "judge_commit su agent_id epoch req =
     (if or_default (- 1) (i64_of_u64 (pc_fencing_epoch req)) \<noteq> epoch
      then retH (False, ''epoch '' @ show_word (pc_fencing_epoch req) @ '' is not the one this stream holds (''
             @ show_int epoch @ '')'', [])
      else bindH (read_or su ''commit ledger unreadable: '' (\<lambda>db. Inr (live_for_job (pc_job_id req) db))) (\<lambda>found. case found of
        None \<Rightarrow> retH (False, ''no live commit intent for this job'', [])
      | Some intent \<Rightarrow>
          if it_state intent \<noteq> ''live'' then retH (False, ''intent is '' @ it_state intent, [])
          else if it_agent_id intent \<noteq> agent_id then retH (False, ''intent belongs to '' @ it_agent_id intent, [])
          else if it_fencing_epoch intent \<noteq> epoch
          then retH (False, ''intent was granted under epoch '' @ show_int (it_fencing_epoch intent), [])
          else bindH (read_or su ''job lookup failed: '' (get_job (pc_job_id req))) (\<lambda>job.
               bindH (read_or su ''library lookup failed: '' (get_library (jr_library_id job))) (\<lambda>library.
                 retH (True, [], path_display (trash_path_for (path_new (lr_trash_dir library))
                   (path_new (lr_root_path library)) (path_new (it_final_path intent))))))))"

text \<open>Recorded before it is granted; a commit that cannot be recorded is refused.\<close>

definition record_commit :: "surroundings \<Rightarrow> string \<Rightarrow> bool \<times> string \<times> string \<Rightarrow> (bool \<times> string \<times> string) handler" where
  "record_commit su i verdict =
     (if fst verdict
      then bindH (session_write su (transition_op i Verifying Committing None None)) (\<lambda>r. case r of
             Inr u \<Rightarrow> retH verdict
           | Inl e \<Rightarrow> retH (False, ''the server could not record this commit'', []))
      else retH verdict)"

definition commit_verdict :: "surroundings \<Rightarrow> string \<Rightarrow> i64 \<Rightarrow> pb_commit_request \<Rightarrow> (bool \<times> string \<times> string) handler" where
  "commit_verdict su agent_id epoch req = bindH (judge_commit su agent_id epoch req) (record_commit su (pc_job_id req))"

definition on_commit_request :: "surroundings \<Rightarrow> string \<Rightarrow> i64 \<Rightarrow> pb_commit_request \<Rightarrow> unit handler" where
  "on_commit_request su agent_id epoch req =
     bindH (commit_verdict su agent_id epoch req) (\<lambda>(granted, reason, trash).
     bindH (on_fleet su (fleet_send agent_id (SM_CommitGrant (pc_job_id req) granted reason trash))) (\<lambda>sent. retH ()))"

definition on_commit_report :: "surroundings \<Rightarrow> string \<Rightarrow> i64 \<Rightarrow> commit_report \<Rightarrow> unit handler" where
  "on_commit_report su agent_id epoch rep =
     (if or_default (- 1) (i64_of_u64 (rp_fencing_epoch rep)) \<noteq> epoch then retH ()
      else bindH (read_or su ''commit ledger unreadable: '' (\<lambda>db. Inr (live_for_job (rp_job_id rep) db))) (\<lambda>found. case found of
        None \<Rightarrow> retH ()
      | Some intent \<Rightarrow>
          if it_agent_id intent \<noteq> agent_id \<or> it_fencing_epoch intent \<noteq> epoch then retH ()
          else thenH (write_or su (resolve_op (it_id intent) (rp_resolution rep)))
            (case outcome_of (rp_resolution rep) of (to, code) \<Rightarrow>
               bindH (session_write su (transition_op (rp_job_id rep) Committing to (Some code) (Some (rp_detail rep))))
                 (\<lambda>r. retH ()))))"

text \<open>An empty envelope is nothing to do.\<close>

definition handle :: "surroundings \<Rightarrow> codecs \<Rightarrow> string \<Rightarrow> i64 \<Rightarrow> agent_message option \<Rightarrow> unit handler" where
  "handle su cx agent_id epoch msg = (case msg of
     None \<Rightarrow> retH ()
   | Some (AM_Heartbeat hb) \<Rightarrow> on_heartbeat su agent_id epoch hb
   | Some (AM_CommitRequest req) \<Rightarrow> on_commit_request su agent_id epoch req
   | Some (AM_CommitReport rep) \<Rightarrow> on_commit_report su agent_id epoch rep
   | Some AM_Progress \<Rightarrow> retH ()
   | Some (AM_Result r) \<Rightarrow> on_result su cx agent_id epoch r
   | Some (AM_DrainAck still) \<Rightarrow> retH ())"

text \<open>
  The task that holds a stream: a message that fails is logged and passed over, and the end of the
  stream, clean or not, takes the agent off the registry and marks it offline.
\<close>

definition logged :: "'a handler \<Rightarrow> unit handler" where
  "logged h s = (case h s of (Reply a, t) \<Rightarrow> (Reply (), t) | (Broken e, t) \<Rightarrow> (Reply (), t) | (Died, t) \<Rightarrow> (Died, t))"

fun stream_loop :: "surroundings \<Rightarrow> codecs \<Rightarrow> string \<Rightarrow> i64 \<Rightarrow> (rpc_status + agent_message option) list \<Rightarrow> unit handler" where
  "stream_loop su cx agent_id epoch [] = retH ()"
| "stream_loop su cx agent_id epoch (Inl e # ms) = retH ()"
| "stream_loop su cx agent_id epoch (Inr m # ms) =
     thenH (logged (handle su cx agent_id epoch m)) (stream_loop su cx agent_id epoch ms)"

definition stream_task :: "surroundings \<Rightarrow> codecs \<Rightarrow> string \<Rightarrow> i64 \<Rightarrow> (rpc_status + agent_message option) list \<Rightarrow> unit handler" where
  "stream_task su cx agent_id epoch ms =
     thenH (stream_loop su cx agent_id epoch ms)
     (thenH (on_fleet su (\<lambda>fl. ((), fleet_disconnect agent_id epoch fl)))
       (bindH (session_write su (set_status_op agent_id ''Offline'')) (\<lambda>r. retH ())))"

section \<open>Invariant\<close>

text \<open>What every invariant shared with the others survives.\<close>

context guarded_server begin

lemma read_or_keeps: "keeps inv (read_or su what f)"
  unfolding read_or_def by (intro keeps_intros read_keeps)

lemma session_write_keeps: "op \<in> ops \<Longrightarrow> keeps inv (session_write su op)"
  unfolding session_write_def by (intro keeps_intros submit_keeps)

lemma write_or_keeps: "op \<in> ops \<Longrightarrow> keeps inv (write_or su op)"
  unfolding write_or_def by (intro keeps_intros session_write_keeps)

lemma fleet_steps_keep:
  "keeps inv (on_fleet su (fleet_connect a e))" "keeps inv (on_fleet su (fleet_send a m))"
  "keeps inv (on_fleet su (\<lambda>fl. ((), fleet_set_running a jobs fl)))"
  "keeps inv (on_fleet su (\<lambda>fl. ((), fleet_disconnect a e fl)))"
  by (rule fleet_keeps[where x = "FS_Connect a e"], simp,
      rule fleet_keeps[where x = "FS_Send a m"], simp,
      rule fleet_keeps[where x = "FS_Running a jobs"], simp,
      rule fleet_keeps[where x = "FS_Disconnect a e"], simp)

lemma look_up_keeps: "keeps inv (look_up_job su i)"
  unfolding look_up_job_def
  by (intro keeps_intros read_keeps) (auto intro!: keeps_intros split: store_error.split)

lemma unknown_keeps: "keeps inv (unknown_intents su live)"
  by (induction live) (auto intro!: keeps_intros read_or_keeps)

lemmas step_keeps = read_or_keeps session_write_keeps write_or_keeps fleet_steps_keep look_up_keeps unknown_keeps

end

lemma keeps_logged: "keeps I h \<Longrightarrow> keeps I (logged h)"
  by (fastforce simp: spec_def logged_def split: prod.splits answer.splits)

lemma server_ops [simp]: "transition_op i p q r d \<in> store_ops" "bump_attempt_op i \<in> store_ops" "resolve_op k how \<in> store_ops"
  "heartbeat_op a n \<in> store_ops" "set_status_op a st \<in> store_ops" "register_op g \<in> store_ops"
  "record_capability_op a h c v f dr w \<in> store_ops"
  by simp_all

lemmas session_keeps = keeps_intros server_store.step_keeps keeps_logged server_ops

lemma keeps_register: "keeps (server_ok su) (register su cx ss req)"
  unfolding register_def admit_def Let_def
  by (intro session_keeps) (auto intro!: session_keeps split: register_outcome.split)

lemma keeps_connect: "keeps (server_ok su) (connect su md)"
  unfolding connect_def by (intro session_keeps)

lemma keeps_revoke: "keeps (server_ok su) (revoke_unrecognised su a e is)"
  by (induction "is") (auto intro!: session_keeps)

lemma keeps_on_result: "keeps (server_ok su) (on_result su cx a e r)"
  unfolding on_result_def release_intent_def after_rejection_def move_def
  by (intro session_keeps) (auto intro!: session_keeps split: retry_decision.split)

lemma keeps_commit_verdict:
  "keeps (server_ok su) (judge_commit su a e req)" "keeps (server_ok su) (record_commit su i v)"
  unfolding judge_commit_def record_commit_def by (intro session_keeps)+

lemma keeps_handle: "keeps (server_ok su) (handle su cx a e msg)"
proof (cases msg)
  case (Some m)
  then show ?thesis
    by (cases m) (auto simp: handle_def on_heartbeat_def on_commit_request_def on_commit_report_def commit_verdict_def
        intro!: session_keeps keeps_revoke keeps_on_result keeps_commit_verdict)
qed (simp add: handle_def keeps_ret)

lemma keeps_stream_task: "keeps (server_ok su) (stream_task su cx a e ms)"
proof -
  have "keeps (server_ok su) (stream_loop su cx a e ms)"
    by (induction su cx a e ms rule: stream_loop.induct) (auto intro!: session_keeps keeps_handle)
  then show ?thesis unfolding stream_task_def by (intro session_keeps)
qed

section \<open>A grant on record\<close>

text \<open>No operation forgets an intent, or whose it is.\<close>

lemma intent_persists:
  assumes "op \<in> store_ops" "t \<in> set (db_intents db)"
  shows "\<exists>t' \<in> set (db_intents (snd (apply_op op now db))). it_id t' = it_id t \<and> it_job_id t' = it_job_id t
    \<and> it_agent_id t' = it_agent_id t \<and> it_fencing_epoch t' = it_fencing_epoch t"
proof (cases "op_run op now db")
  case (Pair res db')
  show ?thesis
  proof (cases res)
    case Inl then show ?thesis using assms(2) by (auto simp: apply_op_def Pair)
  next
    case (Inr ack)
    have same: "db_intents db' = db_intents db" if "op \<notin> intent_ops"
      using assms(1) that Pair unfolding Inr store_ops_def ledger_ops_def
      by (auto dest: job_op_frame(1) trash_op_frame agent_op_frame library_op_frame block_op_frame file_op_frame)
    have upd: "update_intent P f db = Inr (n, db1) \<Longrightarrow> db_intents db1 = map (\<lambda>q. if P q then f q else q) (db_intents db)" for P f n db1
      by (auto simp: update_intent_def sql_update_def Let_def split: if_splits)
    have mapped: "\<exists>t' \<in> set (db_intents db'). it_id t' = it_id t \<and> it_job_id t' = it_job_id t
        \<and> it_agent_id t' = it_agent_id t \<and> it_fencing_epoch t' = it_fencing_epoch t"
      if "db_intents db' = map g (db_intents db)"
        "\<And>q. it_id (g q) = it_id q \<and> it_job_id (g q) = it_job_id q \<and> it_agent_id (g q) = it_agent_id q
          \<and> it_fencing_epoch (g q) = it_fencing_epoch q" for g
      using that assms(2) by (intro bexI[of _ "g t"]) simp_all
    have "\<exists>t' \<in> set (db_intents db'). it_id t' = it_id t \<and> it_job_id t' = it_job_id t
        \<and> it_agent_id t' = it_agent_id t \<and> it_fencing_epoch t' = it_fencing_epoch t"
    proof (cases "op \<in> intent_ops")
      case True
      then show ?thesis
      proof (cases rule: intent_op_cases)
        case grant
        then show ?thesis using Pair Inr assms(2)
          by (auto simp: grant_op_def op_run_new_op insert_intent_def split: if_splits)
      next
        case (advance k p)
        from Pair Inr obtain n where "update_intent (\<lambda>t. it_id t = k \<and> it_state t = ''live'')
            (\<lambda>t. t\<lparr> it_phase := p, it_updated := now * 1000 \<rparr>) db = Inr (n, db')"
          by (auto simp: advance advance_op_def op_run_new_op split: sum.splits)
        then show ?thesis by (elim mapped[OF upd]) simp
      next
        case (resolve k how)
        from Pair Inr obtain n where "update_intent (\<lambda>t. it_id t = k \<and> it_state t = ''live'')
            (\<lambda>t. t\<lparr> it_state := ''resolved'', it_resolution := Some how,
                    it_resolved := Some (now * 1000), it_updated := now * 1000 \<rparr>) db = Inr (n, db')"
          by (auto simp: resolve resolve_op_def op_run_new_op split: sum.splits)
        then show ?thesis by (elim mapped[OF upd]) simp
      qed
    qed (use same assms(2) in auto)
    then show ?thesis by (simp add: apply_op_def Pair Inr)
  qed
qed

definition intent_on_record :: "string \<Rightarrow> string \<Rightarrow> i64 \<Rightarrow> database \<Rightarrow> bool" where
  "intent_on_record i agent epoch db \<longleftrightarrow>
     (\<exists>t \<in> set (db_intents db). it_job_id t = i \<and> it_agent_id t = agent \<and> it_fencing_epoch t = epoch)"

lemma on_record_apply: "op \<in> store_ops \<Longrightarrow> intent_on_record i a e db \<Longrightarrow> intent_on_record i a e (snd (apply_op op now db))"
  using intent_persists unfolding intent_on_record_def by metis

lemma on_record_run:
  "\<forall>(now, op) \<in> set steps. op \<in> store_ops \<Longrightarrow> intent_on_record i a e db \<Longrightarrow> intent_on_record i a e (run_writes steps db)"
proof (induction steps arbitrary: db)
  case (Cons s steps)
  then show ?case using on_record_apply by (cases s) auto
qed simp

interpretation server_intent: guarded_server su "\<lambda>s. server_ok su s \<and> intent_on_record i a e (sv_db s)" store_ops for su i a e
proof
  let ?I = "\<lambda>s. server_ok su s \<and> intent_on_record i a e (sv_db s)"
  show "?I (others_act su s)" if "?I s" for s
    using that server_store.others_kept[of su s] on_record_run by (simp add: others_act_def server_ok_def)
  show "?I (s\<lparr> sv_db := snd (apply_op op now (sv_db s)) \<rparr>)" if "op \<in> store_ops" "?I s" for s op now
    using that by (simp add: server_store.write_kept on_record_apply)
  show "?I (s\<lparr> sv_fleet := fleet_act x (sv_fleet s) \<rparr>)" if "?I s" for s x
    using that by (simp add: server_store.fleet_kept)
  show "?I (s\<lparr> sv_world := w \<rparr>)" if "?I s" for s w
    using that by (simp add: server_store.files_kept)
qed

section \<open>Exact steps\<close>

lemma transition_Inr:
  assumes ok: "job_store_ok db" and run: "apply_op (transition_op i from to reason detail) now db = (Inr ack, db')"
  shows "\<exists>j. get_job i db' = Inr j \<and> jr_state j = to"
proof (cases "\<exists>j. get_job i db = Inr j")
  case True
  then show ?thesis using transition_effect[OF ok _ run] by (fastforce split: if_splits)
next
  case False
  have "jt_id r \<noteq> i" if r: "r \<in> set (db_jobs db)" for r
    using False get_job_row[OF ok r] from_row_ok[of r] ok r by (auto simp: job_store_ok_def)
  then have "filter (\<lambda>r. jt_id r = i \<and> jt_state r = s) (db_jobs db) = []" for s by (simp add: filter_empty_conv)
  then have zero: "n = 0" if "update_job (\<lambda>r. jt_id r = i \<and> jt_state r = s) f db = Inr (n, db1)" for s f n db1
    using that by (simp add: update_job_def sql_update_def Let_def split: if_splits)
  let ?u = "update_job (\<lambda>r. jt_id r = i \<and> jt_state r = job_state_as_str from)
      (transition_row (job_state_as_str to) now reason) db"
  show ?thesis
  proof (cases ?u)
    case (Inl e)
    then show ?thesis using run by (simp add: apply_op_def transition_op_def op_run_new_op split: if_splits)
  next
    case (Inr p)
    moreover obtain n db1 where p: "p = (n, db1)" by (cases p)
    ultimately have "n = 0" using zero by simp
    then show ?thesis using run Inr p by (simp add: apply_op_def transition_op_def op_run_new_op split: if_splits)
  qed
qed

lemma spec_read_or:
  "spec (server_ok su) (read_or su what f) (\<lambda>r s. server_ok su s \<and> f (sv_db s) = Inr r) (server_ok su)"
  unfolding read_or_def
proof (rule spec_bind)
  show "spec (server_ok su) (read_db su f) (\<lambda>r s. server_ok su s \<and> (\<forall>a. r = Inr a \<longrightarrow> f (sv_db s) = Inr a)) (server_ok su)"
    by (simp add: spec_def read_db_def Let_def server_store.others_kept split: option.split)
  show "spec (\<lambda>s. server_ok su s \<and> (\<forall>a. r = Inr a \<longrightarrow> f (sv_db s) = Inr a))
      (case r of Inl e \<Rightarrow> failH (internal su what e) | Inr a \<Rightarrow> retH a)
      (\<lambda>r s. server_ok su s \<and> f (sv_db s) = Inr r) (server_ok su)" for r
    by (cases r) (auto intro: spec_ret spec_fail)
qed

lemma spec_transition:
  assumes I: "guarded_server su I store_ops" and ok: "\<And>s. I s \<Longrightarrow> server_ok su s"
  shows "spec I (session_write su (transition_op i from to reason detail))
     (\<lambda>r s. I s \<and> (\<forall>u. r = Inr u \<longrightarrow> (\<exists>j. get_job i (sv_db s) = Inr j \<and> jr_state j = to))) I"
  unfolding session_write_def
proof (rule spec_bind)
  let ?op = "transition_op i from to reason detail"
  show "spec I (submit su ?op) (\<lambda>r s. I s \<and> (\<forall>u. r = Inr u \<longrightarrow> (\<exists>j. get_job i (sv_db s) = Inr j \<and> jr_state j = to))) I"
  proof (rule specI)
    fix s r s' assume s: "I s" and h: "submit su ?op s = (r, s')"
    have k: "I s'" using specD[OF guarded_server.submit_keeps[OF I server_ops(1)] s h] by (cases r) simp_all
    have "store_ok (sv_db (others_act su s))" using guarded_server.others_kept[OF I s] ok by (simp add: server_ok_def)
    then have "\<exists>j. get_job i (sv_db s') = Inr j \<and> jr_state j = to" if "r = Reply (Inr a)" for a
      using that h transition_Inr[of "sv_db (others_act su s)" i "from" to reason detail "su_clock su (sv_calls s)" a "sv_db s'"]
      by (auto simp: submit_def Let_def store_ok_def split: option.splits prod.splits)
    then show "case r of Reply a \<Rightarrow> I s' \<and> (\<forall>u. a = Inr u \<longrightarrow> (\<exists>j. get_job i (sv_db s') = Inr j \<and> jr_state j = to)) | _ \<Rightarrow> I s'"
      using k by (auto split: answer.split)
  qed
  show "spec (\<lambda>s. I s \<and> (\<forall>u. r = Inr u \<longrightarrow> (\<exists>j. get_job i (sv_db s) = Inr j \<and> jr_state j = to)))
      (case r of Inl e \<Rightarrow> retH (Inl (internal su ''write failed: '' e)) | Inr a \<Rightarrow> retH (Inr ()))
      (\<lambda>r s. I s \<and> (\<forall>u. r = Inr u \<longrightarrow> (\<exists>j. get_job i (sv_db s) = Inr j \<and> jr_state j = to))) I" for r
    by (cases r) (auto intro!: spec_ret)
qed

section \<open>Properties\<close>


lemma judge_spec:
  "spec (server_ok su) (judge_commit su agent epoch req)
     (\<lambda>v s. server_ok su s \<and> (if fst v then or_default (- 1) (i64_of_u64 (pc_fencing_epoch req)) = epoch
        \<and> intent_on_record (pc_job_id req) agent epoch (sv_db s) else snd (snd v) = [])) (server_ok su)"
  (is "spec _ _ ?Q _")
proof -
  let ?I = "\<lambda>s. server_ok su s \<and> intent_on_record (pc_job_id req) agent epoch (sv_db s)"
  have refused: "spec (\<lambda>s. server_ok su s \<and> C s) (retH (False, why, [])) ?Q (server_ok su)" for why C
    by (rule spec_ret) simp
  have after: "spec (\<lambda>s. server_ok su s \<and> Inr (live_for_job (pc_job_id req) (sv_db s)) = Inr found)
      (bindH (read_or su a f) (\<lambda>job. bindH (read_or su b (g job)) (\<lambda>library. retH (True, [], h library)))) ?Q (server_ok su)"
    if "or_default (- 1) (i64_of_u64 (pc_fencing_epoch req)) = epoch"
      "found = Some t" "it_agent_id t = agent" "it_fencing_epoch t = epoch"
    for a f b h found t and g :: "'b \<Rightarrow> database \<Rightarrow> store_error + 'c"
  proof -
    note r = server_intent.read_or_keeps[of su "pc_job_id req" agent epoch]
    have "spec ?I (retH (True, [], h library)) ?Q ?I" for library by (rule spec_ret) (simp add: that(1))
    then have "spec ?I (bindH (read_or su b (g job)) (\<lambda>library. retH (True, [], h library))) ?Q ?I" for job
      by (rule spec_bind[OF r])
    then have "spec ?I (bindH (read_or su a f) (\<lambda>job. bindH (read_or su b (g job)) (\<lambda>library. retH (True, [], h library)))) ?Q ?I"
      by (rule spec_bind[OF r])
    then show ?thesis
      by (rule spec_conseq) (use that(2-4) in \<open>auto simp: intent_on_record_def live_for_job_def dest!: query_row_SomeD\<close>)
  qed
  show ?thesis unfolding judge_commit_def
    by (intro spec_if spec_bind[OF spec_read_or] spec_option refused after) (simp_all add: spec_ret)
qed

lemma verdict_spec:
  "spec (server_ok su) (commit_verdict su agent epoch req)
     (\<lambda>v s. if fst v then (\<exists>j. get_job (pc_job_id req) (sv_db s) = Inr j \<and> jr_state j = Committing)
        \<and> or_default (- 1) (i64_of_u64 (pc_fencing_epoch req)) = epoch \<and> intent_on_record (pc_job_id req) agent epoch (sv_db s)
      else snd (snd v) = []) (server_ok su)"
  (is "spec _ _ ?Q _")
  unfolding commit_verdict_def
proof (rule spec_bind[OF judge_spec])
  fix v :: "bool \<times> string \<times> string"
  let ?I = "\<lambda>s. server_ok su s \<and> intent_on_record (pc_job_id req) agent epoch (sv_db s)"
  show "spec (\<lambda>s. server_ok su s \<and> (if fst v then or_default (- 1) (i64_of_u64 (pc_fencing_epoch req)) = epoch \<and> intent_on_record (pc_job_id req) agent epoch (sv_db s)
      else snd (snd v) = [])) (record_commit su (pc_job_id req) v) ?Q (server_ok su)"
  proof (cases "fst v")
    case False then show ?thesis by (simp add: record_commit_def spec_def retH_def)
  next
    case True
    show ?thesis
    proof (cases "or_default (- 1) (i64_of_u64 (pc_fencing_epoch req)) = epoch")
      case e: True
      have "spec ?I (record_commit su (pc_job_id req) v) ?Q ?I"
        unfolding record_commit_def if_P[OF True]
        by (rule spec_bind[OF spec_transition[OF server_intent.guarded_server_axioms]], simp)
          (intro spec_sum spec_ret, simp, use True e in simp)
      then show ?thesis by (rule spec_conseq) (simp_all add: True)
    qed (simp add: spec_def True)
  qed
qed

text \<open>
  C28. Permission is never given blind: when a commit is granted, the job is already recorded as
  committing, the request's epoch is the stream's, and the ledger holds an intent of this job granted
  to this agent under this epoch, whatever the other handlers wrote meanwhile; a refusal names no
  place to move the original to.
\<close>

theorem commit_granted_only_on_record:
  assumes "server_ok su s" and "commit_verdict su agent epoch req s = (Reply (granted, reason, trash), s')"
  shows "if granted
         then (\<exists>j. get_job (pc_job_id req) (sv_db s') = Inr j \<and> jr_state j = Committing)
            \<and> or_default (- 1) (i64_of_u64 (pc_fencing_epoch req)) = epoch
            \<and> (\<exists>t \<in> set (db_intents (sv_db s')). it_job_id t = pc_job_id req \<and> it_agent_id t = agent \<and> it_fencing_epoch t = epoch)
         else trash = []"
  using specD[OF verdict_spec assms] by (simp add: intent_on_record_def split: if_splits)

definition no_codecs :: codecs where
  "no_codecs = \<lparr> cx_hash = (\<lambda>s. s), cx_capability_json = (\<lambda>c. Some ''{}''), cx_classes_json = (\<lambda>c. Some ''[]''),
     cx_mounts_json = (\<lambda>m. Some ''[]''), cx_passed = (\<lambda>j. Some True) \<rparr>"


text \<open>The sample job, verified and waiting.\<close>

definition verified_server :: server where
  "verified_server = sample_server\<lparr> sv_db := run_writes [(50, transition_op ''j'' Assigned Running None None),
     (60, transition_op ''j'' Running Verifying None None)] (sv_db sample_server) \<rparr>"

lemma verified_server_ok: "server_ok undisturbed verified_server"
  using sample_server_ok(2) store_writes.run_kept[of "[(50, transition_op ''j'' Assigned Running None None),
     (60, transition_op ''j'' Running Verifying None None)]" "sv_db sample_server"]
  by (simp add: server_ok_def verified_server_def)

lemma sample_verdict:
  "\<exists>reason trash s'. commit_verdict undisturbed ''a'' 7 \<lparr> pc_job_id = ''j'', pc_attempt = 0, pc_fencing_epoch = 7 \<rparr> verified_server
     = (Reply (True, reason, trash), s')"
  using job_class_spelling.parse_eq_Some[of "''Audio''" JC_Audio]
    size_bucket_spelling.parse_eq_Some[of "''Small''" Small]
    job_state_spelling.parse_eq_Some[of "''Verifying''" Verifying]
  by (simp add: commit_verdict_def judge_commit_def record_commit_def session_write_def handler_steps read_or_def
      calm_read[OF sample_server_ok(1)] calm_submit[OF sample_server_ok(1)] i64_of_u64_def i64_max_def
      verified_server_def sample_server_def sample_ledger_steps_def grant_op_def insert_intent_def intent_checks_def
      new_intent_row_def sample_intent_def live_for_job_def get_library_def library_from_row_def run_sample)

lemma commit_granted_only_on_record_witness:
  "\<exists>reason trash s' j. commit_verdict undisturbed ''a'' 7 \<lparr> pc_job_id = ''j'', pc_attempt = 0, pc_fencing_epoch = 7 \<rparr> verified_server
     = (Reply (True, reason, trash), s') \<and> get_job ''j'' (sv_db s') = Inr j \<and> jr_state j = Committing"
proof -
  obtain reason trash s' where v: "commit_verdict undisturbed ''a'' 7 \<lparr> pc_job_id = ''j'', pc_attempt = 0, pc_fencing_epoch = 7 \<rparr>
      verified_server = (Reply (True, reason, trash), s')" using sample_verdict by blast
  from commit_granted_only_on_record[OF verified_server_ok v] v show ?thesis by auto
qed

text \<open>A request nobody may answer: the job is not the caller's, the epoch not the stream's, or the intent another's.\<close>

definition not_held :: "string \<Rightarrow> string \<Rightarrow> i64 \<Rightarrow> database \<Rightarrow> bool" where
  "not_held i agent epoch db \<longleftrightarrow> (case get_job i db of
     Inr job \<Rightarrow> jr_agent_id job \<noteq> Some agent \<or> jr_fencing_epoch job \<noteq> epoch
   | Inl e \<Rightarrow> (\<exists>k x. e = SE_NotFound k x))"

definition stale_report :: "commit_report \<Rightarrow> string \<Rightarrow> i64 \<Rightarrow> database \<Rightarrow> bool" where
  "stale_report rep agent epoch db \<longleftrightarrow> or_default (- 1) (i64_of_u64 (rp_fencing_epoch rep)) \<noteq> epoch
     \<or> (case live_for_job (rp_job_id rep) db of
          None \<Rightarrow> True | Some t \<Rightarrow> it_agent_id t \<noteq> agent \<or> it_fencing_epoch t \<noteq> epoch)"

text \<open>
  C30. What a superseded agent says about a job changes nothing: a result for a job it does not hold
  under this epoch, or for none, and a commit report whose epoch is not the stream's or whose live
  intent is another's, leave the store exactly as the other handlers left it, and no message is sent.
\<close>

theorem stale_messages_change_nothing:
  assumes "su_fault su (sv_calls s) = None"
  shows "(not_held (jx_job_id r) agent epoch (sv_db (others_act su s))
            \<longrightarrow> on_result su cx agent epoch r s = (Reply (), others_act su s))
       \<and> (stale_report rep agent epoch (sv_db (others_act su s))
            \<longrightarrow> on_commit_report su agent epoch rep s \<in> {(Reply (), s), (Reply (), others_act su s)})"
proof (intro conjI impI)
  show "on_result su cx agent epoch r s = (Reply (), others_act su s)"
    if "not_held (jx_job_id r) agent epoch (sv_db (others_act su s))"
    using assms that by (auto simp: on_result_def look_up_job_def not_held_def read_db_def Let_def handler_steps split: sum.splits)
  show "on_commit_report su agent epoch rep s \<in> {(Reply (), s), (Reply (), others_act su s)}"
    if "stale_report rep agent epoch (sv_db (others_act su s))"
    using assms that by (auto simp: on_commit_report_def read_or_def stale_report_def read_db_def Let_def handler_steps split: option.splits)
qed

text \<open>To a reader, \<open>t\<close> is \<open>s\<close> but for one job, which is now \<open>j\<close>.\<close>

definition only_job :: "surroundings \<Rightarrow> string \<Rightarrow> job_record \<Rightarrow> server \<Rightarrow> server \<Rightarrow> bool" where
  "only_job su i j s t \<longleftrightarrow> server_ok su t \<and> (\<forall>k. get_job k (sv_db t) = (if k = i then Inr j else get_job k (sv_db s)))
     \<and> sv_fleet t = sv_fleet s \<and> sv_world t = sv_world s"

lemma calm_write:
  assumes "calm su" "server_ok su s" "op \<in> store_ops" "apply_op op (su_clock su (sv_calls s)) (sv_db s) = (Inr ack, db)"
  shows "session_write su op s = (Reply (Inr ()), s\<lparr> sv_calls := Suc (sv_calls s), sv_db := db \<rparr>)"
    and "write_or su op s = (Reply (), s\<lparr> sv_calls := Suc (sv_calls s), sv_db := db \<rparr>)"
    and "server_ok su (s\<lparr> sv_calls := Suc (sv_calls s), sv_db := db \<rparr>)"
proof -
  show w: "session_write su op s = (Reply (Inr ()), s\<lparr> sv_calls := Suc (sv_calls s), sv_db := db \<rparr>)"
    using assms by (simp add: session_write_def calm_submit handler_steps)
  then show "write_or su op s = (Reply (), s\<lparr> sv_calls := Suc (sv_calls s), sv_db := db \<rparr>)"
    by (simp add: write_or_def handler_steps)
  show "server_ok su (s\<lparr> sv_calls := Suc (sv_calls s), sv_db := db \<rparr>)"
    using keepsD[OF server_store.session_write_keeps[OF assms(3)] assms(2)] w by simp
qed

lemma calm_move:
  assumes c: "calm su" and ok: "server_ok su s" and g: "get_job i (sv_db s) = Inr j"
    and e: "jr_state j = from" "can_transition from to"
  obtains t where "move su i from to reason detail s = (Reply (), t)"
    "only_job su i (j\<lparr> jr_state := to, jr_terminal_reason := (case reason of Some x \<Rightarrow> Some x | None \<Rightarrow> jr_terminal_reason j) \<rparr>) s t"
    "db_intents (sv_db t) = db_intents (sv_db s)"
proof -
  let ?op = "transition_op i from to reason detail"
  have st: "job_store_ok (sv_db s)" using ok by (simp add: server_ok_def store_ok_def)
  obtain res db where r: "apply_op ?op (su_clock su (sv_calls s)) (sv_db s) = (res, db)" by (metis prod.exhaust)
  note eff = transition_effect[OF st g r]
  have res: "res = Inr (ack_of_rows 1)" using eff e by simp
  have fr: "db_intents db = db_intents (sv_db s)"
    using r job_op_frame(1)[of ?op "su_clock su (sv_calls s)" "sv_db s"]
    by (auto simp: apply_op_def split: prod.splits sum.splits)
  note w = calm_write[OF c ok server_ops(1) r[unfolded res]]
  show thesis
    by (rule that[of "s\<lparr> sv_calls := Suc (sv_calls s), sv_db := db \<rparr>"]) (use eff e w fr in \<open>simp_all add: move_def only_job_def\<close>)
qed

lemma calm_bump:
  assumes c: "calm su" and ok: "server_ok su s" and g: "get_job i (sv_db s) = Inr j"
  obtains t where "write_or su (bump_attempt_op i) s = (Reply (), t)"
    "only_job su i (j\<lparr> jr_attempt := jr_attempt j + 1 \<rparr>) s t" "db_intents (sv_db t) = db_intents (sv_db s)"
proof -
  let ?op = "bump_attempt_op i"
  have st: "job_store_ok (sv_db s)" using ok by (simp add: server_ok_def store_ok_def)
  obtain res db where r: "apply_op ?op (su_clock su (sv_calls s)) (sv_db s) = (res, db)" by (metis prod.exhaust)
  note eff = bump_effect[OF st g r]
  have fr: "db_intents db = db_intents (sv_db s)"
    using r job_op_frame(1)[of ?op "su_clock su (sv_calls s)" "sv_db s"]
    by (auto simp: apply_op_def split: prod.splits sum.splits)
  note w = calm_write[OF c ok server_ops(2) r[unfolded eff[THEN conjunct1]]]
  show thesis by (rule that[of "s\<lparr> sv_calls := Suc (sv_calls s), sv_db := db \<rparr>"]) (use eff w fr in \<open>simp_all add: only_job_def\<close>)
qed

lemma calm_release:
  assumes c: "calm su" and ok: "server_ok su s"
  obtains t where "release_intent su i n s = (Reply (), t)" "server_ok su t" "\<forall>k. get_job k (sv_db t) = get_job k (sv_db s)"
    "{x \<in> set (db_intents (sv_db t)). it_state x = ''live''}
       = {x \<in> set (db_intents (sv_db s)). it_state x = ''live'' \<and> it_id x \<noteq> i @ '':'' @ show_int n}"
    "sv_fleet t = sv_fleet s" "sv_world t = sv_world s"
proof -
  let ?op = "resolve_op (i @ '':'' @ show_int n) ''abandoned''"
  have st: "intents_ok (sv_db s)" using ok by (simp add: server_ok_def store_ok_def)
  obtain res db where r: "apply_op ?op (su_clock su (sv_calls s)) (sv_db s) = (res, db)" by (metis prod.exhaust)
  note eff = resolve_effect[OF st r]
  obtain m rows where d: "res = Inr (ack_of_rows m)" "db = (sv_db s)\<lparr> db_intents := rows \<rparr>" using eff by blast
  note w = calm_write[OF c ok server_ops(3) r[unfolded d(1)]]
  have "get_job k db = get_job k (sv_db s)" for k by (simp add: get_job_def d(2))
  then show thesis using eff w by (intro that[of "s\<lparr> sv_calls := Suc (sv_calls s), sv_db := db \<rparr>"]) (simp_all add: release_intent_def handler_steps)
qed

lemma only_job_trans: "only_job su i j s t \<Longrightarrow> only_job su i j' t u \<Longrightarrow> only_job su i j' s u"
  by (simp add: only_job_def)

lemma only_jobD: "only_job su i j s t \<Longrightarrow> server_ok su t \<and> get_job i (sv_db t) = Inr j"
  by (simp add: only_job_def)

text \<open>The state machine's edges a result uses.\<close>

lemma result_edges: "can_transition Assigned Running" "can_transition Running Verifying" "can_transition Running Retrying"
  "can_transition Retrying Eligible" "can_transition Retrying DeadLettered"
  by (simp_all add: can_transition_def is_terminal_def)

definition live_ids :: "database \<Rightarrow> string set" where
  "live_ids db = it_id ` {t \<in> set (db_intents db). it_state t = ''live''}"

lemma calm_rejection:
  assumes c: "calm su" and ok: "server_ok su s" and g: "get_job i (sv_db s) = Inr j" and e: "jr_state j = Retrying"
  obtains t where "after_rejection su i job s = (Reply (), t)" "db_intents (sv_db t) = db_intents (sv_db s)"
    "only_job su i (if jr_attempt job + 1 < jr_max_attempts job then j\<lparr> jr_state := Eligible, jr_attempt := jr_attempt j + 1 \<rparr>
       else j\<lparr> jr_state := DeadLettered, jr_terminal_reason := Some ''attempts_exhausted'' \<rparr>) s t"
proof (cases "jr_attempt job + 1 < jr_max_attempts job")
  case True
  obtain t where t: "write_or su (bump_attempt_op i) s = (Reply (), t)"
    "only_job su i (j\<lparr> jr_attempt := jr_attempt j + 1 \<rparr>) s t" "db_intents (sv_db t) = db_intents (sv_db s)"
    by (rule calm_bump[OF c ok g])
  from only_jobD[OF t(2)] have g': "server_ok su t" "get_job i (sv_db t) = Inr (j\<lparr> jr_attempt := jr_attempt j + 1 \<rparr>)" by simp_all
  obtain u where u: "move su i Retrying Eligible None None t = (Reply (), u)"
    "only_job su i (j\<lparr> jr_attempt := jr_attempt j + 1, jr_state := Eligible \<rparr>) t u" "db_intents (sv_db u) = db_intents (sv_db t)"
    by (rule calm_move[OF c g', of Retrying Eligible None None]) (simp_all add: e result_edges)
  have comm: "j\<lparr> jr_attempt := jr_attempt j + 1, jr_state := Eligible \<rparr> = j\<lparr> jr_state := Eligible, jr_attempt := jr_attempt j + 1 \<rparr>"
    by (cases j) simp
  show thesis
    by (rule that[of u]) (use True t u only_job_trans[OF t(2) u(2)] comm in \<open>simp_all add: after_rejection_def decide_retry_def Let_def handler_steps\<close>)
next
  case False
  obtain u where u: "move su i Retrying DeadLettered (Some ''attempts_exhausted'') None s = (Reply (), u)"
    "only_job su i (j\<lparr> jr_state := DeadLettered, jr_terminal_reason := Some ''attempts_exhausted'' \<rparr>) s u"
    "db_intents (sv_db u) = db_intents (sv_db s)"
    by (rule calm_move[OF c ok g, of Retrying DeadLettered "Some ''attempts_exhausted''" None]) (simp_all add: e result_edges)
  show thesis
    by (rule that[of u]) (use False u in \<open>simp_all add: after_rejection_def decide_retry_def Let_def\<close>)
qed


section \<open>Registration\<close>

text \<open>Undisturbed, a handler's reads and writes are steps of the store.\<close>

lemma calm_spec_read:
  "calm su \<Longrightarrow> spec (\<lambda>s. F (sv_db s)) (read_or su what f) (\<lambda>r s. F (sv_db s) \<and> f (sv_db s) = Inr r) (\<lambda>_. True)"
  by (auto simp: spec_def read_or_def calm_read handler_steps split: sum.splits)

lemma calm_spec_write:
  "calm su \<Longrightarrow> (\<And>db now ack db'. F db \<Longrightarrow> apply_op op now db = (Inr ack, db') \<Longrightarrow> G db')
   \<Longrightarrow> spec (\<lambda>s. F (sv_db s)) (write_or su op) (\<lambda>_ s. G (sv_db s)) (\<lambda>_. True)"
  by (auto simp: spec_def write_or_def session_write_def calm_submit handler_steps split: sum.splits prod.splits)

lemma calm_spec_unknown: "calm su \<Longrightarrow> spec (\<lambda>s. F (sv_db s)) (unknown_intents su live) (\<lambda>_ s. F (sv_db s)) (\<lambda>_. True)"
proof (induction live)
  case Nil show ?case by (simp add: spec_ret)
next
  case (Cons i live)
  have r: "spec (\<lambda>s. F (sv_db s)) (read_or su w f) (\<lambda>_ s. F (sv_db s)) (\<lambda>_. True)" for w and f :: "database \<Rightarrow> store_error + 'b"
    by (rule spec_conseq[OF calm_spec_read[where F = F, OF Cons.prems]]) simp_all
  show ?case unfolding unknown_intents.simps
    by (intro spec_bind[OF r] spec_bind[OF Cons.IH[OF Cons.prems]] spec_ret)
qed

text \<open>What the gate and the dispatcher see of an agent.\<close>

definition agent_view :: "string \<Rightarrow> database \<Rightarrow> (string \<times> string option \<times> i64 \<times> string) option" where
  "agent_view i db = map_option (\<lambda>a. (ar_agent_uid a, ar_boot_id a, ar_fencing_epoch a, ar_status a)) (get_agent i db)"

lemma agent_view_row: "agent_view i db = map_option (\<lambda>r. (at_agent_uid r, at_boot_id r, at_fencing_epoch r, at_status r))
    (query_row (\<lambda>r. at_id r = i) (db_agents db))"
  by (simp add: agent_view_def get_agent_def option.map_comp o_def agent_from_row_def)

definition registered_from :: "database \<Rightarrow> string \<Rightarrow> string \<times> string option \<times> i64 \<times> string \<Rightarrow> database \<Rightarrow> bool" where
  "registered_from db i v db' \<longleftrightarrow> (\<forall>b. agent_view b db' = (if b = i then Some v else agent_view b db)) \<and> (\<forall>k. get_job k db' = get_job k db)"

lemma query_row_snoc: "query_row P (rows @ [r]) = (case query_row P rows of Some q \<Rightarrow> Some q | None \<Rightarrow> if P r then Some r else None)"
  by (induction rows) (auto simp: query_row_def)

lemma register_effect:
  assumes "apply_op (register_op g) now db = (Inr ack, db')"
  shows "registered_from db (rg_id g) (rg_agent_uid g, Some (rg_boot_id g), rg_fencing_epoch g, ''Online'') db'"
proof -
  let ?new = "new_agent_row g now"
  consider (update) "list_ex (\<lambda>r. at_id r = rg_id g) (db_agents db)"
      "db' = db\<lparr> db_agents := map (\<lambda>r. if at_id r = rg_id g then reregistered ?new r else r) (db_agents db) \<rparr>"
    | (insert) "\<not> list_ex (\<lambda>r. at_id r = rg_id g) (db_agents db)" "db' = db\<lparr> db_agents := db_agents db @ [?new] \<rparr>"
    using assms by (auto simp: apply_op_def register_op_def op_run_new_op Let_def split: if_splits)
  then show ?thesis
  proof cases
    case update
    have q: "query_row (\<lambda>r. at_id r = b) (db_agents db')
        = map_option (\<lambda>r. if at_id r = rg_id g then reregistered ?new r else r) (query_row (\<lambda>r. at_id r = b) (db_agents db))" for b
      unfolding update(2) by (simp add: query_row_map reregistered_def new_agent_row_def)
    have cols: "at_agent_uid (reregistered ?new r) = rg_agent_uid g" "at_boot_id (reregistered ?new r) = Some (rg_boot_id g)"
      "at_fencing_epoch (reregistered ?new r) = rg_fencing_epoch g" "at_status (reregistered ?new r) = ''Online''" for r
      by (simp_all add: reregistered_def new_agent_row_def)
    have "agent_view b db' = (if b = rg_id g then Some (rg_agent_uid g, Some (rg_boot_id g), rg_fencing_epoch g, ''Online'')
        else agent_view b db)" for b
    proof (cases "query_row (\<lambda>r. at_id r = b) (db_agents db)")
      case None
      then have "b \<noteq> rg_id g" using update(1) by (auto simp: query_row_None list_ex_iff)
      then show ?thesis unfolding agent_view_row q by (simp add: None)
    next
      case (Some r)
      then have "at_id r = b" by (auto dest: query_row_SomeD)
      then show ?thesis unfolding agent_view_row q by (simp add: Some cols)
    qed
    then show ?thesis by (simp add: registered_from_def get_job_def update(2))
  next
    case insert
    have "query_row (\<lambda>r. at_id r = rg_id g) (db_agents db) = None"
      using insert(1) by (auto simp: query_row_None list_ex_iff)
    then show ?thesis
      by (auto simp: registered_from_def agent_view_row query_row_snoc new_agent_row_def get_job_def insert(2) split: option.split)
  qed
qed

lemma registered_kept:
  "apply_op (record_capability_op a h j v f d w) now db1 = (Inr ack, db') \<Longrightarrow> registered_from db i x db1 \<Longrightarrow> registered_from db i x db'"
  "apply_op (heartbeat_op a n) now db1 = (Inr ack, db') \<Longrightarrow> registered_from db i x db1 \<Longrightarrow> registered_from db i x db'"
proof -
  show "registered_from db i x db'" if "apply_op (record_capability_op a h j v f d w) now db1 = (Inr ack, db')" "registered_from db i x db1"
    using that by (auto simp: apply_op_def record_capability_op_def op_run_new_op registered_from_def agent_view_row get_job_def split: if_splits)
  assume beat: "apply_op (heartbeat_op a n) now db1 = (Inr ack, db')" and r: "registered_from db i x db1"
  let ?f = "\<lambda>r. r\<lparr> at_last_heartbeat := Some now, at_lease_expires := Some (sat_i64 (now + n)) \<rparr>"
  have d: "db' = db1\<lparr> db_agents := map (\<lambda>r. if at_id r = a then ?f r else r) (db_agents db1) \<rparr>"
    using beat by (auto simp: apply_op_def heartbeat_op_def op_run_new_op dest: update_agent_Inr(1) split: prod.splits sum.splits)
  have "agent_view b db' = agent_view b db1" for b
    unfolding agent_view_row d by (simp add: query_row_map option.map_comp o_def cong: option.map_cong) (auto intro!: option.map_cong)
  then show "registered_from db i x db'" using r by (simp add: registered_from_def get_job_def d)
qed

lemma admit_spec:
  assumes c: "calm su"
  shows "spec (\<lambda>s. sv_db s = db) (admit su cx req ident known epoch)
     (\<lambda>resp s. rr_accepted resp \<and> rr_fencing_epoch resp = or_default 0 (u64_of_i64 epoch)
        \<and> registered_from db (ai_agent_id ident) (ai_agent_uid ident, Some (ai_boot_id ident), epoch, ''Online'') (sv_db s)) (\<lambda>_. True)"
  (is "spec ?P _ ?Q _")
proof -
  let ?G = "registered_from db (ai_agent_id ident) (ai_agent_uid ident, Some (ai_boot_id ident), epoch, ''Online'')"
  let ?G' = "\<lambda>s. ?G (sv_db s)"
  have try_kept: "spec ?P (tryH x) (\<lambda>_. ?P) (\<lambda>_. True)" for x :: "rpc_status + 'b" by (rule spec_try) simp_all
  have read: "spec ?P (read_or su w f) (\<lambda>_. ?P) (\<lambda>_. True)" for w and f :: "database \<Rightarrow> store_error + 'b"
    by (rule spec_conseq[OF calm_spec_read[where F = "\<lambda>d. d = db", OF c]]) simp_all
  have changed: "spec ?P (if known = None then retH False
      else bindH (read_or su w f) (\<lambda>a. retH (g a))) (\<lambda>_. ?P) (\<lambda>_. True)" for w g and f :: "database \<Rightarrow> store_error + 'b"
    by (intro spec_if spec_ret spec_bind[OF read])
  have reg: "spec ?P (write_or su (register_op (registration_of ident wire cap hash cj lj mj epoch))) (\<lambda>_. ?G') (\<lambda>_. True)"
    for wire cap hash cj lj mj
    by (rule calm_spec_write[where F = "\<lambda>d. d = db" and G = ?G, OF c])
      (auto dest!: register_effect simp: registration_of_def)
  have hist: "spec ?G' (if b then write_or su (record_capability_op a h j v f d w) else retH ()) (\<lambda>_. ?G') (\<lambda>_. True)" for b a h j v f d w
    by (intro spec_if spec_ret calm_spec_write[where F = ?G and G = ?G, OF c]) (auto dest: registered_kept(1))
  have beat: "spec ?G' (write_or su (heartbeat_op a n)) (\<lambda>_. ?G') (\<lambda>_. True)" for a n
    by (rule calm_spec_write[where F = ?G and G = ?G, OF c]) (auto dest: registered_kept(2))
  have answer: "spec ?G' (retH (accept_response epoch unknown)) ?Q (\<lambda>_. True)" for unknown
    by (rule spec_ret) (simp add: accept_response_def)
  show ?thesis unfolding admit_def Let_def
    by (intro spec_bind[OF try_kept] spec_bind[OF changed] spec_then[OF reg] spec_then[OF hist] spec_then[OF beat]
        spec_bind[OF calm_spec_unknown[where F = ?G, OF c]] answer)
qed


definition sample_registration :: register_request where
  "sample_registration = \<lparr> rq_identity = Some \<lparr> pi_agent_id = ''a'', pi_agent_uid = ''u'', pi_boot_id = ''c'',
       pi_agent_version = show_semver (1, 2, 3), pi_proto_version = 1 \<rparr>,
     rq_capability = Some (sample_document\<lparr> pb_classes := [], pb_decoders := [], pb_platform := [] \<rparr>),
     rq_auth_token = [], rq_live_intents = [] \<rparr>"

lemma sample_registered:
  "\<exists>resp s'. register undisturbed no_codecs \<lparr> ss_gate = default_gate, ss_auth_token = None \<rparr> sample_registration sample_server
     = (Reply resp, s') \<and> rr_accepted resp"
proof -
  have row: "db_agents (sv_db sample_server) = [sample_agent]"
    by (simp add: sample_server_def sample_ledger_steps_def grant_op_def insert_intent_def intent_checks_def
        new_intent_row_def sample_intent_def run_sample)
  have semver: "parse_semver (show_semver (1, 2, 3)) = Some (1, 2, 3)" using parse_semver_show[of "[]" "(1, 2, 3)"] by simp
  have gate: "gate_evaluate default_gate \<lparr> ai_agent_id = ''a'', ai_agent_uid = ''u'', ai_boot_id = ''c'',
      ai_agent_version = show_semver (1, 2, 3), ai_proto_version = 1 \<rparr> (Some ''b'') 1 = RO_Accepted 2 True"
    unfolding accepted_iff
    by (intro conjI exI[of _ "(1, 2, 3)"]) (use semver in \<open>simp_all add: default_gate_def min_supported_proto_def proto_version_def\<close>)
  show ?thesis
    by (simp add: register_def admit_def sample_registration_def token_ok_def or_status_def proto_or_def identity_from_pb_def
        handler_steps read_or_def write_or_def session_write_def calm_read[OF sample_server_ok(1)] calm_submit[OF sample_server_ok(1)]
        instance_of_def query_row_def row sample_agent_def known_to_gate_def gate capability_from_pb_def no_codecs_def
        get_agent_def agent_from_row_def apply_op_def agent_op_defs update_agent_def sql_update_def agent_checks_def
        new_agent_row_def reregistered_def registration_of_def sample_document_def accept_response_def commit_eligible_def Let_def
        del: show_semver.simps)
qed



lemma stale_messages_change_nothing_witness:
  "on_result undisturbed no_codecs ''a'' 6 \<lparr> jx_job_id = ''j'', jx_attempt = 0, jx_exit_code = 0, jx_signal = 0,
       jx_stderr_tail = [], jx_validation_json = [], jx_output_bytes = 0 \<rparr> sample_server
     = (Reply (), others_act undisturbed sample_server)"
proof -
  let ?r = "\<lparr> jx_job_id = ''j'', jx_attempt = 0, jx_exit_code = 0, jx_signal = 0,
       jx_stderr_tail = [], jx_validation_json = [], jx_output_bytes = 0 \<rparr>"
  have "not_held (jx_job_id ?r) ''a'' 6 (sv_db (others_act undisturbed sample_server))"
    using sample_server_job by (auto simp: not_held_def calm_others[OF sample_server_ok(1)])
  moreover have "su_fault undisturbed (sv_calls sample_server) = None" by (simp add: undisturbed_def)
  ultimately show ?thesis using stale_messages_change_nothing[THEN conjunct1, rule_format] by blast
qed

end
