(* ===== verification/Push.thy ===== *)
theory Push
  imports Session Commit_Ritual Trash
begin

text \<open>
  Streaming transport (\<open>crates/transcodarr-server/src/session.rs\<close>, \<open>fetch_source\<close> and \<open>push_output\<close>):
  serving a held job's source, and receiving a finished output, which the server installs itself with
  the agent's commit ritual. The work area is the server's; the digest, the reads of the source, the
  file system's faults and the printing of the agent library's errors are arguments. The one file at
  the journal's name stands for the journal directory; a directory an older build left is not modelled.
\<close>

section \<open>Serving the source\<close>

record fetch_request =
  fq_job_id :: string
  fq_attempt :: u32
  fq_fencing_epoch :: u64

text \<open>A call ends in a status, or in a stream opened on the path of the source.\<close>

definition fetch_source :: "surroundings \<Rightarrow> (string \<Rightarrow> string option) \<Rightarrow> fetch_request \<Rightarrow> (string \<times> u32 \<times> path) handler" where
  "fetch_source su md req =
     bindH (tryH (stream_identity md)) (\<lambda>(agent_id, stream_epoch).
     bindH (tryH (or_status SC_Unauthenticated ''fencing_epoch is out of range'' (i64_of_u64 (fq_fencing_epoch req)))) (\<lambda>claimed.
     if claimed \<noteq> stream_epoch
     then failH (Status SC_Unauthenticated (''epoch '' @ show_int claimed @ '' in the request disagrees with ''
            @ show_int stream_epoch @ '' in the metadata''))
     else thenH (require_current_epoch su agent_id claimed)
     (bindH (look_up_job su (fq_job_id req)) (\<lambda>found.
      bindH (tryH (or_status SC_NotFound (''no job '' @ fq_job_id req) found)) (\<lambda>job.
      if jr_agent_id job \<noteq> Some agent_id \<or> jr_fencing_epoch job \<noteq> claimed
      then failH (Status SC_PermissionDenied ''this job is not held by you at this epoch'')
      else if jr_state job \<notin> set held_states
      then failH (Status SC_FailedPrecondition (''job is '' @ job_state_as_str (jr_state job) @ '', not work you are holding''))
      else bindH (read_or su (''file '' @ show_int (jr_file_id job) @ '' unreadable: '') (get_file (jr_file_id job))) (\<lambda>file.
           retH (fq_job_id req, fq_attempt req, path_new (fr_canonical_path file))))))))"

section \<open>Receiving an output\<close>

record push_response =
  pr_accepted :: bool
  pr_reason :: string
  pr_bytes_received :: u64

definition refused :: "string \<Rightarrow> push_response" where
  "refused reason = \<lparr> pr_accepted = False, pr_reason = reason, pr_bytes_received = 0 \<rparr>"

definition retention_seconds :: i64 where
  "retention_seconds = 7 * 24 * 3600"

record push_env =
  px_files :: transfer_env
  px_device :: "path \<Rightarrow> u64"
  px_digest :: "string \<Rightarrow> string"
  px_agent_uid :: string
  px_boot_id :: string
  px_render :: "agent_error \<Rightarrow> string"

definition work_open :: "env \<Rightarrow> path \<Rightarrow> string \<Rightarrow> string \<Rightarrow> work_area prog" where
  "work_open env dir agent_uid boot_id =
     (let scoped = path_join dir [Normal (sanitise agent_uid), Normal (sanitise boot_id)]
      in thenP (call_or env act_nothing (AE_WorkArea scoped))
           (retP \<lparr> wa_root = scoped, wa_agent_uid = agent_uid, wa_boot_id = boot_id \<rparr>))"

definition open_journal :: "env \<Rightarrow> unit prog" where
  "open_journal env = call_or env act_nothing (AE_Journal ''.journal'')"

definition files_or :: "push_env \<Rightarrow> status_code \<Rightarrow> string \<Rightarrow> 'a prog \<Rightarrow> 'a handler" where
  "files_or px code what p = bindH (Server_Base.on_files p) (\<lambda>r. case r of
     Inl e \<Rightarrow> failH (Status code (what @ px_render px e)) | Inr a \<Rightarrow> retH a)"

text \<open>Removing the staged file, whatever comes of it.\<close>

definition discard :: "push_env \<Rightarrow> path \<Rightarrow> unit handler" where
  "discard px temp = bindH (Server_Base.on_files (ignoring (tv_calls (px_files px)) (act_remove temp))) (\<lambda>r. retH ())"

definition on_break :: "'a handler \<Rightarrow> unit handler \<Rightarrow> 'a handler" where
  "on_break h g s = (case h s of (Broken e, t) \<Rightarrow> thenH g (failH e) t | r \<Rightarrow> r)"

text \<open>What the row says of the file the job was planned against.\<close>

definition guard_of_row :: "file_record \<Rightarrow> source_guard" where
  "guard_of_row f = \<lparr> sg_size_bytes = or_default 0 (u64_of_i64 (fr_size_bytes f)), sg_mtime_unix = fr_mtime_unix f,
     sg_inode = Option.bind (fr_inode f) u64_of_i64 \<rparr>"

definition push_request :: "string \<Rightarrow> job_record \<Rightarrow> file_record \<Rightarrow> i64 \<Rightarrow> i64 \<Rightarrow> path \<Rightarrow> string \<Rightarrow> commit_request" where
  "push_request i job file attempt epoch temp trash = \<lparr> cr_job_id = i, cr_attempt = attempt, cr_fencing_epoch = epoch,
     cr_temp_path = temp, cr_final_path = path_new (fr_canonical_path file), cr_trash_path = path_new trash,
     cr_content_sig = jr_content_sig job, cr_source_guard = guard_of_row file \<rparr>"

text \<open>After the ritual: the ledger, the job, and the retained original.\<close>

definition push_recorded :: "surroundings \<Rightarrow> string \<Rightarrow> i64 \<Rightarrow> file_record \<Rightarrow> u64 \<Rightarrow> resolution \<Rightarrow> push_response handler" where
  "push_recorded su i attempt file landed resolution =
     (let label = resolution_label resolution; (to, code) = outcome_of label;
          installed = (case resolution of R_Installed trash bytes \<Rightarrow> True | _ \<Rightarrow> False)
      in thenH (write_or su (resolve_op (i @ '':'' @ show_int attempt) label))
        (bindH (session_write su (transition_op i Committing to (Some code) None)) (\<lambda>r.
         thenH (case resolution of
                  R_Installed trash bytes \<Rightarrow> write_or su (retain_op (Some (fr_id file)) (Some i) (fr_canonical_path file)
                    (path_display trash) (fr_size_bytes file) retention_seconds)
                | _ \<Rightarrow> retH ())
           (retH \<lparr> pr_accepted = installed, pr_reason = (if installed then [] else ''the install resolved as '' @ label),
                   pr_bytes_received = landed \<rparr>))))"

text \<open>Judged again and recorded, then installed.\<close>

definition push_install :: "surroundings \<Rightarrow> push_env \<Rightarrow> string \<Rightarrow> i64 \<Rightarrow> pb_commit_request \<Rightarrow> job_record \<Rightarrow> file_record
    \<Rightarrow> work_area \<Rightarrow> path \<Rightarrow> u64 \<Rightarrow> push_response handler" where
  "push_install su px agent_id epoch ask job file wa temp landed =
     (let i = pc_job_id ask; attempt = uint (pc_attempt ask); env = tv_calls (px_files px)
      in thenH (on_break (require_current_epoch su agent_id epoch) (discard px temp))
        (bindH (judge_commit su agent_id epoch ask) (\<lambda>(granted, reason, trash).
         if \<not> granted then thenH (discard px temp) (retH (refused reason))
         else bindH (session_write su (transition_op i Verifying Committing None None)) (\<lambda>r. case r of
           Inl e \<Rightarrow> thenH (discard px temp) (retH (refused ''the server could not record this commit''))
         | Inr u \<Rightarrow>
             thenH (files_or px SC_Internal ''journal unusable: '' (open_journal env))
             (bindH (files_or px SC_Internal ''the install failed: '' (commit env (px_device px) wa
                  (push_request i job file attempt epoch temp trash))) (\<lambda>resolution.
              push_recorded su i attempt file landed resolution))))))"

definition push_staged :: "surroundings \<Rightarrow> push_env \<Rightarrow> string \<Rightarrow> i64 \<Rightarrow> pb_commit_request \<Rightarrow> job_record \<Rightarrow> library_record
    \<Rightarrow> file_record \<Rightarrow> chunk \<Rightarrow> (rpc_status + chunk) list \<Rightarrow> push_response handler" where
  "push_staged su px agent_id epoch ask job library file first rest =
     (let i = pc_job_id ask; attempt = uint (pc_attempt ask); env = tv_calls (px_files px);
          final = path_new (fr_canonical_path file)
      in bindH (files_or px SC_Internal ''work area unusable: ''
                 (work_open env (path_new (lr_work_dir library)) (px_agent_uid px) (px_boot_id px))) (\<lambda>wa.
         thenH (files_or px SC_FailedPrecondition [] (ensure_same_device env (px_device px) wa final))
        (thenH (files_or px SC_Internal ''could not clear the work area: '' (work_clear env wa i attempt final))
        (let temp = work_temp_path wa i attempt final
         in bindH (files_or px SC_Internal [] (receive (px_files px) (px_digest px) rest first temp i attempt)) (\<lambda>r. case r of
              Inl e \<Rightarrow> thenH (discard px temp) (failH e)
            | Inr landed \<Rightarrow> push_install su px agent_id epoch ask job file wa temp landed)))))"

definition push_output :: "surroundings \<Rightarrow> push_env \<Rightarrow> (string \<Rightarrow> string option) \<Rightarrow> (rpc_status + chunk) list
    \<Rightarrow> push_response handler" where
  "push_output su px md stream =
     bindH (tryH (stream_identity md)) (\<lambda>(agent_id, epoch).
     thenH (require_current_epoch su agent_id epoch)
     (case stream of
        [] \<Rightarrow> failH (Status SC_InvalidArgument ''a push must carry at least one chunk; an empty stream says nothing'')
      | Inl e # rest \<Rightarrow> failH e
      | Inr first # rest \<Rightarrow>
          (let i = ch_job_id first; attempt = uint (ch_attempt first);
               ask = \<lparr> pc_job_id = i, pc_attempt = ch_attempt first, pc_fencing_epoch = or_default (- 1) (u64_of_i64 epoch) \<rparr>
           in bindH (look_up_job su i) (\<lambda>found.
              bindH (tryH (or_status SC_NotFound (''no job '' @ i) found)) (\<lambda>job.
              if attempt \<noteq> jr_attempt job
              then retH (refused (''this is attempt '' @ show_int (jr_attempt job) @ '', not '' @ show_int attempt))
              else bindH (judge_commit su agent_id epoch ask) (\<lambda>(granted, reason, trash).
                if \<not> granted then retH (refused reason)
                else bindH (read_or su ''library lookup failed: '' (get_library (jr_library_id job))) (\<lambda>library.
                     bindH (read_or su (''file '' @ show_int (jr_file_id job) @ '' unreadable: '') (get_file (jr_file_id job))) (\<lambda>file.
                       push_staged su px agent_id epoch ask job library file first rest))))))))"

section \<open>Invariant\<close>

lemma keeps_require: "keeps (server_ok su) (require_current_epoch su a e)"
  unfolding require_current_epoch_def by (intro session_keeps)

lemma keeps_files: "keeps (server_ok su) (files_or px code what p)" "keeps (server_ok su) (discard px temp)"
  unfolding files_or_def discard_def by (intro session_keeps server_store.files_keeps)+

lemma keeps_on_break: "keeps I h \<Longrightarrow> keeps I g \<Longrightarrow> keeps I (on_break h g)"
proof (rule specI)
  fix s r t assume k: "keeps I h" "keeps I g" and s: "I s" and run: "on_break h g s = (r, t)"
  have h: "I (snd (h s))" by (rule keepsD[OF k(1) s])
  have g: "keeps I (thenH g (failH e))" for e :: rpc_status by (intro keeps_then k(2) keeps_fail)
  have "I t" using run h keepsD[OF g] by (cases "h s"; cases "fst (h s)") (auto simp: on_break_def dest!: arg_cong[where f = snd])
  then show "case r of Reply a \<Rightarrow> I t | _ \<Rightarrow> I t" by (cases r) simp_all
qed

lemma retain_in_store [simp]: "retain_op f j orig trash n r \<in> store_ops"
  by simp

lemmas push_keeps = session_keeps keeps_require keeps_files keeps_on_break keeps_commit_verdict retain_in_store

lemma keeps_fetch: "keeps (server_ok su) (fetch_source su md req)"
  unfolding fetch_source_def by (intro push_keeps)

lemma keeps_push: "keeps (server_ok su) (push_output su px md stream)"
proof -
  have recorded: "keeps (server_ok su) (push_recorded su i n f b r)" for i n f b r
    unfolding push_recorded_def Let_def by (cases r) (auto intro!: push_keeps)
  have install: "keeps (server_ok su) (push_install su px a e ask job f wa temp n)" for a e ask job f wa temp n
    unfolding push_install_def Let_def by (intro push_keeps recorded)
  have staged: "keeps (server_ok su) (push_staged su px a e ask job library f first rest)" for a e ask job library f first rest
    unfolding push_staged_def Let_def by (intro push_keeps install)
  have list: "keeps (server_ok su) (case stream of [] \<Rightarrow> h | Inl e # rest \<Rightarrow> f e rest | Inr c # rest \<Rightarrow> g c rest)"
    if "keeps (server_ok su) h" "\<And>e rest. keeps (server_ok su) (f e rest)" "\<And>c rest. keeps (server_ok su) (g c rest)"
    for h :: "push_response handler" and f g
    using that by (auto split: list.split sum.split)
  show ?thesis unfolding push_output_def Let_def by (intro push_keeps list staged)
qed

text \<open>The registry's own answer to a claimed epoch.\<close>

definition current_epoch :: "string \<Rightarrow> i64 \<Rightarrow> database \<Rightarrow> bool" where
  "current_epoch agent e db \<longleftrightarrow> (\<exists>a. get_agent agent db = Some a \<and> ar_status a \<noteq> ''Quarantined'' \<and> ar_fencing_epoch a = e)"

lemma calm_require:
  "calm su \<Longrightarrow> current_epoch agent e (sv_db s) \<Longrightarrow>
     require_current_epoch su agent e s = (Reply (), s\<lparr> sv_calls := Suc (sv_calls s) \<rparr>)"
  "calm su \<Longrightarrow> \<not> current_epoch agent e (sv_db s) \<Longrightarrow>
     \<exists>x. require_current_epoch su agent e s = (Broken x, s\<lparr> sv_calls := Suc (sv_calls s) \<rparr>)"
  by (cases "get_agent agent (sv_db s)",
      auto simp: require_current_epoch_def read_or_def or_status_def handler_steps calm_read current_epoch_def)+

section \<open>Properties\<close>


definition serving_server :: server where
  "serving_server = sample_server\<lparr> sv_db := (sv_db sample_server)\<lparr> db_agents := [sample_agent\<lparr> at_fencing_epoch := 7 \<rparr>] \<rparr> \<rparr>"


end
