(* ===== verification/Server_Steps.thy ===== *)
theory Server_Steps
  imports Server_Base
begin

text \<open>
  The steps of the server's own loops (\<open>crates/transcodarr-server/src/lib.rs\<close> and the repositories' calls in
  \<open>orchestrator.rs\<close>, \<open>evaluator.rs\<close>, \<open>scanner.rs\<close> and \<open>prober.rs\<close>): reads and writes whose failure is the
  server's error, the clock, the list of connected agents, and the rules for them.
\<close>

datatype server_error =
    V_Store store_error
  | V_Io io_error
  | V_LibraryRootUnreadable string string
  | V_Agent agent_error
  | V_UnknownPath string
  | V_ProbeFailed string string
  | V_MassMissing string i64 i64 f64 f64
  | V_CancelRefused string string string

section \<open>Steps\<close>

definition read_store :: "surroundings \<Rightarrow> (database \<Rightarrow> store_error + 'a) \<Rightarrow> ('b, server_error, 'a) process" where
  "read_store su f = bindH (read_db su f) (\<lambda>r. case r of Inl e \<Rightarrow> failH (V_Store e) | Inr a \<Rightarrow> retH a)"

definition write_store :: "surroundings \<Rightarrow> write_op \<Rightarrow> ('b, server_error, write_ack) process" where
  "write_store su op = bindH (submit su op) (\<lambda>r. case r of Inl e \<Rightarrow> failH (V_Store e) | Inr ack \<Rightarrow> retH ack)"

definition write_best_effort :: "surroundings \<Rightarrow> write_op \<Rightarrow> ('b, server_error, unit) process" where
  "write_best_effort su op = bindH (submit su op) (\<lambda>r. retH ())"

definition now_unix :: "surroundings \<Rightarrow> ('b, server_error, i64) process" where
  "now_unix su s = (Reply (su_clock su (sv_calls s)), s)"

definition connected_ids :: "surroundings \<Rightarrow> ('b, server_error, string list) process" where
  "connected_ids su = on_fleet su (\<lambda>fl. (map cd_agent_id (fleet_connected fl), fl))"

section \<open>Rules\<close>

context guarded_server begin

lemma read_store_keeps: "keeps inv (read_store su f)"
  unfolding read_store_def by (intro keeps_intros read_keeps)

lemma write_store_keeps: "op \<in> ops \<Longrightarrow> keeps inv (write_store su op)"
  unfolding write_store_def by (intro keeps_intros submit_keeps)

lemma best_effort_keeps: "op \<in> ops \<Longrightarrow> keeps inv (write_best_effort su op)"
  unfolding write_best_effort_def by (intro keeps_intros submit_keeps)

lemma now_keeps: "keeps inv (now_unix su)"
  by (simp add: spec_def now_unix_def)

lemma peek_keeps:
  assumes "\<And>fl. snd (f fl) = fl"
  shows "keeps inv (on_fleet su f)"
proof (rule specI)
  fix s r s' assume s: "inv s" and h: "on_fleet su f s = (r, s')"
  have "s' = others_act su s" using h assms[of "sv_fleet (others_act su s)"]
    by (auto simp: on_fleet_def Let_def split: prod.splits)
  then show "case r of Reply a \<Rightarrow> inv s' | _ \<Rightarrow> inv s'" using others_kept[OF s] by (cases r) simp_all
qed

lemma connected_keeps: "keeps inv (connected_ids su)"
  unfolding connected_ids_def by (rule peek_keeps) simp

lemmas step_keeps = keeps_intros read_store_keeps write_store_keeps best_effort_keeps now_keeps connected_keeps read_keeps submit_keeps

end

lemma calm_read_store:
  "calm su \<Longrightarrow> read_store su f s = (case f (sv_db s) of
     Inl e \<Rightarrow> (Broken (V_Store e), s\<lparr> sv_calls := Suc (sv_calls s) \<rparr>) | Inr a \<Rightarrow> (Reply a, s\<lparr> sv_calls := Suc (sv_calls s) \<rparr>))"
  by (simp add: read_store_def calm_read handler_steps split: sum.split)

lemma calm_write_store:
  "calm su \<Longrightarrow> write_store su op s = (case apply_op op (su_clock su (sv_calls s)) (sv_db s) of
     (Inl e, db) \<Rightarrow> (Broken (V_Store e), s\<lparr> sv_calls := Suc (sv_calls s), sv_db := db \<rparr>)
   | (Inr ack, db) \<Rightarrow> (Reply ack, s\<lparr> sv_calls := Suc (sv_calls s), sv_db := db \<rparr>))"
  by (simp add: write_store_def calm_submit handler_steps split: sum.split prod.split)

lemma bindH_Reply: "bindH h f s = (Reply b, s') \<Longrightarrow> \<exists>a t. h s = (Reply a, t) \<and> f a t = (Reply b, s')"
  by (auto simp: bindH_def split: prod.splits answer.splits)

lemma thenH_Reply: "thenH h g s = (Reply b, s') \<Longrightarrow> \<exists>a t. h s = (Reply a, t) \<and> g t = (Reply b, s')"
  unfolding thenH_def by (rule bindH_Reply)

lemma write_store_Reply:
  assumes "calm su" "write_store su op s = (Reply ack, t)"
  shows "apply_op op (su_clock su (sv_calls s)) (sv_db s) = (Inr ack, sv_db t)"
  using assms by (auto simp: calm_write_store split: prod.splits sum.splits)

lemma read_store_Reply:
  assumes "calm su" "read_store su f s = (Reply a, t)"
  shows "f (sv_db s) = Inr a \<and> sv_db t = sv_db s \<and> sv_fleet t = sv_fleet s"
  using assms by (auto simp: calm_read_store split: sum.splits)

lemma write_ok: "store_ok db \<Longrightarrow> op \<in> store_ops \<Longrightarrow> apply_op op now db = (r, db') \<Longrightarrow> store_ok db'"
  using store_writes.apply_kept[of op db now] by simp

abbreviation stands :: "database \<Rightarrow> fleet \<Rightarrow> 'b server_scheme \<Rightarrow> bool" where
  "stands db fl \<equiv> (\<lambda>s. sv_db s = db \<and> sv_fleet s = fl)"

lemma read_store_spec:
  "calm su \<Longrightarrow> spec (stands db fl) (read_store su f) (\<lambda>a s. stands db fl s \<and> f db = Inr a) (\<lambda>s. sv_fleet s = fl)"
  by (auto simp: spec_def calm_read_store split: sum.split)

section \<open>Rows and records of files\<close>

lemma file_record_row:
  assumes "file_from_row r = Inr f"
  shows "fr_id f = ft_id r" "fr_facts f = (if ft_probe_at r \<noteq> None then Some (facts_from_row r) else None)"
  using assms by (auto simp: file_from_row_def bindR_def split: sum.splits)

lemma collect_rows:
  "collect (map file_from_row rs) = Inr fs \<Longrightarrow> map fr_id fs = map ft_id rs
     \<and> (\<forall>f \<in> set fs. \<exists>r \<in> set rs. file_from_row r = Inr f) \<and> (\<forall>r \<in> set rs. \<exists>f \<in> set fs. file_from_row r = Inr f)"
  by (induction rs arbitrary: fs) (auto simp: bindR_def file_record_row(1) split: sum.splits)

lemma file_row_parses:
  assumes ok: "file_row_ok db r"
  shows "\<exists>f. file_from_row r = Inr f"
proof -
  obtain st where st: "ft_state r = file_state_as_str st" using ok by (auto simp: file_row_ok_def)
  obtain b where b: "parse_opt ''file.size_bucket'' (ft_size_bucket r) size_bucket_parse = Inr b"
    using ok by (cases "ft_size_bucket r") (auto simp: file_row_ok_def parse_opt_def parse_enum_def size_bucket_spelling.parse_as_str)
  obtain d where d: "parse_opt ''file.decision'' (ft_decision r) decision_class_parse = Inr d"
    using ok by (cases "ft_decision r") (auto simp: file_row_ok_def parse_opt_def parse_enum_def decision_class_spelling.parse_as_str)
  have "parse_enum ''file.state'' (ft_state r) file_state_parse = Inr st"
    unfolding st by (cases st) (simp_all add: parse_enum_def file_state_parse_def)
  then show ?thesis by (simp add: file_from_row_def b d bindR_def)
qed

lemma collect_total:
  "\<forall>r \<in> set rs. \<exists>f. file_from_row r = Inr f \<Longrightarrow> \<exists>fs. collect (map file_from_row rs) = Inr fs"
  by (induction rs) (auto simp: bindR_def)

end
