(* ===== verification/Orchestrator.thy ===== *)
theory Orchestrator
  imports Dispatch Reconcile Schedule Hardening Policy Plan Server_Steps
begin

text \<open>
  The dispatch loop (\<open>crates/transcodarr-server/src/orchestrator.rs\<close>): one tick reconciles the work of
  agents that went quiet, sweeps stranded intents, rebuilds the capacity ledger and places what is
  queued. The dispatcher and the ledger are the loop's own state, beside the server's. The readers and
  writers of JSON documents are arguments; logging is left out.
\<close>

section \<open>Data\<close>

record orchestrated = server +
  oc_dispatcher :: dispatcher
  oc_ledger :: ledger

type_synonym 'a pass = "(unit orchestrated_ext, server_error, 'a) process"

record orchestrator =
  oc_policy :: policy
  oc_limits :: agent_limits
  oc_schedule :: schedule_engine
  oc_reconciler :: reconciler

record documents =
  dx_capability :: "string \<Rightarrow> string + capability"
  dx_requirements :: "string \<Rightarrow> requirements option"
  dx_spec_json :: "validation_spec \<Rightarrow> string"
  dx_reason_json :: "string \<Rightarrow> string"

record tick_outcome =
  to_dispatched :: "string list"
  to_blocked :: "(string \<times> string) list"
  to_requeued :: "string list"
  to_escalated :: "string list"
  to_swept :: "string list"

definition no_outcome :: tick_outcome where
  "no_outcome = \<lparr> to_dispatched = [], to_blocked = [], to_requeued = [], to_escalated = [], to_swept = [] \<rparr>"

definition working_states :: "job_state list" where
  "working_states = [Assigned, Running, Verifying, Committing]"

definition dispatchable_states :: "job_state list" where
  "dispatchable_states = [Pending, Eligible]"

definition queue_window :: nat where
  "queue_window = 512"

section \<open>Steps\<close>

definition release_slot :: "string \<Rightarrow> unit pass" where
  "release_slot i s = (Reply (), s\<lparr> oc_ledger := snd (release i (oc_ledger s)) \<rparr>)"

fun read_states :: "surroundings \<Rightarrow> job_state list \<Rightarrow> ('b, server_error, job_record list) process" where
  "read_states su [] = retH []"
| "read_states su (st # sts) =
     bindH (read_store su (in_state st queue_window)) (\<lambda>jobs.
     bindH (read_states su sts) (\<lambda>rest. retH (jobs @ rest)))"

section \<open>Requeueing\<close>

definition requeue :: "surroundings \<Rightarrow> string \<Rightarrow> job_state \<Rightarrow> string \<Rightarrow> unit pass" where
  "requeue su i from why =
     bindH (read_store su (get_job i)) (\<lambda>job.
     thenH (write_store su (resolve_op (i @ '':'' @ show_int (jr_attempt job)) ''abandoned''))
     (thenH (write_store su (transition_op i from Retrying (Some ''agent_lost'') (Some why)))
     (thenH (case decide_retry Transient (jr_attempt job) (jr_max_attempts job) of
               RD_RetryAfter seconds attempt \<Rightarrow>
                 thenH (write_store su (bump_attempt_op i))
                   (write_store su (transition_op i Retrying Eligible None None))
             | RD_DeadLetter reason \<Rightarrow>
                 write_store su (transition_op i Retrying DeadLettered (Some ''attempts_exhausted'') (Some reason))
             | RD_Permanent reason \<Rightarrow>
                 write_store su (transition_op i Retrying Failed (Some ''permanent'') (Some reason)))
       (release_slot i))))"

definition abandon :: "surroundings \<Rightarrow> string \<Rightarrow> string \<Rightarrow> unit pass" where
  "abandon su i why = requeue su i Assigned why"

section \<open>Reconciling\<close>

text \<open>An agent that cannot be read, or is not there, has no lease.\<close>

definition lease_of :: "surroundings \<Rightarrow> string option \<Rightarrow> ('b, server_error, i64 option) process" where
  "lease_of su agent_id = (case agent_id of
     None \<Rightarrow> retH None
   | Some a \<Rightarrow> bindH (read_db su (\<lambda>db. Inr (get_agent a db))) (\<lambda>r. retH (case r of
       Inl e \<Rightarrow> None | Inr found \<Rightarrow> Option.bind found ar_lease_expires)))"

definition may_be_installing :: "surroundings \<Rightarrow> job_record \<Rightarrow> ('b, server_error, bool) process" where
  "may_be_installing su job =
     (if jr_state job = Committing
      then bindH (read_db su (\<lambda>db. Inr (live_for_job (jr_id job) db))) (\<lambda>r. retH (case r of
             Inl e \<Rightarrow> False | Inr t \<Rightarrow> t \<noteq> None))
      else retH False)"

fun in_flight_jobs :: "surroundings \<Rightarrow> job_record list \<Rightarrow> ('b, server_error, in_flight_job list) process" where
  "in_flight_jobs su [] = retH []"
| "in_flight_jobs su (job # jobs) =
     bindH (may_be_installing su job) (\<lambda>live.
     bindH (lease_of su (jr_agent_id job)) (\<lambda>lease.
     bindH (in_flight_jobs su jobs) (\<lambda>rest.
       retH (\<lparr> if_job_id = jr_id job, if_state = jr_state job, if_agent_id = jr_agent_id job,
               if_lease_expires_unix = lease, if_has_live_intent = live \<rparr> # rest))))"

fun in_flight_states :: "surroundings \<Rightarrow> job_state list \<Rightarrow> ('b, server_error, in_flight_job list) process" where
  "in_flight_states su [] = retH []"
| "in_flight_states su (st # sts) =
     bindH (read_store su (in_state st queue_window)) (\<lambda>jobs.
     bindH (in_flight_jobs su jobs) (\<lambda>flights.
     bindH (in_flight_states su sts) (\<lambda>rest. retH (flights @ rest))))"

text \<open>An action that fails is passed over; an escalation is reported whether or not it was recorded.\<close>

fun apply_actions :: "surroundings \<Rightarrow> reconcile_action list \<Rightarrow> tick_outcome \<Rightarrow> tick_outcome pass" where
  "apply_actions su [] out = retH out"
| "apply_actions su (Requeue i from why # as) out =
     bindH (caught (requeue su i from why)) (\<lambda>r. case r of
       Inl e \<Rightarrow> apply_actions su as out
     | Inr u \<Rightarrow> apply_actions su as (out\<lparr> to_requeued := to_requeued out @ [i] \<rparr>))"
| "apply_actions su (Escalate i detail # as) out =
     bindH (submit su (transition_op i Committing NeedsOperator (Some ''ambiguous_commit'') (Some detail))) (\<lambda>r.
       apply_actions su as (out\<lparr> to_escalated := to_escalated out @ [i] \<rparr>))"
| "apply_actions su (ReleaseCapacity i # as) out =
     thenH (release_slot i) (apply_actions su as out)"

text \<open>A job that cannot be read counts as gone.\<close>

definition stranded :: "store_error + job_record \<Rightarrow> bool" where
  "stranded r = (case r of
     Inr job \<Rightarrow> if jr_state job = NeedsOperator then False else is_terminal (jr_state job)
   | Inl e \<Rightarrow> True)"

fun sweep_each :: "surroundings \<Rightarrow> intent_row list \<Rightarrow> tick_outcome \<Rightarrow> tick_outcome pass" where
  "sweep_each su [] out = retH out"
| "sweep_each su (t # ts) out =
     bindH (read_db su (get_job (it_job_id t))) (\<lambda>r.
     if \<not> stranded r then sweep_each su ts out
     else bindH (submit su (resolve_op (it_id t) ''swept'')) (\<lambda>w. case w of
            Inl e \<Rightarrow> sweep_each su ts out
          | Inr ack \<Rightarrow> if ack_rows ack = 0 then sweep_each su ts out
                      else sweep_each su ts (out\<lparr> to_swept := to_swept out @ [it_id t] \<rparr>)))"

definition sweep_stranded_intents :: "surroundings \<Rightarrow> tick_outcome \<Rightarrow> tick_outcome pass" where
  "sweep_stranded_intents su out =
     bindH (read_db su (\<lambda>db. Inr (live_intents db))) (\<lambda>r. case r of
       Inl e \<Rightarrow> retH out | Inr live \<Rightarrow> sweep_each su live out)"

definition reconcile_pass :: "orchestrator \<Rightarrow> surroundings \<Rightarrow> tick_outcome \<Rightarrow> tick_outcome pass" where
  "reconcile_pass oc su out =
     bindH (connected_ids su) (\<lambda>connected.
     bindH (in_flight_states su working_states) (\<lambda>flights.
     bindH (now_unix su) (\<lambda>now.
     bindH (apply_actions su (reconcile (oc_reconciler oc) flights connected now) out) (\<lambda>out.
       sweep_stranded_intents su out))))"

section \<open>The fleet and its capacity\<close>

text \<open>An agent whose capability document cannot be read is left out.\<close>

definition entry_of :: "documents \<Rightarrow> agent_record \<Rightarrow> agent_entry option" where
  "entry_of dx a = (case dx_capability dx (ar_capability_json a) of
     Inl e \<Rightarrow> None
   | Inr c \<Rightarrow> Some \<lparr> ae_id = ar_id a, ae_capability = c, ae_commit_eligible = ar_commit_eligible a,
       ae_accepting = (ar_admin_state a = ''Enabled''), ae_workarea_free_bytes = cap_workarea_free_bytes c \<rparr>)"

definition fleet_view :: "documents \<Rightarrow> surroundings \<Rightarrow> ('b, server_error, agent_entry list) process" where
  "fleet_view dx su =
     bindH (connected_ids su) (\<lambda>connected.
     bindH (read_store su (\<lambda>db. Inr (dispatchable db))) (\<lambda>agents.
       retH (List.map_filter (entry_of dx) (filter (\<lambda>a. ar_id a \<in> set connected) agents))))"

definition flight_of :: "job_record \<Rightarrow> flight option" where
  "flight_of job = (case jr_agent_id job of
     None \<Rightarrow> None
   | Some a \<Rightarrow> Some (a, jr_id job, \<lparr> gr_class = jr_class job, gr_size_bucket = jr_size_bucket job \<rparr>, jr_state job))"

definition rebuild_capacity :: "orchestrator \<Rightarrow> surroundings \<Rightarrow> agent_entry list \<Rightarrow> unit pass" where
  "rebuild_capacity oc su agents =
     bindH (read_states su working_states) (\<lambda>jobs s.
       (Reply (), s\<lparr> oc_ledger := fst (rebuild (List.map_filter flight_of jobs)
          (fold (\<lambda>a. set_limits (ae_id a) (oc_limits oc)) agents (oc_ledger s))) \<rparr>))"

text \<open>A job whose requirements cannot be read is not offered to anyone.\<close>

definition queued :: "documents \<Rightarrow> job_record \<Rightarrow> queued_job option" where
  "queued dx job = (case dx_requirements dx (jr_requirements_json job) of
     None \<Rightarrow> None
   | Some reqs \<Rightarrow> Some \<lparr> qj_id = jr_id job, qj_class = jr_class job, qj_size_bucket = jr_size_bucket job,
       qj_requirements = reqs, qj_bucket_key = jr_bucket_key job, qj_excluded_agents = [] \<rparr>)"

text \<open>The distinct rules that stop every agent; nothing while one of them still has a slot.\<close>

fun pause_sources :: "orchestrator \<Rightarrow> i64 \<Rightarrow> agent_entry list \<Rightarrow> string list \<Rightarrow> string list option" where
  "pause_sources oc now [] sources = Some sources"
| "pause_sources oc now (a # agents) sources =
     (case clock now of (weekday, minute) \<Rightarrow>
        (let limits = effective (oc_schedule oc) (ae_id a) (al_total_slots (oc_limits oc)) [] weekday minute now
         in if \<not> is_paused limits then None
            else pause_sources oc now agents
                   (if el_source limits \<in> set sources then sources else sources @ [el_source limits])))"

definition pause_reason :: "orchestrator \<Rightarrow> i64 \<Rightarrow> agent_entry list \<Rightarrow> string option" where
  "pause_reason oc now agents = (case pause_sources oc now agents [] of
     None \<Rightarrow> None | Some sources \<Rightarrow> if sources = [] then None else Some (join '', '' sources))"

fun block_every :: "documents \<Rightarrow> surroundings \<Rightarrow> job_record list \<Rightarrow> string \<Rightarrow> string \<Rightarrow> tick_outcome \<Rightarrow> tick_outcome pass" where
  "block_every dx su [] stage reason out = retH out"
| "block_every dx su (job # jobs) stage reason out =
     thenH (write_best_effort su (upsert_block_op (jr_id job) stage (Some (dx_reason_json dx reason))))
       (block_every dx su jobs stage reason (out\<lparr> to_blocked := to_blocked out @ [(jr_id job, stage)] \<rparr>))"

section \<open>Placing a job\<close>

definition sanitise_id :: "string \<Rightarrow> string" where
  "sanitise_id s = (let cleaned = map (\<lambda>c. if ascii_alnum c \<or> c = CHR ''-'' \<or> c = CHR ''_'' then c else CHR ''_'') s
     in if cleaned = [] then ''unnamed'' else cleaned)"

definition temp_path_for :: "string \<Rightarrow> string \<Rightarrow> string \<Rightarrow> i64 \<Rightarrow> path \<Rightarrow> path" where
  "temp_path_for work_dir agent_id job_id attempt final_path =
     (let ext = (case extension final_path of Some e \<Rightarrow> e | None \<Rightarrow> ''mkv'')
      in path_join (path_new work_dir) [Normal (sanitise_id agent_id @ ''.'' @ sanitise_id job_id @ ''.''
           @ show_int attempt @ ''.partial.'' @ ext)])"

definition agent_capability :: "documents \<Rightarrow> surroundings \<Rightarrow> string \<Rightarrow> string \<Rightarrow> ('b, server_error, capability) process" where
  "agent_capability dx su agent_id for_path =
     bindH (read_store su (\<lambda>db. Inr (get_agent agent_id db))) (\<lambda>found. case found of
       None \<Rightarrow> failH (V_ProbeFailed for_path (agent_id @ '' is not registered''))
     | Some a \<Rightarrow> (case dx_capability dx (ar_capability_json a) of
         Inl e \<Rightarrow> failH (V_ProbeFailed for_path (agent_id @ '' has an unreadable capability document: '' @ e))
       | Inr c \<Rightarrow> retH c))"

definition intent_for :: "job_record \<Rightarrow> string \<Rightarrow> i64 \<Rightarrow> string \<Rightarrow> path \<Rightarrow> new_intent" where
  "intent_for job agent_id epoch canonical temp = \<lparr> ni_id = jr_id job @ '':'' @ show_int (jr_attempt job),
     ni_job_id = jr_id job, ni_attempt = jr_attempt job, ni_agent_id = agent_id, ni_agent_uid = agent_id,
     ni_fencing_epoch = epoch, ni_source_path = canonical, ni_temp_path = path_display temp,
     ni_final_path = canonical, ni_content_sig = jr_content_sig job \<rparr>"

definition assignment_for :: "documents \<Rightarrow> job_record \<Rightarrow> i64 \<Rightarrow> string \<Rightarrow> job_paths \<Rightarrow> string list \<Rightarrow> validation_spec
    \<Rightarrow> job_assignment" where
  "assignment_for dx job epoch canonical paths argv vspec = \<lparr> ja_job_id = jr_id job, ja_attempt = u32_of_i64 (jr_attempt job),
     ja_fencing_epoch = u64_or_zero epoch, ja_source_path = jp_input paths, ja_final_path = canonical,
     ja_temp_path = jp_output paths, ja_argv = argv, ja_validation_spec_json = dx_spec_json dx vspec,
     ja_expected_content_sig = jr_content_sig job \<rparr>"

text \<open>The permission to replace the file, then the job's move, then the message.\<close>

definition hand_over :: "surroundings \<Rightarrow> job_record \<Rightarrow> string \<Rightarrow> i64 \<Rightarrow> string \<Rightarrow> path \<Rightarrow> job_assignment \<Rightarrow> unit pass" where
  "hand_over su job agent_id epoch canonical temp msg =
     thenH (write_store su (grant_op (intent_for job agent_id epoch canonical temp)))
     (thenH (if jr_state job = Pending then thenH (write_store su (transition_op (jr_id job) Pending Eligible None None)) (retH ())
             else retH ())
     (thenH (write_store su (assign_op (jr_id job) agent_id epoch))
     (bindH (on_fleet su (fleet_send agent_id (SM_Assignment msg))) (\<lambda>sent.
        if sent then retH ()
        else thenH (abandon su (jr_id job) ''the agent became unreachable'')
               (failH (V_ProbeFailed canonical (agent_id @ '' was unreachable when the assignment was sent'')))))))"

definition place_planned :: "orchestrator \<Rightarrow> documents \<Rightarrow> surroundings \<Rightarrow> job_record \<Rightarrow> string \<Rightarrow> string \<Rightarrow> string
    \<Rightarrow> encode_plan \<Rightarrow> validation_spec \<Rightarrow> unit pass" where
  "place_planned oc dx su job agent_id canonical work_dir plan vspec =
     bindH (on_fleet su (\<lambda>fl. (fleet_get agent_id fl, fl))) (\<lambda>conn. case conn of
       None \<Rightarrow> failH (V_ProbeFailed canonical (agent_id @ '' disconnected before the assignment was built''))
     | Some c \<Rightarrow>
         (let epoch = cd_fencing_epoch c;
              temp = temp_path_for work_dir agent_id (jr_id job) (jr_attempt job) (path_new canonical)
          in bindH (agent_capability dx su agent_id canonical) (\<lambda>cap.
             if cap_transport cap = Stream \<and> cap_workarea_path cap = []
             then failH (V_ProbeFailed canonical (agent_id @ '' streams but advertises no work area path; ''
                    @ ''it is too old to be sent translated argv''))
             else (let view = \<lparr> av_transport = cap_transport cap, av_platform = cap_platform cap,
                                av_workarea_path = cap_workarea_path cap \<rparr>;
                       paths = agent_job_paths view (jr_id job) (jr_attempt job) canonical (path_display temp)
                   in hand_over su job agent_id epoch canonical temp
                        (assignment_for dx job epoch canonical paths (build_ffmpeg_argv plan paths) vspec)))))"

definition place :: "orchestrator \<Rightarrow> documents \<Rightarrow> surroundings \<Rightarrow> job_record \<Rightarrow> string \<Rightarrow> unit pass" where
  "place oc dx su job agent_id =
     bindH (read_store su (get_file (jr_file_id job))) (\<lambda>file.
     bindH (read_store su (get_library (jr_library_id job))) (\<lambda>library.
     case fr_facts file of
       None \<Rightarrow> failH (V_ProbeFailed (fr_canonical_path file) ''no stored facts'')
     | Some facts \<Rightarrow>
         (let d = evaluate facts (oc_policy oc)
          in case encode_plan_for d of
               None \<Rightarrow> failH (V_ProbeFailed (fr_canonical_path file) (''current policy owes no work: '' @ de_reason d))
             | Some plan \<Rightarrow>
                 place_planned oc dx su job agent_id (fr_canonical_path file) (lr_work_dir library) plan
                   (validation_spec_for facts d))))"

section \<open>The tick\<close>

definition run_dispatcher :: "agent_entry list \<Rightarrow> queued_job list \<Rightarrow> dispatch_round pass" where
  "run_dispatcher agents jobs s =
     (case dispatch jobs (set_agents agents (oc_dispatcher s)) (oc_ledger s) of
        (rnd, d, l) \<Rightarrow> (Reply rnd, s\<lparr> oc_dispatcher := d, oc_ledger := l \<rparr>))"

fun record_blocked :: "documents \<Rightarrow> surroundings \<Rightarrow> blocked list \<Rightarrow> tick_outcome \<Rightarrow> tick_outcome pass" where
  "record_blocked dx su [] out = retH out"
| "record_blocked dx su (b # bs) out =
     thenH (write_best_effort su (upsert_block_op (bl_job_id b) (bl_stage b) (Some (dx_reason_json dx (bl_detail b)))))
       (record_blocked dx su bs (out\<lparr> to_blocked := to_blocked out @ [(bl_job_id b, bl_stage b)] \<rparr>))"

fun place_each :: "orchestrator \<Rightarrow> documents \<Rightarrow> surroundings \<Rightarrow> job_record list \<Rightarrow> assignment list \<Rightarrow> tick_outcome
    \<Rightarrow> tick_outcome pass" where
  "place_each oc dx su pending [] out = retH out"
| "place_each oc dx su pending (a # as) out =
     (case List.find (\<lambda>j. jr_id j = as_job_id a) pending of
        None \<Rightarrow> place_each oc dx su pending as out
      | Some job \<Rightarrow>
          bindH (caught (place oc dx su job (as_agent_id a))) (\<lambda>r. case r of
            Inr u \<Rightarrow> thenH (write_best_effort su (clear_block_op (jr_id job)))
              (place_each oc dx su pending as (out\<lparr> to_dispatched := to_dispatched out @ [jr_id job] \<rparr>))
          | Inl e \<Rightarrow> thenH (release_slot (jr_id job)) (place_each oc dx su pending as out)))"

definition dispatch_pending :: "orchestrator \<Rightarrow> documents \<Rightarrow> surroundings \<Rightarrow> agent_entry list \<Rightarrow> job_record list \<Rightarrow> tick_outcome
    \<Rightarrow> tick_outcome pass" where
  "dispatch_pending oc dx su agents pending out =
     bindH (run_dispatcher agents (List.map_filter (queued dx) pending)) (\<lambda>rnd.
     bindH (record_blocked dx su (dr_blocked rnd) out) (\<lambda>out.
       place_each oc dx su pending (dr_assignments rnd) out))"

definition orch_tick :: "orchestrator \<Rightarrow> documents \<Rightarrow> surroundings \<Rightarrow> tick_outcome pass" where
  "orch_tick oc dx su =
     bindH (reconcile_pass oc su no_outcome) (\<lambda>out.
     bindH (read_states su dispatchable_states) (\<lambda>pending.
     bindH (fleet_view dx su) (\<lambda>agents.
     if agents = [] then block_every dx su pending ''fleet'' ''no agent is connected to this server'' out
     else thenH (rebuild_capacity oc su agents)
       (bindH (now_unix su) (\<lambda>now. case pause_reason oc now agents of
          Some source \<Rightarrow> block_every dx su pending ''schedule'' (''dispatch is paused by '' @ source) out
        | None \<Rightarrow>
            if pending = [] then retH out
            else dispatch_pending oc dx su agents pending out)))))"

section \<open>Invariant\<close>

context guarded_server begin

lemma read_states_keeps: "keeps inv (read_states su sts)"
  by (induction sts) (auto intro!: keeps_intros read_store_keeps)

lemma lease_keeps: "keeps inv (lease_of su a)"
  unfolding lease_of_def by (intro keeps_intros read_keeps)

lemma may_be_installing_keeps: "keeps inv (may_be_installing su job)"
  unfolding may_be_installing_def by (intro keeps_intros read_keeps)

lemma in_flight_jobs_keeps: "keeps inv (in_flight_jobs su jobs)"
  by (induction jobs) (auto intro!: keeps_intros lease_keeps may_be_installing_keeps)

lemma in_flight_states_keeps: "keeps inv (in_flight_states su sts)"
  by (induction sts) (auto intro!: keeps_intros read_store_keeps in_flight_jobs_keeps)

lemma fleet_view_keeps: "keeps inv (fleet_view dx su)"
  unfolding fleet_view_def by (intro keeps_intros connected_keeps read_store_keeps)

lemma capability_keeps: "keeps inv (agent_capability dx su a p)"
  unfolding agent_capability_def by (intro keeps_intros read_store_keeps)

lemma message_keeps: "keeps inv (on_fleet su (fleet_send a m))"
  by (rule fleet_keeps[where x = "FS_Send a m"]) simp

lemmas pass_keeps = keeps_intros read_store_keeps write_store_keeps best_effort_keeps now_keeps read_states_keeps
  connected_keeps in_flight_states_keeps fleet_view_keeps capability_keeps message_keeps read_keeps submit_keeps

end

text \<open>The loop's own state is nobody else's.\<close>

lemma server_ok_ledger [simp]: "server_ok su (s\<lparr> oc_ledger := l \<rparr>) = server_ok su s" "server_ok su (s\<lparr> oc_dispatcher := d \<rparr>) = server_ok su s"
  by (simp_all add: server_ok_def)

lemma pass_ops [simp]: "transition_op i p q r d \<in> store_ops" "bump_attempt_op i \<in> store_ops" "resolve_op k how \<in> store_ops"
  "grant_op n \<in> store_ops" "assign_op i a e \<in> store_ops" "upsert_block_op i st dt \<in> store_ops" "clear_block_op i \<in> store_ops"
  by simp_all

lemmas orch_keeps = server_store.pass_keeps pass_ops

lemma keeps_release_slot: "keeps (server_ok su) (release_slot i)"
  by (simp add: spec_def release_slot_def)

lemma keeps_requeue: "keeps (server_ok su) (requeue su i from why)"
  unfolding requeue_def
  by (intro orch_keeps keeps_release_slot) (auto intro!: orch_keeps split: retry_decision.split)

lemma keeps_actions: "keeps (server_ok su) (apply_actions su as out)"
  by (induction su as out rule: apply_actions.induct) (auto intro!: orch_keeps keeps_release_slot keeps_requeue)

lemma keeps_sweep: "keeps (server_ok su) (sweep_stranded_intents su out)"
proof -
  have "keeps (server_ok su) (sweep_each su ts out)" for ts
    by (induction su ts out rule: sweep_each.induct) (auto intro!: orch_keeps)
  then show ?thesis unfolding sweep_stranded_intents_def by (intro orch_keeps)
qed

lemma keeps_reconcile: "keeps (server_ok su) (reconcile_pass oc su out)"
  unfolding reconcile_pass_def by (intro orch_keeps keeps_actions keeps_sweep)

lemma keeps_rebuild: "keeps (server_ok su) (rebuild_capacity oc su agents)"
  unfolding rebuild_capacity_def by (rule keeps_bind) (intro orch_keeps, simp add: spec_def)

lemma keeps_block_every: "keeps (server_ok su) (block_every dx su jobs stage reason out)"
  by (induction dx su jobs stage reason out rule: block_every.induct) (auto intro!: orch_keeps)

lemma keeps_record_blocked: "keeps (server_ok su) (record_blocked dx su bs out)"
  by (induction dx su bs out rule: record_blocked.induct) (auto intro!: orch_keeps)

lemma keeps_hand_over: "keeps (server_ok su) (hand_over su job a e c t m)"
  unfolding hand_over_def abandon_def by (intro orch_keeps keeps_requeue)

lemma keeps_place: "keeps (server_ok su) (place oc dx su job a)"
  unfolding place_def place_planned_def Let_def
  by (intro orch_keeps keeps_hand_over server_store.peek_keeps) simp

lemma keeps_place_each: "keeps (server_ok su) (place_each oc dx su pending as out)"
  by (induction oc dx su pending as out rule: place_each.induct)
    (auto intro!: orch_keeps keeps_place keeps_release_slot)

lemma keeps_dispatch: "keeps (server_ok su) (dispatch_pending oc dx su agents pending out)"
proof -
  have "keeps (server_ok su) (run_dispatcher agents jobs)" for jobs
    by (auto simp: spec_def run_dispatcher_def split: prod.split)
  then show ?thesis unfolding dispatch_pending_def by (intro orch_keeps keeps_record_blocked keeps_place_each)
qed

lemma keeps_tick: "keeps (server_ok su) (orch_tick oc dx su)"
  unfolding orch_tick_def
  by (intro orch_keeps keeps_reconcile keeps_block_every keeps_rebuild keeps_dispatch)

section \<open>Undisturbed steps\<close>

lemma resolve_live_one:
  assumes ok: "intents_ok db" and t: "t \<in> set (db_intents db)" "it_state t = ''live''"
    and run: "apply_op (resolve_op (it_id t) how) now db = (res, db')"
  shows "res = Inr (ack_of_rows 1)"
proof -
  define f where "f = (\<lambda>t :: intent_row. t\<lparr> it_state := ''resolved'', it_resolution := Some how,
                    it_resolved := Some (now * 1000), it_updated := now * 1000 \<rparr>)"
  have "intent_checks t" using ok t(1) by (simp add: intents_ok_def)
  then have "intent_checks (f t)" "it_final_path (f t) = it_final_path t" by (simp_all add: f_def intent_checks_def)
  from update_intent_one[where f = f, OF ok t this] run show ?thesis
    by (simp add: resolve_op_def apply_op_def op_run_new_op f_def[symmetric])
qed

definition live_rows :: "database \<Rightarrow> intent_row set" where
  "live_rows db = {t \<in> set (db_intents db). it_state t = ''live''}"


lemma sweep_each_calm:
  assumes "calm su" "store_ok (sv_db s)" "distinct (map it_id ts)" "set ts \<subseteq> live_rows (sv_db s)"
  shows "\<exists>t. sweep_each su ts out s
      = (Reply (out\<lparr> to_swept := to_swept out @ map it_id (filter (\<lambda>t. stranded (get_job (it_job_id t) (sv_db s))) ts) \<rparr>), t)
    \<and> live_rows (sv_db t) = live_rows (sv_db s) - {t \<in> set ts. stranded (get_job (it_job_id t) (sv_db s))}
    \<and> db_jobs (sv_db t) = db_jobs (sv_db s) \<and> sv_fleet t = sv_fleet s"
  using assms(2-4)
proof (induction ts arbitrary: s out)
  case Nil then show ?case by (simp add: retH_def)
next
  case (Cons x ts)
  let ?s1 = "s\<lparr> sv_calls := Suc (sv_calls s) \<rparr>" and ?bad = "\<lambda>t. stranded (get_job (it_job_id t) (sv_db s))"
  have ok: "intents_ok (sv_db s)" using Cons.prems(1) by (simp add: store_ok_def)
  have x: "x \<in> set (db_intents (sv_db s))" "it_state x = ''live''" using Cons.prems(3) by (auto simp: live_rows_def)
  show ?case
  proof (cases "?bad x")
    case False
    then have step: "sweep_each su (x # ts) out s = sweep_each su ts out ?s1"
      by (simp add: calm_read[OF assms(1)] handler_steps)
    have pre: "store_ok (sv_db ?s1)" "distinct (map it_id ts)" "set ts \<subseteq> live_rows (sv_db ?s1)" using Cons.prems by auto
    show ?thesis unfolding step using Cons.IH[OF pre, of out] False by auto
  next
    case True
    obtain res db where r: "apply_op (resolve_op (it_id x) ''swept'') (su_clock su (sv_calls ?s1)) (sv_db s) = (res, db)" by (metis prod.exhaust)
    have one: "res = Inr (ack_of_rows 1)" by (rule resolve_live_one[OF ok x r])
    obtain rows where d: "db = (sv_db s)\<lparr> db_intents := rows \<rparr>"
      and live: "live_rows db = {t \<in> live_rows (sv_db s). it_id t \<noteq> it_id x}"
      using resolve_effect[OF ok r] by (auto simp: live_rows_def)
    have uniq: "t = x" if "t \<in> live_rows (sv_db s)" "it_id t = it_id x" for t
      using that x ok by (auto simp: live_rows_def intents_ok_def distinct_map inj_on_def)
    have apart: "it_id y \<noteq> it_id x" if "y \<in> set ts" for y
      using Cons.prems(2) that by (metis distinct.simps(2) imageI list.set_map list.simps(9))
    have same: "get_job k db = get_job k (sv_db s)" for k by (simp add: d get_job_def)
    let ?s2 = "?s1\<lparr> sv_calls := Suc (Suc (sv_calls s)), sv_db := db \<rparr>" and ?out = "out\<lparr> to_swept := to_swept out @ [it_id x] \<rparr>"
    have step: "sweep_each su (x # ts) out s = sweep_each su ts ?out ?s2"
      using True r by (simp add: calm_read[OF assms(1)] calm_submit[OF assms(1)] handler_steps one ack_of_rows_def)
    have "store_ok db"
      using store_writes.apply_kept[of "resolve_op (it_id x) ''swept''" "sv_db s" "su_clock su (sv_calls ?s1)"] Cons.prems(1) r by simp
    then have pre: "store_ok (sv_db ?s2)" "distinct (map it_id ts)" "set ts \<subseteq> live_rows (sv_db ?s2)"
      using Cons.prems by (simp, simp) (use Cons.prems(3) apart in \<open>auto simp: live\<close>)
    have jobs: "db_jobs db = db_jobs (sv_db s)" by (simp add: d)
    obtain t where t: "sweep_each su ts ?out ?s2 = (Reply (?out\<lparr> to_swept := to_swept ?out @ map it_id (filter ?bad ts) \<rparr>), t)"
      "live_rows (sv_db t) = live_rows db - {t \<in> set ts. ?bad t}" "db_jobs (sv_db t) = db_jobs (sv_db s)" "sv_fleet t = sv_fleet s"
      using Cons.IH[OF pre, of ?out] by (simp add: same jobs) blast
    have rows: "live_rows db - {t \<in> set ts. ?bad t} = live_rows (sv_db s) - {t \<in> set (x # ts). ?bad t}"
      unfolding live using uniq True x(2) by (auto dest: apart)
    show ?thesis unfolding step t(1)
      by (rule exI[of _ t]) (simp add: t(2-4) rows True)
  qed
qed

text \<open>A job the rows still hold open keeps its intent, and so does one that waits for an operator.\<close>

definition finished_with :: "database \<Rightarrow> string \<Rightarrow> bool" where
  "finished_with db i \<longleftrightarrow>
     (\<forall>r \<in> set (db_jobs db). jt_id r = i \<longrightarrow> jt_state r \<in> {''Succeeded'', ''Failed'', ''Cancelled'', ''DeadLettered''})"

lemma stranded_iff:
  assumes "job_store_ok db"
  shows "stranded (get_job i db) = finished_with db i"
proof (cases "get_job i db")
  case (Inl e)
  then have "\<forall>r \<in> set (db_jobs db). jt_id r \<noteq> i" using assms get_job_row[OF assms] from_row_ok
    unfolding job_store_ok_def by (metis sum.distinct(1))
  then show ?thesis using Inl by (simp add: stranded_def finished_with_def)
next
  case (Inr j)
  then obtain r where r: "r \<in> set (db_jobs db)" "jt_id r = i" "from_row r = Inr j" by (rule get_job_Inr)
  then have "finished_with db i \<longleftrightarrow> jt_state r \<in> {''Succeeded'', ''Failed'', ''Cancelled'', ''DeadLettered''}"
    using assms by (auto simp: finished_with_def job_store_ok_def distinct_map inj_on_def)
  moreover have "jt_state r = job_state_as_str (jr_state j)" using r(3) by (drule_tac from_row_Inr) simp
  ultimately show ?thesis using Inr by (cases "jr_state j") (simp_all add: stranded_def is_terminal_def)
qed


lemma calm_fleet_kept:
  assumes "calm su"
  shows "keeps (\<lambda>s. sv_fleet s = fl) (read_db su f)" and "keeps (\<lambda>s. sv_fleet s = fl) (submit su op)"
  by (simp_all add: spec_def calm_read[OF assms] calm_submit[OF assms] split: prod.split)

lemma silent_read_store: "calm su \<Longrightarrow> keeps (\<lambda>s. sv_fleet s = fl) (read_store su f)"
  unfolding read_store_def by (intro keeps_intros calm_fleet_kept)

lemma silent_write_store: "calm su \<Longrightarrow> keeps (\<lambda>s. sv_fleet s = fl) (write_store su op)"
  unfolding write_store_def by (intro keeps_intros calm_fleet_kept)

lemma silent_release_slot: "keeps (\<lambda>s. sv_fleet s = fl) (release_slot i)"
  by (simp add: spec_def release_slot_def)

lemma silent_requeue: "calm su \<Longrightarrow> keeps (\<lambda>s. sv_fleet s = fl) (requeue su i from why)"
  unfolding requeue_def
  by (intro keeps_intros silent_read_store silent_write_store silent_release_slot)
    (auto intro!: keeps_intros silent_read_store silent_write_store split: retry_decision.split)

lemmas silent_intros = keeps_intros silent_read_store silent_write_store silent_requeue silent_release_slot calm_fleet_kept

lemma fleet_send_False: "fleet_send a m fl = (False, fl') \<Longrightarrow> fl' = fl"
  by (auto simp: fleet_send_def channel_send_def Let_def split: option.splits if_splits)

text \<open>Either the message went out, or the registry is as it was.\<close>

lemma hand_over_sends:
  assumes c: "calm su"
  shows "spec (\<lambda>s. sv_fleet s = fl) (hand_over su job a e p t m)
           (\<lambda>_ s. fleet_send a (SM_Assignment m) fl = (True, sv_fleet s)) (\<lambda>s. sv_fleet s = fl)"
proof -
  have tail: "spec (\<lambda>s. sv_fleet s = fl)
     (bindH (on_fleet su (fleet_send a (SM_Assignment m))) (\<lambda>sent. if sent then retH () else thenH (requeue su (jr_id job) Assigned ''the agent became unreachable'')
        (failH (V_ProbeFailed p (a @ '' was unreachable when the assignment was sent'')))))
     (\<lambda>_ s. fleet_send a (SM_Assignment m) fl = (True, sv_fleet s)) (\<lambda>s. sv_fleet s = fl)"
  proof (rule spec_bind[where Q = "\<lambda>sent s. fleet_send a (SM_Assignment m) fl = (sent, sv_fleet s)"])
    show "spec (\<lambda>s. sv_fleet s = fl) (on_fleet su (fleet_send a (SM_Assignment m)))
        (\<lambda>sent s. fleet_send a (SM_Assignment m) fl = (sent, sv_fleet s)) (\<lambda>s. sv_fleet s = fl)"
      by (auto simp: spec_def calm_fleet[OF c] split: prod.split)
    fix sent
    show "spec (\<lambda>s. fleet_send a (SM_Assignment m) fl = (sent, sv_fleet s))
        (if sent then retH () else thenH (requeue su (jr_id job) Assigned ''the agent became unreachable'')
           (failH (V_ProbeFailed p (a @ '' was unreachable when the assignment was sent''))))
        (\<lambda>_ s. fleet_send a (SM_Assignment m) fl = (True, sv_fleet s)) (\<lambda>s. sv_fleet s = fl)"
    proof (cases sent)
      case False
      have "spec (\<lambda>s. sv_fleet s = fl) (thenH (requeue su (jr_id job) Assigned ''the agent became unreachable'')
           (failH (V_ProbeFailed p (a @ '' was unreachable when the assignment was sent''))))
        (\<lambda>_ s. fleet_send a (SM_Assignment m) fl = (True, sv_fleet s)) (\<lambda>s. sv_fleet s = fl)"
        by (rule spec_then[OF silent_requeue[OF c]]) (rule spec_fail)
      then show ?thesis using False by (auto intro: spec_conseq dest: fleet_send_False)
    qed (simp add: spec_ret)
  qed
  have move: "keeps (\<lambda>s. sv_fleet s = fl) (if jr_state job = Pending
      then thenH (write_store su (transition_op (jr_id job) Pending Eligible None None)) (retH ()) else retH ())"
    by (intro silent_intros c)
  show ?thesis unfolding hand_over_def abandon_def
    by (rule spec_then[OF silent_write_store[OF c] spec_then[OF move spec_then[OF silent_write_store[OF c] tail]]])
qed


lemma granted:
  assumes "apply_op (grant_op n) now db = (Inr ack, db')"
  shows "db' = db\<lparr> db_intents := db_intents db @ [new_intent_row n (now * 1000)] \<rparr>"
  using assms by (auto simp: apply_op_def grant_op_def op_run_new_op insert_intent_def split: if_splits prod.splits sum.splits)

lemma assigned:
  assumes ok: "job_store_ok db" and get: "get_job i db = Inr j"
    and run: "apply_op (assign_op i a epoch) now db = (Inr ack, db')"
  shows "jr_state j = Eligible" and "db_intents db' = db_intents db"
    and "get_job i db' = Inr (j\<lparr> jr_state := Assigned, jr_agent_id := Some a, jr_fencing_epoch := epoch \<rparr>)"
proof -
  define f where "f = (\<lambda>r :: job_row. r\<lparr> jt_state := ''Assigned'', jt_agent_id := Some a, jt_fencing_epoch := epoch, jt_updated := now \<rparr>)"
  obtain n db1 where u: "update_job (\<lambda>r. jt_id r = i \<and> jt_state r = ''Eligible'') f db = Inr (n, db1)" "n \<noteq> 0"
    using run by (auto simp: f_def assign_op_def apply_op_def op_run_new_op split: sum.splits prod.splits if_splits)
  from u(2) obtain q where q: "q \<in> set (db_jobs db)" "jt_id q = i" "jt_state q = ''Eligible''"
    unfolding update_job_Inr(2)[OF u(1)] by (auto simp: filter_empty_conv)
  have "job_parents db (f q)" using update_job_Inr(3)[OF u(1)] q by simp
  then have agent: "a \<in> at_id ` set (db_agents db)" by (simp add: f_def job_parents_def)
  have "from_row q = Inr j" using get get_job_row[OF ok q(1)] q(2) by simp
  then have "job_state_as_str (jr_state j) = ''Eligible''" using from_row_Inr q(3) by simp
  then show e: "jr_state j = Eligible" by (cases "jr_state j") simp_all
  show "get_job i db' = Inr (j\<lparr> jr_state := Assigned, jr_agent_id := Some a, jr_fencing_epoch := epoch \<rparr>)"
    using assign_effect[OF ok get e agent run] by simp
  show "db_intents db' = db_intents db"
    using run by (auto simp: assign_op_def apply_op_def op_run_new_op dest!: update_job_Inr(1) insert_event_Inr(1)
      split: sum.splits prod.splits if_splits)
qed

lemma transitioned:
  assumes "apply_op (transition_op i p q why d) now db = (Inr ack, db')"
  shows "db_intents db' = db_intents db" and "db_agents db' = db_agents db"
  using assms by (auto simp: transition_op_def apply_op_def op_run_new_op dest!: update_job_Inr(1) insert_event_Inr(1)
      split: sum.splits prod.splits if_splits)


lemma move_to_eligible:
  assumes c: "calm su" and ok: "store_ok (sv_db s)" and get: "get_job (jr_id job) (sv_db s) = Inr job"
    and run: "(if jr_state job = Pending then thenH (write_store su (transition_op (jr_id job) Pending Eligible None None)) (retH ())
               else retH ()) s = (Reply u, s')"
  shows "store_ok (sv_db s') \<and> db_intents (sv_db s') = db_intents (sv_db s)
    \<and> get_job (jr_id job) (sv_db s') = Inr (if jr_state job = Pending then job\<lparr> jr_state := Eligible \<rparr> else job)"
proof (cases "jr_state job = Pending")
  case True
  have jok: "job_store_ok (sv_db s)" using ok by (simp add: store_ok_def)
  obtain ack t where w: "write_store su (transition_op (jr_id job) Pending Eligible None None) s = (Reply ack, t)" and t: "s' = t"
    using run True by (auto simp: retH_def dest!: thenH_Reply)
  note a = write_store_Reply[OF c w]
  have "can_transition Pending Eligible" by (simp add: can_transition_def is_terminal_def)
  then have "get_job (jr_id job) (sv_db t) = Inr (job\<lparr> jr_state := Eligible \<rparr>)"
    using transition_effect[OF jok get a] True by simp
  then show ?thesis using True transitioned[OF a] write_ok[OF ok _ a] by (simp add: t)
next
  case False then show ?thesis using run ok get by (simp add: retH_def)
qed

lemma handed_over:
  assumes c: "calm su" and ok: "store_ok (sv_db s)" and get: "get_job (jr_id job) (sv_db s) = Inr job"
    and run: "hand_over su job a e p tp m s = (Reply u, s')"
  shows "get_job (jr_id job) (sv_db s') = Inr (job\<lparr> jr_state := Assigned, jr_agent_id := Some a, jr_fencing_epoch := e \<rparr>)"
    and "\<exists>x \<in> live_rows (sv_db s'). it_id x = jr_id job @ '':'' @ show_int (jr_attempt job) \<and> it_job_id x = jr_id job
           \<and> it_agent_id x = a \<and> it_fencing_epoch x = e \<and> it_final_path x = p"
proof -
  let ?n = "intent_for job a e p tp"
  obtain k1 s1 where 1: "write_store su (grant_op ?n) s = (Reply k1, s1)"
    and r1: "thenH (if jr_state job = Pending then thenH (write_store su (transition_op (jr_id job) Pending Eligible None None)) (retH ())
               else retH ())
      (thenH (write_store su (assign_op (jr_id job) a e))
      (bindH (on_fleet su (fleet_send a (SM_Assignment m))) (\<lambda>sent.
        if sent then retH () else thenH (abandon su (jr_id job) ''the agent became unreachable'')
          (failH (V_ProbeFailed p (a @ '' was unreachable when the assignment was sent'')))))) s1 = (Reply u, s')"
    using thenH_Reply[OF run[unfolded hand_over_def]] by blast
  note a1 = write_store_Reply[OF c 1]
  note d1 = granted[OF a1]
  have ok1: "store_ok (sv_db s1)" using write_ok[OF ok _ a1] by simp
  have get1: "get_job (jr_id job) (sv_db s1) = Inr job" using get by (simp add: d1 get_job_def)
  obtain k2 s2 where 2: "(if jr_state job = Pending then thenH (write_store su (transition_op (jr_id job) Pending Eligible None None)) (retH ())
               else retH ()) s1 = (Reply k2, s2)"
    and r2: "thenH (write_store su (assign_op (jr_id job) a e))
      (bindH (on_fleet su (fleet_send a (SM_Assignment m))) (\<lambda>sent.
        if sent then retH () else thenH (abandon su (jr_id job) ''the agent became unreachable'')
          (failH (V_ProbeFailed p (a @ '' was unreachable when the assignment was sent''))))) s2 = (Reply u, s')"
    using thenH_Reply[OF r1] by blast
  note m = move_to_eligible[OF c ok1 get1 2]
  obtain k3 s3 where 3: "write_store su (assign_op (jr_id job) a e) s2 = (Reply k3, s3)"
    and r3: "bindH (on_fleet su (fleet_send a (SM_Assignment m))) (\<lambda>sent.
        if sent then retH () else thenH (abandon su (jr_id job) ''the agent became unreachable'')
          (failH (V_ProbeFailed p (a @ '' was unreachable when the assignment was sent'')))) s3 = (Reply u, s')"
    using thenH_Reply[OF r2] by blast
  note a3 = write_store_Reply[OF c 3]
  have j2: "job_store_ok (sv_db s2)" using m by (simp add: store_ok_def)
  have same: "sv_db s' = sv_db s3" using r3
    by (auto simp: calm_fleet[OF c] failH_def retH_def split: prod.splits if_splits dest!: bindH_Reply thenH_Reply)
  have st: "get_job (jr_id job) (sv_db s2) = Inr (job\<lparr> jr_state := Eligible \<rparr>)"
    using m assigned(1)[OF j2 _ a3] by (auto split: if_splits)
  show "get_job (jr_id job) (sv_db s') = Inr (job\<lparr> jr_state := Assigned, jr_agent_id := Some a, jr_fencing_epoch := e \<rparr>)"
    using assigned(3)[OF j2 st a3] by (simp add: same)
  have "new_intent_row ?n (su_clock su (sv_calls s) * 1000) \<in> live_rows (sv_db s')"
    using assigned(2)[OF j2 st a3] m by (simp add: same d1 live_rows_def new_intent_row_def)
  then show "\<exists>x \<in> live_rows (sv_db s'). it_id x = jr_id job @ '':'' @ show_int (jr_attempt job) \<and> it_job_id x = jr_id job
           \<and> it_agent_id x = a \<and> it_fencing_epoch x = e \<and> it_final_path x = p"
    by (rule rev_bexI) (simp add: new_intent_row_def intent_for_def)
qed


lemma bumped:
  assumes "apply_op (bump_attempt_op i) now db = (Inr ack, db')"
  shows "db_intents db' = db_intents db"
  using assms by (auto simp: bump_attempt_op_def apply_op_def op_run_new_op dest!: update_job_Inr(1)
      split: sum.splits prod.splits if_splits)

text \<open>What a delivered assignment comes with.\<close>

definition placed_whole :: "database \<Rightarrow> fleet \<Rightarrow> job_record \<Rightarrow> string \<Rightarrow> i64 \<Rightarrow> string \<Rightarrow> job_assignment \<Rightarrow> 'b server_scheme \<Rightarrow> bool" where
  "placed_whole db fl job a e p m s \<longleftrightarrow>
     get_job (jr_id job) (sv_db s) = Inr (job\<lparr> jr_state := Assigned, jr_agent_id := Some a, jr_fencing_epoch := e \<rparr>)
   \<and> (\<exists>x \<in> live_rows (sv_db s). it_id x = jr_id job @ '':'' @ show_int (jr_attempt job) \<and> it_job_id x = jr_id job
        \<and> it_agent_id x = a \<and> it_fencing_epoch x = e \<and> it_final_path x = p)
   \<and> fleet_send a (SM_Assignment m) fl = (True, sv_fleet s)"

lemma hand_over_spec:
  assumes c: "calm su" and ok: "store_ok db" and get: "get_job (jr_id job) db = Inr job"
  shows "spec (stands db fl) (hand_over su job a e p t m) (\<lambda>u. placed_whole db fl job a e p m) (\<lambda>s. sv_fleet s = fl)"
proof (rule specI)
  fix s r s' assume s: "stands db fl s" and run: "hand_over su job a e p t m s = (r, s')"
  have sent: "case r of Reply u \<Rightarrow> fleet_send a (SM_Assignment m) fl = (True, sv_fleet s') | _ \<Rightarrow> sv_fleet s' = fl"
    using specD[OF hand_over_sends[OF c] _ run] s by simp
  show "case r of Reply u \<Rightarrow> placed_whole db fl job a e p m s' | _ \<Rightarrow> sv_fleet s' = fl"
  proof (cases r)
    case (Reply u)
    have pre: "store_ok (sv_db s)" "get_job (jr_id job) (sv_db s) = Inr job" using s ok get by simp_all
    show ?thesis using sent handed_over[OF c pre run[unfolded Reply]] Reply by (simp add: placed_whole_def)
  qed (use sent in simp_all)
qed

lemma agent_capability_spec:
  "calm su \<Longrightarrow> spec (stands db fl) (agent_capability dx su a p) (\<lambda>cap s. stands db fl s) (\<lambda>s. sv_fleet s = fl)"
  by (auto simp: spec_def agent_capability_def calm_read_store bindH_def failH_def retH_def split: sum.split option.split)

lemma fleet_get_spec:
  "calm su \<Longrightarrow> spec (stands db fl) (on_fleet su (\<lambda>fl. (fleet_get a fl, fl))) (\<lambda>c s. stands db fl s \<and> c = fleet_get a fl) I"
  by (auto simp: spec_def calm_fleet)

lemma place_planned_spec:
  assumes c: "calm su" and ok: "store_ok db" and get: "get_job (jr_id job) db = Inr job"
  shows "spec (stands db fl) (place_planned oc dx su job a p w plan vs)
    (\<lambda>u s. \<exists>conn paths. fleet_get a fl = Some conn \<and> placed_whole db fl job a (cd_fencing_epoch conn) p
       (assignment_for dx job (cd_fencing_epoch conn) p paths (build_ffmpeg_argv plan paths) vs) s) (\<lambda>s. sv_fleet s = fl)"
  unfolding place_planned_def
proof (rule spec_bind[OF fleet_get_spec[OF c]], rule spec_pure, rule spec_option)
  fix found conn assume f: "found = fleet_get a fl" "found = Some conn"
  have conn: "fleet_get a fl = Some conn" using f by simp
  show "spec (stands db fl)
    (let epoch = cd_fencing_epoch conn;
         temp = temp_path_for w a (jr_id job) (jr_attempt job) (path_new p)
     in bindH (agent_capability dx su a p) (\<lambda>cap.
        if cap_transport cap = Stream \<and> cap_workarea_path cap = []
        then failH (V_ProbeFailed p (a @ '' streams but advertises no work area path; '' @ ''it is too old to be sent translated argv''))
        else (let view = \<lparr> av_transport = cap_transport cap, av_platform = cap_platform cap, av_workarea_path = cap_workarea_path cap \<rparr>;
                  paths = agent_job_paths view (jr_id job) (jr_attempt job) p (path_display temp)
              in hand_over su job a epoch p temp (assignment_for dx job epoch p paths (build_ffmpeg_argv plan paths) vs))))
    (\<lambda>u s. \<exists>conn paths. fleet_get a fl = Some conn \<and> placed_whole db fl job a (cd_fencing_epoch conn) p
       (assignment_for dx job (cd_fencing_epoch conn) p paths (build_ffmpeg_argv plan paths) vs) s) (\<lambda>s. sv_fleet s = fl)"
    unfolding Let_def
    by (rule spec_bind[OF agent_capability_spec[OF c]], rule spec_if, rule spec_fail, simp)
      (rule spec_conseq[OF hand_over_spec[OF c ok get]], assumption, use conn in blast, assumption)
qed (auto intro: spec_fail)


lemma place_spec:
  assumes c: "calm su" and ok: "store_ok db" and get: "get_job (jr_id job) db = Inr job"
  shows "spec (stands db fl) (place oc dx su job a)
    (\<lambda>u s. \<exists>conn row facts plan paths. fleet_get a fl = Some conn \<and> get_file (jr_file_id job) db = Inr row
       \<and> fr_facts row = Some facts \<and> encode_plan_for (evaluate facts (oc_policy oc)) = Some plan
       \<and> placed_whole db fl job a (cd_fencing_epoch conn) (fr_canonical_path row)
           (assignment_for dx job (cd_fencing_epoch conn) (fr_canonical_path row) paths (build_ffmpeg_argv plan paths)
              (validation_spec_for facts (evaluate facts (oc_policy oc)))) s) (\<lambda>s. sv_fleet s = fl)"
  unfolding place_def
proof (rule spec_bind[OF read_store_spec[OF c]], rule spec_pure, rule spec_bind[OF read_store_spec[OF c]], rule spec_pure, rule spec_option)
  fix row library facts assume row: "get_file (jr_file_id job) db = Inr row" and facts: "fr_facts row = Some facts"
  have planned: "spec (stands db fl) (place_planned oc dx su job a (fr_canonical_path row) (lr_work_dir library) plan
        (validation_spec_for facts (evaluate facts (oc_policy oc))))
     (\<lambda>u s. \<exists>conn row facts plan paths. fleet_get a fl = Some conn \<and> get_file (jr_file_id job) db = Inr row
       \<and> fr_facts row = Some facts \<and> encode_plan_for (evaluate facts (oc_policy oc)) = Some plan
       \<and> placed_whole db fl job a (cd_fencing_epoch conn) (fr_canonical_path row)
           (assignment_for dx job (cd_fencing_epoch conn) (fr_canonical_path row) paths (build_ffmpeg_argv plan paths)
              (validation_spec_for facts (evaluate facts (oc_policy oc)))) s) (\<lambda>s. sv_fleet s = fl)"
    if "encode_plan_for (evaluate facts (oc_policy oc)) = Some plan" for plan
    by (rule spec_conseq[OF place_planned_spec[OF c ok get]], assumption) (use that row facts in blast)+
  show "spec (stands db fl) (let d = evaluate facts (oc_policy oc)
          in case encode_plan_for d of
               None \<Rightarrow> failH (V_ProbeFailed (fr_canonical_path row) (''current policy owes no work: '' @ de_reason d))
             | Some plan \<Rightarrow> place_planned oc dx su job a (fr_canonical_path row) (lr_work_dir library) plan (validation_spec_for facts d))
     (\<lambda>u s. \<exists>conn row facts plan paths. fleet_get a fl = Some conn \<and> get_file (jr_file_id job) db = Inr row
       \<and> fr_facts row = Some facts \<and> encode_plan_for (evaluate facts (oc_policy oc)) = Some plan
       \<and> placed_whole db fl job a (cd_fencing_epoch conn) (fr_canonical_path row)
           (assignment_for dx job (cd_fencing_epoch conn) (fr_canonical_path row) paths (build_ffmpeg_argv plan paths)
              (validation_spec_for facts (evaluate facts (oc_policy oc)))) s) (\<lambda>s. sv_fleet s = fl)"
    unfolding Let_def by (rule spec_option, rule spec_fail, simp) (rule planned)
qed (auto intro: spec_fail)

section \<open>Properties\<close>

text \<open>
  C32. A placement is whole or unsent. In an undisturbed server, placing a job that is as the store has
  it either delivers the assignment, and then the job is recorded as assigned to that agent under the
  epoch of its connection, a live intent of this attempt holds the file's path for that agent and
  epoch, and the message carries the plan and the checks the current policy gives for the file; or
  nothing is put on any agent's queue.
\<close>

theorem placement_whole_or_unsent:
  assumes "calm su" "server_ok su s" "get_job (jr_id job) (sv_db s) = Inr job" "place oc dx su job agent s = (r, s')"
  shows "if r = Reply ()
         then (\<exists>conn row facts plan paths m.
            fleet_get agent (sv_fleet s) = Some conn \<and> get_file (jr_file_id job) (sv_db s) = Inr row
          \<and> fr_facts row = Some facts \<and> encode_plan_for (evaluate facts (oc_policy oc)) = Some plan
          \<and> m = assignment_for dx job (cd_fencing_epoch conn) (fr_canonical_path row) paths (build_ffmpeg_argv plan paths)
                  (validation_spec_for facts (evaluate facts (oc_policy oc)))
          \<and> fleet_send agent (SM_Assignment m) (sv_fleet s) = (True, sv_fleet s')
          \<and> get_job (jr_id job) (sv_db s')
              = Inr (job\<lparr> jr_state := Assigned, jr_agent_id := Some agent, jr_fencing_epoch := cd_fencing_epoch conn \<rparr>)
          \<and> (\<exists>t. live_for_path (fr_canonical_path row) (sv_db s') = Some t \<and> it_job_id t = jr_id job
               \<and> it_id t = jr_id job @ '':'' @ show_int (jr_attempt job)
               \<and> it_agent_id t = agent \<and> it_fencing_epoch t = cd_fencing_epoch conn))
         else sv_fleet s' = sv_fleet s"
proof -
  have ok: "store_ok (sv_db s)" using assms(2) by (simp add: server_ok_def)
  have "server_ok su s'" using keepsD[OF keeps_place assms(2)] assms(4) by (metis snd_conv)
  then have i: "intents_ok (sv_db s')" by (simp add: server_ok_def store_ok_def)
  note p = specD[OF place_spec[OF assms(1) ok assms(3), of "sv_fleet s"] _ assms(4), simplified]
  show ?thesis
  proof (cases r)
    case (Reply u)
    then obtain conn row facts plan paths where x: "fleet_get agent (sv_fleet s) = Some conn" "get_file (jr_file_id job) (sv_db s) = Inr row"
      "fr_facts row = Some facts" "encode_plan_for (evaluate facts (oc_policy oc)) = Some plan"
      "placed_whole (sv_db s) (sv_fleet s) job agent (cd_fencing_epoch conn) (fr_canonical_path row)
         (assignment_for dx job (cd_fencing_epoch conn) (fr_canonical_path row) paths (build_ffmpeg_argv plan paths)
              (validation_spec_for facts (evaluate facts (oc_policy oc)))) s'" using p by auto
    from x(5) obtain t where t: "t \<in> live_rows (sv_db s')" "it_id t = jr_id job @ '':'' @ show_int (jr_attempt job)"
      "it_job_id t = jr_id job" "it_agent_id t = agent" "it_fencing_epoch t = cd_fencing_epoch conn" "it_final_path t = fr_canonical_path row"
      unfolding placed_whole_def by blast
    have "live_for_path (fr_canonical_path row) (sv_db s') = Some t"
      using t live_for_path_iff[OF i] by (auto simp: live_rows_def live_intents_def)
    then show ?thesis using Reply x t unfolding placed_whole_def by auto
  qed (use p in simp_all)
qed


lemma live_rows_set: "live_rows db = set (live_intents db)"
  by (auto simp: live_rows_def live_intents_def)

text \<open>
  C34. The sweep frees exactly what nothing will come back for. In an undisturbed server it replies
  with the identifiers of the live intents whose job is gone, succeeded, failed, was cancelled or
  dead-lettered; afterwards the live intents are the others, so that a job in flight or waiting for an
  operator keeps its destination; jobs and queues are untouched.
\<close>

theorem sweep_frees_exactly_stranded:
  assumes "calm su" "server_ok su s"
  shows "\<exists>t. sweep_stranded_intents su out s
      = (Reply (out\<lparr> to_swept := to_swept out
           @ map it_id (filter (\<lambda>x. finished_with (sv_db s) (it_job_id x)) (live_intents (sv_db s))) \<rparr>), t)
    \<and> set (live_intents (sv_db t)) = {x \<in> set (live_intents (sv_db s)). \<not> finished_with (sv_db s) (it_job_id x)}
    \<and> db_jobs (sv_db t) = db_jobs (sv_db s) \<and> sv_fleet t = sv_fleet s"
proof -
  let ?s = "s\<lparr> sv_calls := Suc (sv_calls s) \<rparr>"
  have ok: "store_ok (sv_db s)" using assms(2) by (simp add: server_ok_def)
  then have j: "job_store_ok (sv_db s)" and i: "intents_ok (sv_db s)" by (simp_all add: store_ok_def)
  have d: "distinct (map it_id (live_intents (sv_db s)))"
    using i by (simp add: live_intents_def intents_ok_def distinct_map inj_on_def)
  have "sweep_stranded_intents su out s = sweep_each su (live_intents (sv_db s)) out ?s"
    by (simp add: sweep_stranded_intents_def bindH_def calm_read[OF assms(1)])
  with sweep_each_calm[OF assms(1), of ?s "live_intents (sv_db s)" out] ok d show ?thesis
    by (auto simp: live_rows_set stranded_iff[OF j])
qed

text \<open>
  C33. A lost agent's job is queued again, or retired, never left behind. In an undisturbed server,
  requeueing a job in flight always completes: while attempts remain the job is eligible with the next
  attempt number, otherwise it is dead-lettered; the attempt it lost holds no destination any more, no
  agent is told anything, and the slot is free.
\<close>

theorem requeue_returns_or_retires:
  assumes "calm su" "server_ok su s" "get_job i (sv_db s) = Inr j" "holds_capacity (jr_state j)"
    and "requeue su i (jr_state j) why s = (r, s')"
  shows "r = Reply ()
    \<and> (if jr_attempt j + 1 < jr_max_attempts j
        then get_job i (sv_db s') = Inr (j\<lparr> jr_state := Eligible, jr_terminal_reason := Some ''agent_lost'', jr_attempt := jr_attempt j + 1 \<rparr>)
        else get_job i (sv_db s') = Inr (j\<lparr> jr_state := DeadLettered, jr_terminal_reason := Some ''attempts_exhausted'' \<rparr>))
    \<and> set (live_intents (sv_db s')) = {x \<in> set (live_intents (sv_db s)). it_id x \<noteq> i @ '':'' @ show_int (jr_attempt j)}
    \<and> sv_fleet s' = sv_fleet s \<and> oc_ledger s' = snd (release i (oc_ledger s))"
proof -
  note c = assms(1) and get = assms(3)
  have ok: "store_ok (sv_db s)" using assms(2) by (simp add: server_ok_def)
  have i: "intents_ok (sv_db s)" using ok by (simp add: store_ok_def)
  have jok: "job_store_ok db" if "store_ok db" for db using that by (simp add: store_ok_def)
  define k where "k = sv_calls s"
  obtain r1 db1 where 1: "apply_op (resolve_op (i @ '':'' @ show_int (jr_attempt j)) ''abandoned'') (su_clock su (Suc k)) (sv_db s) = (r1, db1)" by (metis prod.exhaust)
  note e1 = resolve_effect[OF i 1]
  have ok1: "store_ok db1" by (rule write_ok[OF ok _ 1]) simp
  have get1: "get_job i db1 = Inr j" using e1 get by (auto simp: get_job_def)
  obtain r2 db2 where 2: "apply_op (transition_op i (jr_state j) Retrying (Some ''agent_lost'') (Some why)) (su_clock su (Suc (Suc k))) db1 = (r2, db2)" by (metis prod.exhaust)
  have "can_transition (jr_state j) Retrying" using assms(4) by (auto simp: holds_capacity_def can_transition_def is_terminal_def)
  then have e2: "r2 = Inr (ack_of_rows 1)" "get_job i db2 = Inr (j\<lparr> jr_state := Retrying, jr_terminal_reason := Some ''agent_lost'' \<rparr>)"
    using transition_effect[OF jok[OF ok1] get1 2] by simp_all
  have ok2: "store_ok db2" by (rule write_ok[OF ok1 _ 2]) simp
  have i2: "db_intents db2 = db_intents db1" using transitioned 2 e2(1) by blast
  show ?thesis
  proof (cases "jr_attempt j + 1 < jr_max_attempts j")
    case True
    obtain r3 db3 where 3: "apply_op (bump_attempt_op i) (su_clock su (Suc (Suc (Suc k)))) db2 = (r3, db3)" by (metis prod.exhaust)
    note e3 = bump_effect[OF jok[OF ok2] e2(2) 3]
    have ok3: "store_ok db3" by (rule write_ok[OF ok2 _ 3]) simp
    obtain r4 db4 where 4: "apply_op (transition_op i Retrying Eligible None None) (su_clock su (Suc (Suc (Suc (Suc k))))) db3 = (r4, db4)" by (metis prod.exhaust)
    have get3: "get_job i db3 = Inr (j\<lparr> jr_state := Retrying, jr_terminal_reason := Some ''agent_lost'', jr_attempt := jr_attempt j + 1 \<rparr>)"
      using e3 by simp
    have "can_transition Retrying Eligible" by (simp add: can_transition_def is_terminal_def)
    then have e4: "r4 = Inr (ack_of_rows 1)" "get_job i db4 = Inr (j\<lparr> jr_state := Eligible, jr_terminal_reason := Some ''agent_lost'', jr_attempt := jr_attempt j + 1 \<rparr>)"
      using transition_effect[OF jok[OF ok3] get3 4] by simp_all
    have i4: "db_intents db4 = db_intents db3" using transitioned 4 e4(1) by blast
    have i3: "db_intents db3 = db_intents db2" using 3 bumped e3 by blast
    obtain secs n where dec: "decide_retry Transient (jr_attempt j) (jr_max_attempts j) = RD_RetryAfter secs n"
      using True by (simp add: decide_retry_def Let_def)
    have "r = Reply () \<and> sv_db s' = db4 \<and> sv_fleet s' = sv_fleet s \<and> oc_ledger s' = snd (release i (oc_ledger s))"
      using assms(5) get 1 2 3 4 e1 e2(1) e3 e4(1) dec
      by (auto simp: requeue_def thenH_def bindH_def calm_read_store[OF c] calm_write_store[OF c] k_def release_slot_def)
    then show ?thesis using True e4(2) i4 i3 i2 e1 by (simp add: live_rows_set[symmetric] live_rows_def)
  next
    case False
    obtain reason where dec: "decide_retry Transient (jr_attempt j) (jr_max_attempts j) = RD_DeadLetter reason"
      using False by (simp add: decide_retry_def Let_def)
    obtain r3 db3 where 3: "apply_op (transition_op i Retrying DeadLettered (Some ''attempts_exhausted'') (Some reason)) (su_clock su (Suc (Suc (Suc k)))) db2 = (r3, db3)" by (metis prod.exhaust)
    have "can_transition Retrying DeadLettered" by (simp add: can_transition_def is_terminal_def)
    then have e3: "r3 = Inr (ack_of_rows 1)" "get_job i db3 = Inr (j\<lparr> jr_state := DeadLettered, jr_terminal_reason := Some ''attempts_exhausted'' \<rparr>)"
      using transition_effect[OF jok[OF ok2] e2(2) 3] by simp_all
    have i3: "db_intents db3 = db_intents db2" using transitioned 3 e3(1) by blast
    have "r = Reply () \<and> sv_db s' = db3 \<and> sv_fleet s' = sv_fleet s \<and> oc_ledger s' = snd (release i (oc_ledger s))"
      using assms(5) get 1 2 3 e1 e2(1) e3(1) dec
      by (auto simp: requeue_def thenH_def bindH_def calm_read_store[OF c] calm_write_store[OF c] k_def release_slot_def)
    then show ?thesis using False e3(2) i3 i2 e1 by (simp add: live_rows_set[symmetric] live_rows_def)
  qed
qed



section \<open>Samples\<close>

definition loop_on :: "database \<Rightarrow> unit orchestrated_ext server_scheme" where
  "loop_on db = \<lparr> sv_db = db, sv_fleet = sv_fleet sample_server, sv_world = sv_world sample_server, sv_calls = 0,
     oc_dispatcher = new_dispatcher, oc_ledger = new_ledger \<rparr>"

lemma loop_on_ok: "server_ok undisturbed (loop_on (sv_db sample_server))"
  using sample_server_ok(2) by (simp add: server_ok_def loop_on_def)

definition cancelled_steps :: "(i64 \<times> write_op) list" where
  "cancelled_steps = [(50, transition_op ''j'' Assigned Cancelled None None)]"

lemma cancelled_ok: "server_ok undisturbed (loop_on (run_writes cancelled_steps (sv_db sample_server)))"
  using sample_server_ok(2) store_writes.run_kept[of cancelled_steps "sv_db sample_server"]
  by (simp add: server_ok_def loop_on_def cancelled_steps_def)

lemma sweep_frees_exactly_stranded_witness:
  "\<exists>t. sweep_stranded_intents undisturbed no_outcome (loop_on (run_writes cancelled_steps (sv_db sample_server)))
     = (Reply (no_outcome\<lparr> to_swept := [''j:0''] \<rparr>), t) \<and> live_intents (sv_db t) = []"
proof -
  let ?db = "run_writes cancelled_steps (sv_db sample_server)"
  have live: "map it_id (live_intents ?db) = [''j:0'']" "\<forall>x \<in> set (live_intents ?db). finished_with ?db (it_job_id x)"
    by (simp_all add: cancelled_steps_def sample_server_def sample_ledger_steps_def grant_op_def insert_intent_def intent_checks_def
      new_intent_row_def sample_intent_def run_sample live_intents_def finished_with_def)
  then have f: "filter (\<lambda>x. finished_with ?db (it_job_id x)) (live_intents ?db) = live_intents ?db" by (simp add: filter_id_conv)
  have n: "{x \<in> set (live_intents ?db). \<not> finished_with ?db (it_job_id x)} = {}" using live(2) by blast
  obtain t where "sweep_stranded_intents undisturbed no_outcome (loop_on ?db)
      = (Reply (no_outcome\<lparr> to_swept := to_swept no_outcome @ map it_id (live_intents ?db) \<rparr>), t)"
    "set (live_intents (sv_db t)) = {}"
    using sweep_frees_exactly_stranded[OF sample_server_ok(1) cancelled_ok, of no_outcome, unfolded loop_on_def server.simps f n]
    unfolding loop_on_def by blast
  then show ?thesis unfolding live(1) by (simp only: set_empty) (simp add: no_outcome_def)
qed

lemma requeue_returns_or_retires_witness:
  "\<exists>s' j. requeue undisturbed ''j'' Assigned ''gone'' (loop_on (sv_db sample_server)) = (Reply (), s')
     \<and> get_job ''j'' (sv_db s') = Inr j \<and> jr_state j = Eligible \<and> jr_attempt j = 1"
proof -
  obtain j where j: "get_job ''j'' (sv_db sample_server) = Inr j" "jr_state j = Assigned" "jr_attempt j = 0" "jr_max_attempts j = 3"
    using sample_server_job by blast
  obtain r s' where run: "requeue undisturbed ''j'' (jr_state j) ''gone'' (loop_on (sv_db sample_server)) = (r, s')" by (metis prod.exhaust)
  have "get_job ''j'' (sv_db (loop_on (sv_db sample_server))) = Inr j" "holds_capacity (jr_state j)"
    using j by (simp_all add: loop_on_def holds_capacity_def)
  from requeue_returns_or_retires[OF sample_server_ok(1) loop_on_ok this run] j run show ?thesis by simp
qed

definition no_documents :: documents where
  "no_documents = \<lparr> dx_capability = (\<lambda>s. Inr default_capability), dx_requirements = (\<lambda>s. Some []),
     dx_spec_json = (\<lambda>v. ''{}''), dx_reason_json = (\<lambda>s. s) \<rparr>"

definition sample_orchestrator :: orchestrator where
  "sample_orchestrator = \<lparr> oc_policy = default_space_saver, oc_limits = flat_limits 1 1, oc_schedule = new_engine,
     oc_reconciler = default_reconciler \<rparr>"



text \<open>A placement that nothing stands in the way of is delivered.\<close>

lemma hand_over_delivers:
  assumes c: "calm su" and ok: "store_ok (sv_db s)" and get: "get_job (jr_id job) (sv_db s) = Inr job"
    and st: "jr_state job = Pending \<or> jr_state job = Eligible" and agent: "a \<in> at_id ` set (db_agents (sv_db s))"
    and free: "jr_id job @ '':'' @ show_int (jr_attempt job) \<notin> it_id ` set (db_intents (sv_db s))" "live_for_path p (sv_db s) = None"
    and send: "fleet_send a (SM_Assignment m) (sv_fleet s) = (True, fl)"
  shows "\<exists>s'. hand_over su job a e p t m s = (Reply (), s')"
proof -
  let ?n = "intent_for job a e p t" and ?k = "sv_calls s"
  have jok: "job_store_ok db" if "store_ok db" for db using that by (simp add: store_ok_def)
  have known: "jr_id job \<in> jt_id ` set (db_jobs (sv_db s))" using get_job_Inr[OF get] by (metis imageI)
  define db1 where "db1 = (sv_db s)\<lparr> db_intents := db_intents (sv_db s) @ [new_intent_row ?n (su_clock su ?k * 1000)] \<rparr>"
  have 1: "apply_op (grant_op ?n) (su_clock su ?k) (sv_db s) = (Inr (ack_of_rows 1), db1)"
    unfolding db1_def by (rule grant_effect) (use free known in \<open>simp_all add: intent_for_def\<close>)
  have ok1: "store_ok db1" by (rule write_ok[OF ok _ 1]) simp
  have get1: "get_job (jr_id job) db1 = Inr job" using get by (simp add: db1_def get_job_def)
  have agent1: "a \<in> at_id ` set (db_agents db1)" using agent by (simp add: db1_def)
  have t: "can_transition Pending Eligible" by (simp add: can_transition_def is_terminal_def)
  have out: "fst (fleet_send a (SM_Assignment m) (sv_fleet s))" using send by simp
  show ?thesis
  proof (cases "jr_state job = Pending")
    case True
    obtain r2 db2 where 2: "apply_op (transition_op (jr_id job) Pending Eligible None None) (su_clock su (Suc ?k)) db1 = (r2, db2)" by (metis prod.exhaust)
    have e2: "r2 = Inr (ack_of_rows 1)" "get_job (jr_id job) db2 = Inr (job\<lparr> jr_state := Eligible \<rparr>)"
      using transition_effect[OF jok[OF ok1] get1 2] True t by simp_all
    have ok2: "store_ok db2" by (rule write_ok[OF ok1 _ 2]) simp
    have agent2: "a \<in> at_id ` set (db_agents db2)" using transitioned(2) 2 e2(1) agent1 by metis
    obtain r3 db3 where 3: "apply_op (assign_op (jr_id job) a e) (su_clock su (Suc (Suc ?k))) db2 = (r3, db3)" by (metis prod.exhaust)
    have e3: "r3 = Inr (ack_of_rows 1)" using assign_effect[OF jok[OF ok2] e2(2) _ agent2 3] by simp
    show ?thesis using True 1 2 3 e2(1) e3 send
      by (simp add: hand_over_def thenH_def bindH_def calm_write_store[OF c] calm_fleet[OF c] retH_def)
  next
    case False
    then have e: "jr_state job = Eligible" using st by simp
    obtain r3 db3 where 3: "apply_op (assign_op (jr_id job) a e) (su_clock su (Suc ?k)) db1 = (r3, db3)" by (metis prod.exhaust)
    have e3: "r3 = Inr (ack_of_rows 1)" using assign_effect[OF jok[OF ok1] get1 e agent1 3] by simp
    show ?thesis using False 1 3 e3 send
      by (simp add: hand_over_def thenH_def bindH_def calm_write_store[OF c] calm_fleet[OF c] retH_def)
  qed
qed

definition placeable_facts :: file_facts where
  "placeable_facts = Facts.sample_facts\<lparr> ff_duration_us := None \<rparr>"

definition placeable_store :: database where
  "placeable_store = run_writes [(10, create_op sample_new_job), (20, record_probe_op 1 placeable_facts ''s'' Small ''{}'' ''t'')]
     (empty_database [sample_file] [sample_library] [Database.sample_agent])"

lemma placeable_ok: "store_ok placeable_store"
  unfolding placeable_store_def by (rule store_writes.run_kept[OF _ sample_store_ok]) simp

lemma placeable_job: "\<exists>j. get_job ''j'' placeable_store = Inr j \<and> jr_id j = ''j'' \<and> jr_state j = Pending \<and> jr_file_id j = 1 \<and> jr_library_id j = ''l''"
  using job_class_spelling.parse_eq_Some[of "''Audio''" JC_Audio]
    size_bucket_spelling.parse_eq_Some[of "''Small''" Small]
    job_state_spelling.parse_eq_Some[of "''Pending''" Pending]
  by (simp add: placeable_store_def record_probe_op_def update_file_def run_sample)

lemma placeable_rows: "db_libraries placeable_store = [sample_library]" "db_agents placeable_store = [Database.sample_agent]" "db_intents placeable_store = []"
  by (simp_all add: placeable_store_def record_probe_op_def update_file_def run_sample)

lemma placeable_file: "\<exists>f. get_file 1 placeable_store = Inr f \<and> fr_facts f = Some (stored_facts placeable_facts (fr_size_bytes f))"
proof -
  let ?db = "run_writes [(10, create_op sample_new_job)] (empty_database [sample_file] [sample_library] [Database.sample_agent])"
  have "store_ok ?db" by (rule store_writes.run_kept[OF _ sample_store_ok]) simp
  then have "files_ok ?db" by (simp add: store_ok_def)
  moreover have "1 \<in> ft_id ` set (db_files ?db)" by (simp add: run_sample)
  moreover have "plain_facts placeable_facts" by (simp add: plain_facts_def placeable_facts_def Facts.sample_facts_def)
  moreover have "placeable_store = snd (apply_op (record_probe_op 1 placeable_facts ''s'' Small ''{}'' ''t'') 20 ?db)"
    by (simp add: placeable_store_def run_writes_def)
  ultimately show ?thesis using facts_roundtrip by metis
qed

lemma placeable_plan: "\<exists>plan. encode_plan_for (evaluate (stored_facts placeable_facts n) default_space_saver) = Some plan"
proof -
  let ?f = "stored_facts placeable_facts n"
  have x: "\<not> is_excluded ?f" by (simp add: is_excluded_def placeable_facts_def Facts.sample_facts_def stored_facts_def)
  have m: "needs_audio_conversion ?f" by (simp add: needs_audio_conversion_any placeable_facts_def Facts.sample_facts_def stored_facts_def)
  have v: "saver_video ?f = None" by (simp add: saver_video_def placeable_facts_def Facts.sample_facts_def stored_facts_def)
  have "stages_of (evaluate ?f default_space_saver) = (DC_Audio, Some \<lparr> ap_codec = Eac3, ap_bitrate = ''640k'' \<rparr>, None)"
    by (subst default_space_saver_decides[OF x]) (simp add: m v class_of_stages_def)
  then show ?thesis by (simp add: stages_of_def encode_plan_for_def)
qed

lemma placeable_loop_ok: "server_ok undisturbed (loop_on placeable_store)"
  using sample_server_ok(2) placeable_ok by (simp add: server_ok_def loop_on_def)

lemma placeable_delivered:
  assumes "get_job ''j'' placeable_store = Inr j" "jr_id j = ''j''" "jr_state j = Pending" "jr_file_id j = 1" "jr_library_id j = ''l''"
  shows "\<exists>s'. place sample_orchestrator no_documents undisturbed j ''a'' (loop_on placeable_store) = (Reply (), s')"
proof -
  note c = sample_server_ok(1)
  obtain f where f: "get_file 1 placeable_store = Inr f" "fr_facts f = Some (stored_facts placeable_facts (fr_size_bytes f))" using placeable_file by blast
  obtain plan where p: "encode_plan_for (evaluate (stored_facts placeable_facts (fr_size_bytes f)) default_space_saver) = Some plan"
    using placeable_plan by blast
  have conn: "\<exists>conn. fleet_get ''a'' (sv_fleet sample_server) = Some conn \<and> (\<exists>fl. fleet_send ''a'' m (sv_fleet sample_server) = (True, fl))" for m
    by (simp add: sample_server_def fleet_connect_def fleet_get_def fleet_send_def channel_send_def channel_at_def empty_fleet_def Let_def outbound_depth_def)
  have hand: "\<exists>s'. hand_over undisturbed j ''a'' e q t m ((loop_on placeable_store)\<lparr> sv_calls := k \<rparr>) = (Reply (), s')" for e q t m k
    using conn[of "SM_Assignment m"] assms placeable_ok
    by (auto intro!: hand_over_delivers[OF c] simp: loop_on_def placeable_rows live_for_path_def query_row_def)
  obtain l a where rows: "get_library ''l'' placeable_store = Inr l" "get_agent ''a'' placeable_store = Some a"
    by (simp add: get_library_def get_agent_def placeable_rows query_row_def)
  obtain cn where cn: "fleet_get ''a'' (sv_fleet sample_server) = Some cn" using conn by blast
  have mount: "cap_transport default_capability = Mount" by (simp add: default_capability_def)
  show ?thesis
    using f p hand assms(4,5) rows cn mount
    by (simp add: place_def bindH_def calm_read_store[OF c] place_planned_def calm_fleet[OF c] agent_capability_def
        sample_orchestrator_def Let_def retH_def no_documents_def loop_on_def)
qed


lemma placement_whole_or_unsent_witness:
  "\<exists>j s' t. get_job ''j'' placeable_store = Inr j
     \<and> place sample_orchestrator no_documents undisturbed j ''a'' (loop_on placeable_store) = (Reply (), s')
     \<and> get_job ''j'' (sv_db s') = Inr (j\<lparr> jr_state := Assigned, jr_agent_id := Some ''a'', jr_fencing_epoch := 7 \<rparr>)
     \<and> live_for_path ''/m/f'' (sv_db s') = Some t \<and> it_job_id t = ''j''"
proof -
  obtain j where j: "get_job ''j'' placeable_store = Inr j" "jr_id j = ''j''" "jr_state j = Pending" "jr_file_id j = 1"
      "jr_library_id j = ''l''" using placeable_job by blast
  obtain s' where run: "place sample_orchestrator no_documents undisturbed j ''a'' (loop_on placeable_store) = (Reply (), s')"
    using placeable_delivered[OF j] by blast
  have g: "get_job (jr_id j) (sv_db (loop_on placeable_store)) = Inr j" using j by (simp add: loop_on_def)
  have e: "fleet_get ''a'' (sv_fleet (loop_on placeable_store)) = Some c \<Longrightarrow> cd_fencing_epoch c = 7" for c
    by (auto simp: loop_on_def sample_server_def fleet_connect_def fleet_get_def empty_fleet_def Let_def)
  have p: "get_file 1 (sv_db (loop_on placeable_store)) = Inr f \<Longrightarrow> fr_canonical_path f = ''/m/f''" for f
    by (auto simp: loop_on_def get_file_def placeable_store_def record_probe_op_def update_file_def run_sample
        file_from_row_def sample_file_def bindR_def split: sum.splits)
  from placement_whole_or_unsent[OF sample_server_ok(1) placeable_loop_ok g run] show ?thesis
    using run j e p by (auto 0 3)
qed


text \<open>A failed read of the job sweeps the intent of a job still in flight.\<close>

lemma sweep_on_failed_read:
  "\<exists>t. sweep_stranded_intents (undisturbed\<lparr> su_fault := (\<lambda>k. if k = 1 then Some SE_WriterStopped else None) \<rparr>) no_outcome
      (loop_on (sv_db sample_server)) = (Reply (no_outcome\<lparr> to_swept := [''j:0''] \<rparr>), t)"
  by (simp add: sweep_stranded_intents_def read_db_def submit_def others_act_def undisturbed_def handler_steps stranded_def
      loop_on_def sample_server_def sample_ledger_steps_def grant_op_def insert_intent_def intent_checks_def live_intents_def
      new_intent_row_def sample_intent_def run_sample resolve_op_def update_intent_def no_outcome_def ack_of_rows_def)

end
