(* ===== verification/Evaluator.thy ===== *)
theory Evaluator
  imports Policy Server_Steps
begin

text \<open>
  The evaluator (\<open>crates/transcodarr-server/src/evaluator.rs\<close>): batches of files whose decision predates
  the policy are decided from their stored facts, and a file that owes work gets a job, at most one
  open at a time. The hash and the two JSON serialisers are arguments. The loop has fuel; the properties
  say how much is enough.
\<close>

section \<open>Data\<close>

definition eval_batch :: nat where
  "eval_batch = 1000"

record eval_outcome =
  eo_evaluated :: i64
  eo_jobs_created :: i64
  eo_no_work :: i64
  eo_quarantined :: i64
  eo_already_busy :: i64
  eo_unprobed :: i64

definition no_evaluation :: eval_outcome where
  "no_evaluation = \<lparr> eo_evaluated = 0, eo_jobs_created = 0, eo_no_work = 0, eo_quarantined = 0, eo_already_busy = 0, eo_unprobed = 0 \<rparr>"

record evaluator =
  er_hash :: "string \<Rightarrow> string"
  er_policy_json :: "policy \<Rightarrow> string option"
  er_requirements_json :: "requirements \<Rightarrow> string option"
  er_thresholds :: size_thresholds

section \<open>One file\<close>

definition job_id_for :: "(string \<Rightarrow> string) \<Rightarrow> file_record \<Rightarrow> string \<Rightarrow> job_spec \<Rightarrow> string" where
  "job_id_for hash f version js = hash (show_int (fr_id f) @ ''|'' @ job_class_as_str (js_class js) @ ''|''
     @ version @ ''|'' @ js_expected_content_sig js)"

definition eval_priority :: "size_bucket \<Rightarrow> i64" where
  "eval_priority b = (case b of Large \<Rightarrow> 2 | Medium \<Rightarrow> 1 | _ \<Rightarrow> 0)"

definition new_job_for :: "evaluator \<Rightarrow> file_record \<Rightarrow> string \<Rightarrow> job_spec \<Rightarrow> new_job" where
  "new_job_for er f version js = \<lparr> nj_id = job_id_for (er_hash er) f version js, nj_file_id = fr_id f,
     nj_library_id = fr_library_id f, nj_class = js_class js, nj_size_bucket = js_size_bucket js,
     nj_requirements_json = or_default ''[]'' (er_requirements_json er (js_requirements js)),
     nj_bucket_key = bucket_key (er_hash er) (js_requirements js), nj_content_sig = js_expected_content_sig js,
     nj_rules_version = version, nj_priority = eval_priority (js_size_bucket js), nj_parent = None \<rparr>"

definition evaluate_one :: "evaluator \<Rightarrow> surroundings \<Rightarrow> policy \<Rightarrow> string \<Rightarrow> file_record \<Rightarrow> eval_outcome
    \<Rightarrow> ('b, server_error, eval_outcome) process" where
  "evaluate_one er su p version f tally =
     (case fr_facts f of
        None \<Rightarrow> retH (tally\<lparr> eo_unprobed := eo_unprobed tally + 1 \<rparr>)
      | Some facts \<Rightarrow>
          (let d = evaluate facts p
           in thenH (write_store su (record_decision_op (fr_id f) (de_class d) (de_reason d) version))
                (let tally = tally\<lparr> eo_evaluated := eo_evaluated tally + 1 \<rparr>
                 in if de_class d = DC_None then retH (tally\<lparr> eo_no_work := eo_no_work tally + 1 \<rparr>)
                    else if de_class d = DC_Quarantined then retH (tally\<lparr> eo_quarantined := eo_quarantined tally + 1 \<rparr>)
                    else bindH (read_store su (open_for_file (fr_id f))) (\<lambda>busy.
                      if busy \<noteq> None then retH (tally\<lparr> eo_already_busy := eo_already_busy tally + 1 \<rparr>)
                      else (case next_job (er_hash er) d facts (er_thresholds er) of
                              None \<Rightarrow> retH (tally\<lparr> eo_no_work := eo_no_work tally + 1 \<rparr>)
                            | Some js \<Rightarrow> thenH (write_store su (create_op (new_job_for er f version js)))
                                (retH (tally\<lparr> eo_jobs_created := eo_jobs_created tally + 1 \<rparr>)))))))"

section \<open>A library\<close>

fun evaluate_each :: "evaluator \<Rightarrow> surroundings \<Rightarrow> policy \<Rightarrow> string \<Rightarrow> file_record list \<Rightarrow> eval_outcome
    \<Rightarrow> ('b, server_error, eval_outcome) process" where
  "evaluate_each er su p version [] tally = retH tally"
| "evaluate_each er su p version (f # fs) tally =
     bindH (evaluate_one er su p version f tally) (\<lambda>tally. evaluate_each er su p version fs tally)"

text \<open>\<open>None\<close> when the fuel runs out.\<close>

fun evaluate_batches :: "evaluator \<Rightarrow> surroundings \<Rightarrow> string \<Rightarrow> policy \<Rightarrow> string \<Rightarrow> nat \<Rightarrow> eval_outcome
    \<Rightarrow> ('b, server_error, eval_outcome option) process" where
  "evaluate_batches er su library p version 0 tally = retH None"
| "evaluate_batches er su library p version (Suc n) tally =
     bindH (read_store su (needs_eval library version eval_batch)) (\<lambda>batch.
     if batch = [] then retH (Some tally)
     else bindH (evaluate_each er su p version batch tally) (\<lambda>tally'.
       if eo_evaluated tally' = eo_evaluated tally then retH (Some tally')
       else evaluate_batches er su library p version n tally'))"

definition evaluate_library :: "evaluator \<Rightarrow> surroundings \<Rightarrow> nat \<Rightarrow> string \<Rightarrow> policy \<Rightarrow> ('b, server_error, eval_outcome option) process" where
  "evaluate_library er su fuel library p =
     evaluate_batches er su library p (rules_version (er_hash er) (er_policy_json er) p) fuel no_evaluation"

section \<open>Invariant\<close>

lemma eval_ops [simp]: "record_decision_op i d r v \<in> store_ops" "create_op j \<in> store_ops"
  by simp_all

lemma keeps_evaluate_one: "keeps (server_ok su) (evaluate_one er su p version f tally)"
  unfolding evaluate_one_def Let_def by (intro server_store.step_keeps eval_ops)

lemma keeps_evaluate_each: "keeps (server_ok su) (evaluate_each er su p version fs tally)"
  by (induction fs arbitrary: tally) (auto intro!: server_store.step_keeps keeps_evaluate_one)

lemma keeps_evaluate_batches: "keeps (server_ok su) (evaluate_batches er su library p version n tally)"
  by (induction n arbitrary: tally) (auto intro!: server_store.step_keeps keeps_evaluate_each)

section \<open>What one evaluation does\<close>

definition candidate :: "string \<Rightarrow> string \<Rightarrow> file_row \<Rightarrow> bool" where
  "candidate library version r \<longleftrightarrow> ft_library_id r = library \<and> ft_state r \<in> {''Probed'', ''Evaluated''}
     \<and> ft_eval_rules_version r \<noteq> Some version"

definition decided :: "policy \<Rightarrow> string \<Rightarrow> i64 \<Rightarrow> file_row \<Rightarrow> file_row" where
  "decided p version now r = (let d = evaluate (facts_from_row r) p in
     r\<lparr> ft_state := ''Evaluated'',
       ft_streak := (if ft_decision r = Some (decision_class_as_str (de_class d)) then ft_streak r + 1 else 0),
       ft_decision := Some (decision_class_as_str (de_class d)), ft_decision_reason := Some (de_reason d),
       ft_eval_rules_version := Some version, ft_eval_at := Some now \<rparr>)"

text \<open>What the policy owes a file.\<close>

definition owed :: "evaluator \<Rightarrow> policy \<Rightarrow> file_row \<Rightarrow> job_spec option" where
  "owed er p r = next_job (er_hash er) (evaluate (facts_from_row r) p) (facts_from_row r) (er_thresholds er)"

definition busy :: "database \<Rightarrow> i64 \<Rightarrow> bool" where
  "busy db i \<longleftrightarrow> (\<exists>q \<in> set (db_jobs db). row_open q \<and> jt_file_id q = i)"

lemma owed_class: "owed er p r = Some js \<Longrightarrow> de_class (evaluate (facts_from_row r) p) \<noteq> DC_None \<and> de_class (evaluate (facts_from_row r) p) \<noteq> DC_Quarantined"
  by (auto simp: owed_def next_job_def Let_def)

lemma open_for_file_busy: "open_for_file i db = Inr x \<Longrightarrow> x \<noteq> None \<longleftrightarrow> busy db i"
  by (auto simp: open_for_file_def busy_def row_open_def bindR_def query_row_None dest!: query_row_SomeD split: option.splits sum.splits)

lemma created:
  assumes "apply_op (create_op j) now db = (Inr ack, db')"
  shows "db_jobs db' = db_jobs db @ [new_job_row j now] \<and> db_files db' = db_files db"
  using assms by (auto simp: create_op_def apply_op_def op_run_new_op dest!: insert_job_Inr(1) insert_event_Inr(1)
      split: sum.splits prod.splits)

lemma decision_recorded:
  assumes "apply_op (record_decision_op i d reason version) now db = (Inr ack, db')"
  shows "db_jobs db' = db_jobs db \<and> db_files db' = map (\<lambda>q. if ft_id q = i then q\<lparr> ft_state := ''Evaluated'',
       ft_streak := (if ft_decision q = Some (decision_class_as_str d) then ft_streak q + 1 else 0),
       ft_decision := Some (decision_class_as_str d), ft_decision_reason := Some reason,
       ft_eval_rules_version := Some version, ft_eval_at := Some now \<rparr> else q) (db_files db)"
  using assms by (auto simp: record_decision_op_def apply_op_def op_run_new_op update_file_def sql_update_def split: if_splits)

definition progress :: "evaluator \<Rightarrow> policy \<Rightarrow> string \<Rightarrow> string \<Rightarrow> nat \<Rightarrow> (file_row \<Rightarrow> file_row) \<Rightarrow> database \<Rightarrow> database \<Rightarrow> bool" where
  "progress er p library version n g db db' \<longleftrightarrow>
     db_files db' = map g (db_files db)
   \<and> (\<forall>r. g r = r \<or> candidate library version r \<and> ft_probe_at r \<noteq> None \<and> (\<exists>now. g r = decided p version now r))
   \<and> length (filter (\<lambda>r. g r \<noteq> r) (db_files db)) = n
   \<and> (\<exists>news. db_jobs db' = db_jobs db @ news
        \<and> (\<forall>q \<in> set news. \<exists>r \<in> set (db_files db). candidate library version r \<and> jt_file_id q = ft_id r \<and> owed er p r \<noteq> None))
   \<and> (\<forall>r \<in> set (db_files db). g r \<noteq> r \<longrightarrow> owed er p r \<noteq> None \<longrightarrow> busy db' (ft_id r))"

lemma progress_refl: "db_files db' = db_files db \<Longrightarrow> db_jobs db' = db_jobs db \<Longrightarrow> progress er p library version 0 (\<lambda>r. r) db db'"
  by (simp add: progress_def)

lemma decided_id [simp]: "ft_id (decided p version now r) = ft_id r" "ft_library_id (decided p version now r) = ft_library_id r"
  "ft_eval_rules_version (decided p version now r) = Some version" "facts_from_row (decided p version now r) = facts_from_row r"
  by (simp_all add: decided_def Let_def facts_from_row_def)

lemma not_candidate_decided [simp]: "\<not> candidate library version (decided p version now r)"
  by (simp add: candidate_def)

lemma owed_decided [simp]: "owed er p (decided p version now r) = owed er p r"
  by (simp add: owed_def)

lemma busy_grows: "db_jobs db' = db_jobs db @ news \<Longrightarrow> busy db i \<Longrightarrow> busy db' i"
  by (auto simp: busy_def)

lemma progress_trans:
  assumes 1: "progress er p library version m g db db1" and 2: "progress er p library version n h db1 db2"
  shows "progress er p library version (m + n) (h \<circ> g) db db2"
proof -
  have g: "g r = r \<or> candidate library version r \<and> ft_probe_at r \<noteq> None \<and> (\<exists>now. g r = decided p version now r)"
    and h: "h r = r \<or> candidate library version r \<and> ft_probe_at r \<noteq> None \<and> (\<exists>now. h r = decided p version now r)" for r
    using 1 2 by (simp_all add: progress_def)
  have once: "g r \<noteq> r \<Longrightarrow> h (g r) = g r" for r using g[of r] h[of "g r"] by auto
  have moved: "h (g r) \<noteq> r \<longleftrightarrow> g r \<noteq> r \<or> h r \<noteq> r" for r using g[of r] h[of r] once[of r] by metis
  have id: "ft_id (g r) = ft_id r" "owed er p (g r) = owed er p r" for r using g[of r] by auto
  have files: "db_files db1 = map g (db_files db)" "db_files db2 = map h (db_files db1)" using 1 2 by (simp_all add: progress_def)
  obtain news where n1: "db_jobs db1 = db_jobs db @ news"
    "\<forall>q \<in> set news. \<exists>r \<in> set (db_files db). candidate library version r \<and> jt_file_id q = ft_id r \<and> owed er p r \<noteq> None"
    using 1 unfolding progress_def by blast
  obtain news' where n2: "db_jobs db2 = db_jobs db1 @ news'"
    "\<forall>q \<in> set news'. \<exists>r \<in> set (db_files db1). candidate library version r \<and> jt_file_id q = ft_id r \<and> owed er p r \<noteq> None"
    using 2 unfolding progress_def by blast
  have count: "length (filter (\<lambda>r. h (g r) \<noteq> r) rs) = length (filter (\<lambda>r. g r \<noteq> r) rs) + length (filter (\<lambda>r. h r \<noteq> r) (map g rs))" for rs
  proof (induction rs)
    case (Cons r rs)
    then show ?case using moved[of r] once[of r] by (cases "g r = r") auto
  qed simp
  have prior: "\<exists>r \<in> set (db_files db). candidate library version r \<and> i = ft_id r \<and> owed er p r \<noteq> None"
    if "r1 \<in> set (db_files db1)" "candidate library version r1" "i = ft_id r1" "owed er p r1 \<noteq> None" for r1 i
    using that g id unfolding files(1) by (metis (no_types, lifting) imageE list.set_map not_candidate_decided)
  have "\<forall>q \<in> set (news @ news'). \<exists>r \<in> set (db_files db). candidate library version r \<and> jt_file_id q = ft_id r \<and> owed er p r \<noteq> None"
    using n1(2) n2(2) prior by (metis Un_iff set_append)
  moreover have "busy db2 (ft_id r)" if "r \<in> set (db_files db)" "h (g r) \<noteq> r" "owed er p r \<noteq> None" for r
  proof (cases "g r = r")
    case True
    then have "r \<in> set (db_files db1)" using that(1) unfolding files(1) by (metis image_eqI list.set_map)
    then show ?thesis using 2 that True unfolding progress_def by auto
  next
    case False
    then have "busy db1 (ft_id r)" using 1 that unfolding progress_def by auto
    then show ?thesis by (rule busy_grows[OF n2(1)])
  qed
  moreover have "h (g r) = r \<or> candidate library version r \<and> ft_probe_at r \<noteq> None \<and> (\<exists>now. h (g r) = decided p version now r)" for r
    using g[of r] h[of r] once[of r] by metis
  ultimately show ?thesis unfolding progress_def using count[of "db_files db"] 1 2 n1(1) n2(1)
    by (auto simp: progress_def o_def intro!: exI[of _ "news @ news'"])
qed

definition unaccounted :: "eval_outcome \<Rightarrow> i64" where
  "unaccounted x = eo_evaluated x - (eo_jobs_created x + eo_no_work x + eo_quarantined x + eo_already_busy x)"

lemma decided_progress:
  assumes "distinct (map ft_id (db_files db))" "r \<in> set (db_files db)" "candidate library version r" "ft_probe_at r \<noteq> None"
    and files: "db_files db' = map (\<lambda>q. if ft_id q = ft_id r then decided p version now q else q) (db_files db)"
    and jobs: "db_jobs db' = db_jobs db @ news" "\<forall>q \<in> set news. jt_file_id q = ft_id r \<and> owed er p r \<noteq> None"
    and held: "owed er p r \<noteq> None \<longrightarrow> busy db' (ft_id r)"
  shows "\<exists>g. progress er p library version 1 g db db' \<and> (\<forall>q. ft_id q \<noteq> ft_id r \<longrightarrow> g q = q)"
proof -
  define g where "g = (\<lambda>q. if q = r then decided p version now q else q)"
  have moved: "g q \<noteq> q \<longleftrightarrow> q = r" for q
    using assms(3) by (cases "q = r") (auto simp: g_def dest: arg_cong[of _ _ "candidate library version"])
  have inj: "ft_id q = ft_id r \<longleftrightarrow> q = r" if "q \<in> set (db_files db)" for q
    using assms(1,2) that by (auto simp: distinct_map inj_on_def)
  have "db_files db' = map g (db_files db)" unfolding files by (rule map_cong) (auto simp: g_def inj)
  moreover have "length (filter (\<lambda>q. g q \<noteq> q) (db_files db)) = 1"
    using assms(1,2) unfolding moved by (simp add: distinct_map distinct_length_filter)
  ultimately have "progress er p library version 1 g db db'" unfolding progress_def
    using assms(2-4) jobs held moved by (auto simp: g_def)
  moreover have "\<forall>q. ft_id q \<noteq> ft_id r \<longrightarrow> g q = q" by (auto simp: g_def)
  ultimately show ?thesis by blast
qed

lemma evaluate_one_effect:
  assumes c: "calm su" and ok: "store_ok (sv_db s)"
    and r: "r \<in> set (db_files (sv_db s))" "file_from_row r = Inr f" "candidate library version r"
    and run: "evaluate_one er su p version f tally s = (Reply tally', t)"
  shows "\<exists>g n. progress er p library version n g (sv_db s) (sv_db t)
    \<and> eo_evaluated tally' = eo_evaluated tally + int n \<and> unaccounted tally' = unaccounted tally
    \<and> (\<forall>q. ft_id q \<noteq> ft_id r \<longrightarrow> g q = q) \<and> (n = 0 \<longrightarrow> fr_facts f = None)"
proof (cases "ft_probe_at r = None")
  case True
  then have "t = s \<and> tally' = tally\<lparr> eo_unprobed := eo_unprobed tally + 1 \<rparr>"
    using run by (auto simp: evaluate_one_def file_record_row[OF r(2)] retH_def)
  then show ?thesis using True file_record_row(2)[OF r(2)]
    by (auto simp: unaccounted_def intro!: exI[of _ "\<lambda>r. r"] exI[of _ 0] progress_refl)
next
  case False
  let ?d = "evaluate (facts_from_row r) p" and ?tally = "tally\<lparr> eo_evaluated := eo_evaluated tally + 1 \<rparr>"
  note f = file_record_row[OF r(2)]
  have facts: "fr_facts f = Some (facts_from_row r)" using f(2) False by simp
  obtain ack s1 where w: "write_store su (record_decision_op (fr_id f) (de_class ?d) (de_reason ?d) version) s = (Reply ack, s1)"
    and rest: "(if de_class ?d = DC_None then retH (?tally\<lparr> eo_no_work := eo_no_work ?tally + 1 \<rparr>)
       else if de_class ?d = DC_Quarantined then retH (?tally\<lparr> eo_quarantined := eo_quarantined ?tally + 1 \<rparr>)
       else bindH (read_store su (open_for_file (fr_id f))) (\<lambda>busy.
              if busy \<noteq> None then retH (?tally\<lparr> eo_already_busy := eo_already_busy ?tally + 1 \<rparr>)
              else (case next_job (er_hash er) ?d (facts_from_row r) (er_thresholds er) of
                      None \<Rightarrow> retH (?tally\<lparr> eo_no_work := eo_no_work ?tally + 1 \<rparr>)
                    | Some js \<Rightarrow> thenH (write_store su (create_op (new_job_for er f version js)))
                        (retH (?tally\<lparr> eo_jobs_created := eo_jobs_created ?tally + 1 \<rparr>))))) s1 = (Reply tally', t)"
    using thenH_Reply[OF run[unfolded evaluate_one_def facts Let_def option.case]] by blast
  have d1: "db_jobs (sv_db s1) = db_jobs (sv_db s)"
    "db_files (sv_db s1) = map (\<lambda>q. if ft_id q = ft_id r then decided p version (su_clock su (sv_calls s)) q else q) (db_files (sv_db s))"
  proof -
    have dist: "ft_id q = ft_id r \<longleftrightarrow> q = r" if "q \<in> set (db_files (sv_db s))" for q
      using ok r(1) that by (auto simp: store_ok_def files_ok_def distinct_map inj_on_def)
    show "db_jobs (sv_db s1) = db_jobs (sv_db s)" using decision_recorded[OF write_store_Reply[OF c w]] by simp
    show "db_files (sv_db s1) = map (\<lambda>q. if ft_id q = ft_id r then decided p version (su_clock su (sv_calls s)) q else q) (db_files (sv_db s))"
      using decision_recorded[OF write_store_Reply[OF c w]] dist by (auto simp: f(1) decided_def Let_def)
  qed
  have "\<exists>news. db_files (sv_db t) = db_files (sv_db s1) \<and> db_jobs (sv_db t) = db_jobs (sv_db s) @ news
      \<and> (\<forall>q \<in> set news. jt_file_id q = ft_id r \<and> owed er p r \<noteq> None) \<and> (owed er p r \<noteq> None \<longrightarrow> busy (sv_db t) (ft_id r))
      \<and> eo_evaluated tally' = eo_evaluated tally + 1 \<and> unaccounted tally' = unaccounted tally"
  proof (cases "de_class ?d = DC_None \<or> de_class ?d = DC_Quarantined")
    case True
    then have "owed er p r = None" using owed_class by fastforce
    then show ?thesis using rest True d1(1) by (auto simp: retH_def unaccounted_def split: if_splits)
  next
    case False
    have step: "bindH (read_store su (open_for_file (fr_id f))) (\<lambda>busy.
              if busy \<noteq> None then retH (?tally\<lparr> eo_already_busy := eo_already_busy ?tally + 1 \<rparr>)
              else (case owed er p r of
                      None \<Rightarrow> retH (?tally\<lparr> eo_no_work := eo_no_work ?tally + 1 \<rparr>)
                    | Some js \<Rightarrow> thenH (write_store su (create_op (new_job_for er f version js)))
                        (retH (?tally\<lparr> eo_jobs_created := eo_jobs_created ?tally + 1 \<rparr>)))) s1 = (Reply tally', t)"
      using rest False unfolding owed_def by (simp only: if_False de_Morgan_disj)
    obtain found s2 where o: "read_store su (open_for_file (fr_id f)) s1 = (Reply found, s2)"
      and rest2: "(if found \<noteq> None then retH (?tally\<lparr> eo_already_busy := eo_already_busy ?tally + 1 \<rparr>)
              else (case owed er p r of
                      None \<Rightarrow> retH (?tally\<lparr> eo_no_work := eo_no_work ?tally + 1 \<rparr>)
                    | Some js \<Rightarrow> thenH (write_store su (create_op (new_job_for er f version js)))
                        (retH (?tally\<lparr> eo_jobs_created := eo_jobs_created ?tally + 1 \<rparr>)))) s2 = (Reply tally', t)"
      using bindH_Reply[OF step] by blast
    note rd = read_store_Reply[OF c o]
    have same: "sv_db s2 = sv_db s1" using rd by simp
    have b: "found \<noteq> None \<longleftrightarrow> busy (sv_db s1) (ft_id r)" using open_for_file_busy rd f(1) by metis
    show ?thesis
    proof (cases "found = None")
      case False
      then have "tally' = ?tally\<lparr> eo_already_busy := eo_already_busy ?tally + 1 \<rparr>" "t = s2" using rest2 by (auto simp: retH_def)
      then show ?thesis using False b same d1(1) by (simp add: unaccounted_def)
    next
      case True
      show ?thesis
      proof (cases "owed er p r")
        case None
        then show ?thesis using True rest2 same d1(1) by (auto simp: unaccounted_def retH_def)
      next
        case (Some js)
        then obtain ack3 s3 where w3: "write_store su (create_op (new_job_for er f version js)) s2 = (Reply ack3, s3)"
          and t: "t = s3" "tally' = ?tally\<lparr> eo_jobs_created := eo_jobs_created ?tally + 1 \<rparr>"
          using rest2 True by (auto simp: retH_def dest!: thenH_Reply)
        note cr = created[OF write_store_Reply[OF c w3]]
        have "busy (sv_db t) (ft_id r)" using cr
          by (auto simp: busy_def t new_job_row_def row_open_def closed_states_def new_job_for_def f(1))
        then show ?thesis using cr Some same d1(1) by (auto simp: t unaccounted_def new_job_row_def new_job_for_def f(1))
      qed
    qed
  qed
  then obtain news where n: "db_files (sv_db t) = db_files (sv_db s1)" "db_jobs (sv_db t) = db_jobs (sv_db s) @ news"
      "\<forall>q \<in> set news. jt_file_id q = ft_id r \<and> owed er p r \<noteq> None" "owed er p r \<noteq> None \<longrightarrow> busy (sv_db t) (ft_id r)"
      "eo_evaluated tally' = eo_evaluated tally + 1" "unaccounted tally' = unaccounted tally" by blast
  have "distinct (map ft_id (db_files (sv_db s)))" using ok by (simp add: store_ok_def files_ok_def)
  from decided_progress[OF this r(1) r(3) False n(1)[unfolded d1(2)] n(2-4)] n(5,6)
  show ?thesis by (metis of_nat_1 zero_neq_one)
qed


lemma evaluate_each_effect:
  assumes c: "calm su"
  shows "server_ok su s \<Longrightarrow> \<forall>f \<in> set fs. \<exists>r \<in> set (db_files (sv_db s)). file_from_row r = Inr f \<and> candidate library version r
    \<Longrightarrow> distinct (map fr_id fs) \<Longrightarrow> evaluate_each er su p version fs tally s = (Reply tally', t)
    \<Longrightarrow> \<exists>g n. progress er p library version n g (sv_db s) (sv_db t)
      \<and> eo_evaluated tally' = eo_evaluated tally + int n \<and> unaccounted tally' = unaccounted tally
      \<and> (n = 0 \<longrightarrow> (\<forall>f \<in> set fs. fr_facts f = None))"
proof (induction fs arbitrary: s tally)
  case Nil
  then show ?case by (auto simp: retH_def intro!: exI[of _ "\<lambda>r. r"] exI[of _ 0] progress_refl)
next
  case (Cons f fs)
  obtain tally1 s1 where 1: "evaluate_one er su p version f tally s = (Reply tally1, s1)"
    and 2: "evaluate_each er su p version fs tally1 s1 = (Reply tally', t)"
    using bindH_Reply[OF Cons.prems(4)[unfolded evaluate_each.simps]] by blast
  obtain r where r: "r \<in> set (db_files (sv_db s))" "file_from_row r = Inr f" "candidate library version r" using Cons.prems(2) by auto
  have ok: "store_ok (sv_db s)" using Cons.prems(1) by (simp add: server_ok_def)
  obtain g m where g: "progress er p library version m g (sv_db s) (sv_db s1)" "eo_evaluated tally1 = eo_evaluated tally + int m"
    "unaccounted tally1 = unaccounted tally" "\<forall>q. ft_id q \<noteq> ft_id r \<longrightarrow> g q = q" "m = 0 \<longrightarrow> fr_facts f = None"
    using evaluate_one_effect[OF c ok r 1] by blast
  have ok1: "server_ok su s1" using keepsD[OF keeps_evaluate_one Cons.prems(1), of er p version f tally] 1 by simp
  have "\<exists>q \<in> set (db_files (sv_db s1)). file_from_row q = Inr f' \<and> candidate library version q" if f': "f' \<in> set fs" for f'
  proof -
    obtain q where q: "q \<in> set (db_files (sv_db s))" "file_from_row q = Inr f'" "candidate library version q" using Cons.prems(2) f' by auto
    have "ft_id q \<noteq> ft_id r" using Cons.prems(3) f' file_record_row(1)[OF q(2)] file_record_row(1)[OF r(2)] by (metis distinct.simps(2) imageI list.set_map list.simps(9))
    then have "g q = q" using g(4) by blast
    then show ?thesis using q g(1) unfolding progress_def by (metis image_eqI list.set_map)
  qed
  moreover have "distinct (map fr_id fs)" using Cons.prems(3) by simp
  ultimately obtain h n where h: "progress er p library version n h (sv_db s1) (sv_db t)" "eo_evaluated tally' = eo_evaluated tally1 + int n"
    "unaccounted tally' = unaccounted tally1" "n = 0 \<longrightarrow> (\<forall>f \<in> set fs. fr_facts f = None)"
    using Cons.IH[OF ok1 _ _ 2] by blast
  obtain k where "progress er p library version (m + n) k (sv_db s) (sv_db t)" using progress_trans[OF g(1) h(1)] by blast
  then show ?case using g(2,3,5) h(2-4)
    by (intro exI[of _ k] exI[of _ "m + n"] conjI) simp_all
qed

text \<open>The rows still to decide.\<close>

definition undecided :: "string \<Rightarrow> string \<Rightarrow> database \<Rightarrow> file_row list" where
  "undecided library version db = filter (\<lambda>r. candidate library version r \<and> ft_probe_at r \<noteq> None) (db_files db)"

lemma progress_undecided:
  assumes "progress er p library version n g db db'"
  shows "length (undecided library version db) = length (undecided library version db') + n"
proof -
  have g: "g r = r \<or> candidate library version r \<and> ft_probe_at r \<noteq> None \<and> (\<exists>now. g r = decided p version now r)" for r
    using assms by (simp add: progress_def)
  let ?P = "\<lambda>r. candidate library version r \<and> ft_probe_at r \<noteq> None"
  have count: "length (filter ?P rs) = length (filter ?P (map g rs)) + length (filter (\<lambda>r. g r \<noteq> r) rs)" for rs
  proof (induction rs)
    case (Cons r rs)
    show ?case
    proof (cases "g r = r")
      case True then show ?thesis using Cons by simp
    next
      case False
      then have "?P r" "\<not> ?P (g r)" using g[of r] by auto
      then show ?thesis using Cons False by simp
    qed
  qed simp
  have "db_files db' = map g (db_files db)" "length (filter (\<lambda>r. g r \<noteq> r) (db_files db)) = n"
    using assms by (simp_all add: progress_def)
  then show ?thesis unfolding undecided_def using count[of "db_files db"] by (simp only:)
qed


lemma needs_eval_rows:
  assumes "needs_eval library version limit db = Inr fs" and "distinct (map ft_id (db_files db))"
  shows "\<forall>f \<in> set fs. \<exists>r \<in> set (db_files db). file_from_row r = Inr f \<and> candidate library version r"
    and "distinct (map fr_id fs)"
    and "\<forall>r \<in> set (take limit (sort_key ft_id (filter (candidate library version) (db_files db)))). \<exists>f \<in> set fs. file_from_row r = Inr f"
proof -
  have c: "(\<lambda>r. ft_library_id r = library \<and> ft_state r \<in> {''Probed'', ''Evaluated''} \<and> ft_eval_rules_version r \<noteq> Some version)
      = candidate library version" by (auto simp: candidate_def)
  let ?rs = "take limit (sort_key ft_id (filter (candidate library version) (db_files db)))"
  note rel = collect_rows[OF assms(1)[unfolded needs_eval_def c]]
  have sub: "set ?rs \<subseteq> {r \<in> set (db_files db). candidate library version r}" using set_take_subset by fastforce
  show "\<forall>f \<in> set fs. \<exists>r \<in> set (db_files db). file_from_row r = Inr f \<and> candidate library version r" using rel sub by blast
  show "\<forall>r \<in> set ?rs. \<exists>f \<in> set fs. file_from_row r = Inr f" using rel by blast
  have "distinct (map ft_id (sort_key ft_id (filter (candidate library version) (db_files db))))"
    using assms(2) by (simp add: distinct_map inj_on_def)
  then show "distinct (map fr_id fs)" using rel by (simp add: take_map[symmetric])
qed

definition head_stuck :: "string \<Rightarrow> string \<Rightarrow> database \<Rightarrow> bool" where
  "head_stuck library version db \<longleftrightarrow>
     (\<forall>r \<in> set (take eval_batch (sort_key ft_id (filter (candidate library version) (db_files db)))). ft_probe_at r = None)"

lemma batch_stuck:
  assumes "needs_eval library version eval_batch db = Inr fs" "distinct (map ft_id (db_files db))" "\<forall>f \<in> set fs. fr_facts f = None"
  shows "head_stuck library version db"
  using needs_eval_rows(3)[OF assms(1,2)] assms(3) unfolding head_stuck_def
  by (metis file_record_row(2) option.distinct(1))

lemma evaluate_batches_effect:
  assumes c: "calm su"
  shows "server_ok su s \<Longrightarrow> evaluate_batches er su library p version fuel tally s = (Reply (Some out), t)
    \<Longrightarrow> \<exists>g n. progress er p library version n g (sv_db s) (sv_db t)
      \<and> eo_evaluated out = eo_evaluated tally + int n \<and> unaccounted out = unaccounted tally \<and> head_stuck library version (sv_db t)"
proof (induction fuel arbitrary: s tally)
  case 0 then show ?case by (simp add: retH_def)
next
  case (Suc k)
  obtain fs s1 where 1: "read_store su (needs_eval library version eval_batch) s = (Reply fs, s1)"
    and rest: "(if fs = [] then retH (Some tally)
      else bindH (evaluate_each er su p version fs tally) (\<lambda>tally'.
        if eo_evaluated tally' = eo_evaluated tally then retH (Some tally')
        else evaluate_batches er su library p version k tally')) s1 = (Reply (Some out), t)"
    using bindH_Reply[OF Suc.prems(2)[unfolded evaluate_batches.simps]] by blast
  note rd = read_store_Reply[OF c 1]
  have dist: "distinct (map ft_id (db_files (sv_db s)))" using Suc.prems(1) by (simp add: server_ok_def store_ok_def files_ok_def)
  have ok1: "server_ok su s1" using Suc.prems(1) rd by (simp add: server_ok_def)
  show ?case
  proof (cases "fs = []")
    case True
    then have "t = s1 \<and> out = tally" using rest by (auto simp: retH_def)
    then show ?thesis using rd batch_stuck[OF _ dist] True
      by (auto intro!: exI[of _ "\<lambda>r. r"] exI[of _ 0] progress_refl)
  next
    case False
    obtain tally1 s2 where 2: "evaluate_each er su p version fs tally s1 = (Reply tally1, s2)"
      and rest2: "(if eo_evaluated tally1 = eo_evaluated tally then retH (Some tally1)
        else evaluate_batches er su library p version k tally1) s2 = (Reply (Some out), t)"
      using bindH_Reply[OF rest[unfolded if_not_P[OF False]]] by blast
    have rows: "\<forall>f \<in> set fs. \<exists>r \<in> set (db_files (sv_db s1)). file_from_row r = Inr f \<and> candidate library version r" "distinct (map fr_id fs)"
      using needs_eval_rows(1,2)[OF _ dist] rd by auto
    obtain g n where g: "progress er p library version n g (sv_db s1) (sv_db s2)" "eo_evaluated tally1 = eo_evaluated tally + int n"
      "unaccounted tally1 = unaccounted tally" "n = 0 \<longrightarrow> (\<forall>f \<in> set fs. fr_facts f = None)"
      using evaluate_each_effect[OF c ok1 rows 2] by blast
    have ok2: "server_ok su s2" using keepsD[OF keeps_evaluate_each ok1, of er p version fs tally] 2 by simp
    show ?thesis
    proof (cases "n = 0")
      case True
      then have e: "t = s2 \<and> out = tally1" using rest2 g(2) by (auto simp: retH_def)
      have "db_files (sv_db s2) = db_files (sv_db s)"
      proof -
        have "\<forall>r \<in> set (db_files (sv_db s1)). g r = r" using g(1) True by (simp add: progress_def filter_empty_conv)
        then show ?thesis using g(1) rd by (simp add: progress_def map_idI)
      qed
      moreover have "head_stuck library version (sv_db s)" using batch_stuck[OF _ dist] rd g(4) True by blast
      ultimately show ?thesis using g e rd by (auto simp: head_stuck_def)
    next
      case False
      then have "evaluate_batches er su library p version k tally1 s2 = (Reply (Some out), t)" using rest2 g(2) by simp
      from Suc.IH[OF ok2 this] obtain h m where h: "progress er p library version m h (sv_db s2) (sv_db t)"
        "eo_evaluated out = eo_evaluated tally1 + int m" "unaccounted out = unaccounted tally1" "head_stuck library version (sv_db t)" by blast
      obtain k where "progress er p library version (n + m) k (sv_db s) (sv_db t)" using progress_trans[OF g(1) h(1)] rd by auto
      then show ?thesis using g(2,3) h(2-4) by (intro exI[of _ k] exI[of _ "n + m"] conjI) simp_all
    qed
  qed
qed

lemma evaluate_batches_ends:
  assumes c: "calm su"
  shows "server_ok su s \<Longrightarrow> length (undecided library version (sv_db s)) < fuel
    \<Longrightarrow> fst (evaluate_batches er su library p version fuel tally s) \<noteq> Reply None"
proof (induction fuel arbitrary: s tally)
  case (Suc k)
  show ?case
  proof
    assume "fst (evaluate_batches er su library p version (Suc k) tally s) = Reply None"
    then obtain t where run: "evaluate_batches er su library p version (Suc k) tally s = (Reply None, t)" by (metis prod.collapse)
    obtain fs s1 where 1: "read_store su (needs_eval library version eval_batch) s = (Reply fs, s1)"
      and rest: "(if fs = [] then retH (Some tally)
        else bindH (evaluate_each er su p version fs tally) (\<lambda>tally'.
          if eo_evaluated tally' = eo_evaluated tally then retH (Some tally')
          else evaluate_batches er su library p version k tally')) s1 = (Reply None, t)"
      using bindH_Reply[OF run[unfolded evaluate_batches.simps]] by blast
    note rd = read_store_Reply[OF c 1]
    have ne: "fs \<noteq> []" using rest by (auto simp: retH_def)
    obtain tally1 s2 where 2: "evaluate_each er su p version fs tally s1 = (Reply tally1, s2)"
      and rest2: "(if eo_evaluated tally1 = eo_evaluated tally then retH (Some tally1)
        else evaluate_batches er su library p version k tally1) s2 = (Reply None, t)"
      using bindH_Reply[OF rest[unfolded if_not_P[OF ne]]] by blast
    have dist: "distinct (map ft_id (db_files (sv_db s)))" using Suc.prems(1) by (simp add: server_ok_def store_ok_def files_ok_def)
    have ok1: "server_ok su s1" using Suc.prems(1) rd by (simp add: server_ok_def)
    have rows: "\<forall>f \<in> set fs. \<exists>r \<in> set (db_files (sv_db s1)). file_from_row r = Inr f \<and> candidate library version r" "distinct (map fr_id fs)"
      using needs_eval_rows(1,2)[OF _ dist] rd by auto
    obtain g n where g: "progress er p library version n g (sv_db s1) (sv_db s2)" "eo_evaluated tally1 = eo_evaluated tally + int n"
      using evaluate_each_effect[OF c ok1 rows 2] by blast
    have n: "n \<noteq> 0" and run2: "evaluate_batches er su library p version k tally1 s2 = (Reply None, t)"
      using rest2 g(2) by (auto simp: retH_def split: if_splits)
    have ok2: "server_ok su s2" using keepsD[OF keeps_evaluate_each ok1, of er p version fs tally] 2 by simp
    have "length (undecided library version (sv_db s2)) < k" using progress_undecided[OF g(1)] n Suc.prems(2) rd by simp
    from Suc.IH[OF ok2 this, of tally1] show False by (simp add: run2)
  qed
qed simp

section \<open>Properties\<close>

text \<open>
  C36. Evaluating a library ends and settles it. In an undisturbed server with more fuel than undecided
  files the loop never runs out; and when it completes, every file either is as it was or was a
  candidate with stored facts that now carries the decision the policy gives for them under this
  version, a decided file that owes work has an open job, a job was added only for a candidate that owes
  one, what is left at the head of the queue has no facts, and the counters account for every file
  decided.
\<close>

theorem evaluation_settles_library:
  assumes "calm su" "server_ok su s" "version = rules_version (er_hash er) (er_policy_json er) p"
  shows "case evaluate_library er su fuel library p s of
      (Reply (Some out), t) \<Rightarrow> \<exists>g news.
          db_files (sv_db t) = map g (db_files (sv_db s))
        \<and> (\<forall>r. g r = r \<or> candidate library version r \<and> ft_probe_at r \<noteq> None \<and> (\<exists>now. g r = decided p version now r))
        \<and> (\<forall>r \<in> set (db_files (sv_db s)). g r \<noteq> r \<longrightarrow> owed er p r \<noteq> None \<longrightarrow> busy (sv_db t) (ft_id r))
        \<and> db_jobs (sv_db t) = db_jobs (sv_db s) @ news
        \<and> (\<forall>q \<in> set news. \<exists>r \<in> set (db_files (sv_db s)). candidate library version r \<and> jt_file_id q = ft_id r \<and> owed er p r \<noteq> None)
        \<and> head_stuck library version (sv_db t)
        \<and> eo_evaluated out = int (length (filter (\<lambda>r. g r \<noteq> r) (db_files (sv_db s))))
        \<and> eo_evaluated out = eo_jobs_created out + eo_no_work out + eo_quarantined out + eo_already_busy out
    | (Reply None, t) \<Rightarrow> fuel \<le> length (undecided library version (sv_db s))
    | (_, t) \<Rightarrow> True"
proof (cases "evaluate_library er su fuel library p s")
  case (Pair r t)
  note run = Pair[unfolded evaluate_library_def assms(3)[symmetric]]
  show ?thesis
  proof (cases r)
    case (Reply x)
    show ?thesis
    proof (cases x)
      case None
      have "fuel \<le> length (undecided library version (sv_db s))"
      proof (rule ccontr)
        assume "\<not> fuel \<le> length (undecided library version (sv_db s))"
        then have "length (undecided library version (sv_db s)) < fuel" by simp
        from evaluate_batches_ends[OF assms(1,2) this, of er p no_evaluation] show False by (simp add: run Reply None)
      qed
      then show ?thesis by (simp add: Pair Reply None)
    next
      case (Some out)
      obtain g n where g: "progress er p library version n g (sv_db s) (sv_db t)" "eo_evaluated out = eo_evaluated no_evaluation + int n"
        "unaccounted out = unaccounted no_evaluation" "head_stuck library version (sv_db t)"
        using evaluate_batches_effect[OF assms(1,2) run[unfolded Reply Some]] by blast
      show ?thesis using g unfolding Pair Reply Some
        by (simp add: progress_def unaccounted_def no_evaluation_def) (rule exI[of _ g], auto)
    qed
  qed (simp_all add: Pair)
qed

text \<open>One probed file, and a policy without rules.\<close>

definition probed_file_facts :: file_facts where
  "probed_file_facts = Facts.sample_facts\<lparr> ff_duration_us := None \<rparr>"

definition probed_store :: database where
  "probed_store = run_writes [(20, record_probe_op 1 probed_file_facts ''s'' Small ''{}'' ''t'')]
     (empty_database [sample_file] [sample_library] [sample_agent])"

definition probed_server :: server where
  "probed_server = sample_server\<lparr> sv_db := probed_store \<rparr>"

definition sample_evaluator :: evaluator where
  "sample_evaluator = \<lparr> er_hash = (\<lambda>s. s), er_policy_json = (\<lambda>p. Some ''v''), er_requirements_json = (\<lambda>r. None),
     er_thresholds = default_size_thresholds \<rparr>"

definition no_rules :: policy where
  "no_rules = \<lparr> po_rules = [], po_size_thresholds = default_size_thresholds \<rparr>"

lemma probed_server_ok: "server_ok undisturbed probed_server"
proof -
  have "store_ok probed_store" unfolding probed_store_def by (rule store_writes.run_kept[OF _ sample_store_ok]) simp
  then show ?thesis using sample_server_ok(2) by (simp add: server_ok_def probed_server_def)
qed

lemma probed_rows: "\<exists>r. db_files probed_store = [r] \<and> candidate ''l'' ''v'' r \<and> ft_id r = 1 \<and> ft_probe_at r \<noteq> None
    \<and> (\<exists>f. file_from_row r = Inr f)"
  by (simp add: probed_store_def run_writes_def apply_op_def record_probe_op_def op_run_new_op update_file_def sql_update_def
      empty_database_def candidate_def sample_file_def file_from_row_def parse_enum_def parse_opt_def file_state_parse_def
      size_bucket_spelling.parse_as_str size_bucket_parse_def)

lemma no_rules_class: "de_class (evaluate (facts_from_row r) no_rules) \<in> {DC_None, DC_Quarantined}"
  by (simp add: no_rules_def evaluate_def evaluate_explained_def Let_def finish_def push_trace_def)

lemma needs_eval_one:
  "db_files db = [r] \<Longrightarrow> file_from_row r = Inr f \<Longrightarrow> needs_eval library version eval_batch db
     = Inr (if candidate library version r then [f] else [])"
  by (auto simp: needs_eval_def candidate_def eval_batch_def bindR_def)

lemma evaluation_settles_library_witness:
  "\<exists>out t. evaluate_library sample_evaluator undisturbed 2 ''l'' no_rules probed_server = (Reply (Some out), t)
     \<and> eo_evaluated out = 1"
proof -
  note c = sample_server_ok(1)
  obtain r f where r: "db_files probed_store = [r]" "candidate ''l'' ''v'' r" "ft_id r = 1" "ft_probe_at r \<noteq> None" "file_from_row r = Inr f"
    using probed_rows by blast
  let ?d = "evaluate (facts_from_row r) no_rules"
  have f: "fr_id f = 1" "fr_facts f = Some (facts_from_row r)" using file_record_row[OF r(5)] r(3,4) by simp_all
  have v: "rules_version (er_hash sample_evaluator) (er_policy_json sample_evaluator) no_rules = ''v''"
    by (simp add: rules_version_def sample_evaluator_def)
  have s: "sv_db probed_server = probed_store" "sv_calls probed_server = 0" by (simp_all add: probed_server_def sample_server_def)
  obtain ack db where w: "apply_op (record_decision_op 1 (de_class ?d) (de_reason ?d) ''v'') (su_clock undisturbed (Suc 0)) probed_store = (Inr ack, db)"
    by (simp add: record_decision_op_def apply_op_def op_run_new_op update_file_def sql_update_def r(1,3))
  obtain q where q: "db_files db = [q]" "\<not> candidate ''l'' ''v'' q" "\<exists>g. file_from_row q = Inr g"
  proof -
    have "db_files db = [decided no_rules ''v'' (su_clock undisturbed (Suc 0)) r]"
      using decision_recorded[OF w] by (simp add: r(1,3) decided_def Let_def)
    moreover have "\<exists>g. file_from_row (decided no_rules ''v'' (su_clock undisturbed (Suc 0)) r) = Inr g"
      using r(5) by (auto simp: file_from_row_def decided_def Let_def bindR_def parse_opt_def parse_enum_def file_state_parse_def
          decision_class_spelling.parse_as_str split: sum.splits)
    ultimately show ?thesis using that by simp
  qed
  obtain out t where run: "evaluate_library sample_evaluator undisturbed 2 ''l'' no_rules probed_server = (Reply (Some out), t)"
  proof -
    obtain g where g: "file_from_row q = Inr g" using q(3) by blast
    have "de_class ?d = DC_None \<or> de_class ?d = DC_Quarantined" using no_rules_class[of r] by simp
    then show ?thesis using that
      by (auto simp: evaluate_library_def v numeral_2_eq_2 evaluate_one_def f handler_steps calm_read_store[OF c] calm_write_store[OF c] s w
          needs_eval_one[OF r(1,5)] r(2) needs_eval_one[OF q(1) g] q(2) no_evaluation_def Let_def)
  qed
  have e: "length (filter P [r]) = (if P r then 1 else 0)" for P :: "file_row \<Rightarrow> bool" by simp
  have stuck: "head_stuck ''l'' ''v'' (sv_db t) \<Longrightarrow> db_files (sv_db t) = [r] \<Longrightarrow> False"
    using r(2,4) by (simp add: head_stuck_def eval_batch_def)
  from evaluation_settles_library[OF c probed_server_ok v[symmetric], of 2 "''l''"]
  obtain h news where h: "db_files (sv_db t) = map h [r]" "head_stuck ''l'' ''v'' (sv_db t)" "eo_evaluated out = int (length (filter (\<lambda>r. h r \<noteq> r) [r]))"
    by (auto simp: run s r(1))
  have "h r \<noteq> r" using stuck h(1,2) by auto
  then show ?thesis using run h(3) by (auto simp: e)
qed

text \<open>A job that was created before for the same file, class, version and signature is never created again.\<close>

lemma job_id_taken:
  "nj_id j \<in> jt_id ` set (db_jobs db) \<Longrightarrow> \<exists>e. apply_op (create_op j) now db = (Inl e, db)"
  by (cases "insert_job (new_job_row j now) db")
    (auto simp: apply_op_def create_op_def op_run_new_op new_job_row_def dest!: insert_job_Inr(3))

end
