(* ===== verification/Prober.thy ===== *)
theory Prober
  imports Probe Facts Server_Steps
begin

text \<open>
  Probe ingestion (\<open>crates/transcodarr-server/src/prober.rs\<close>): every discovered file is handed to \<open>ffprobe\<close>
  once, and what it says, or that it failed, is stored. The program is an argument: for a path, whether
  it starts, how it is found at each poll, and what it leaves. The threads of a batch take its files in
  some order, which is an argument too. The loop over the batches has fuel.
\<close>

section \<open>Data\<close>

definition probe_batch_size :: nat where
  "probe_batch_size = 256"

definition default_probe_concurrency :: nat where
  "default_probe_concurrency = 16"

text \<open>A poll that finds the program running, and whether the deadline has passed; or one that fails.\<close>

datatype child_poll = CP_Running bool | CP_Failed string

record ffprobe_run =
  fp_spawn :: "string option"
  fp_polls :: "child_poll list"
  fp_collect :: "string option"
  fp_success :: bool
  fp_code :: "int option"
  fp_stdout :: "string + string"
  fp_stderr :: string

record prober =
  pb_timeout_secs :: nat
  pb_thresholds :: size_thresholds
  pb_ffprobe :: string
  pb_run :: "string \<Rightarrow> ffprobe_run"
  pb_json :: "string \<Rightarrow> string + raw_probe"
  pb_hash :: "string \<Rightarrow> string"
  pb_order :: "file_record list \<Rightarrow> file_record list"

record probe_outcome =
  po_probed :: i64
  po_failed :: i64

definition nothing_probed :: probe_outcome where
  "nothing_probed = \<lparr> po_probed = 0, po_failed = 0 \<rparr>"

section \<open>Running the program\<close>

fun last_start :: "nat \<Rightarrow> nat \<Rightarrow> string \<Rightarrow> nat \<Rightarrow> nat" where
  "last_start mx i [] best = best"
| "last_start mx i (c # cs) best =
     (if mx < i then best else last_start mx (Suc i) cs (if continues_char c then best else i))"

definition ellipsis :: string where
  "ellipsis = map char_of [226, 128, 166 :: nat]"

definition truncate_text :: "string \<Rightarrow> nat \<Rightarrow> string" where
  "truncate_text s mx = (if length s \<le> mx then s else take (last_start mx 0 s 0) s @ ellipsis)"

text \<open>Polls until the program ends, a poll fails or one finds it past the deadline.\<close>

fun wait_child :: "nat \<Rightarrow> child_poll list \<Rightarrow> string + unit" where
  "wait_child secs [] = Inr ()"
| "wait_child secs (CP_Running late # ps) =
     (if late then Inl (''ffprobe exceeded '' @ show_nat secs @ ''s'') else wait_child secs ps)"
| "wait_child secs (CP_Failed e # ps) = Inl (''waiting on ffprobe: '' @ e)"

definition run_ffprobe :: "prober \<Rightarrow> string \<Rightarrow> string + string" where
  "run_ffprobe pb p = (let run = pb_run pb p in
     case fp_spawn run of
       Some e \<Rightarrow> Inl (''could not run '' @ pb_ffprobe pb @ '': '' @ e)
     | None \<Rightarrow> bindR (wait_child (pb_timeout_secs pb) (fp_polls run)) (\<lambda>u.
         case fp_collect run of
           Some e \<Rightarrow> Inl (''collecting ffprobe output: '' @ e)
         | None \<Rightarrow>
             if \<not> fp_success run
             then Inl (''ffprobe exited '' @ show_int (or_default (- 1) (fp_code run)) @ '': '' @ truncate_text (fp_stderr run) 300)
             else (case fp_stdout run of Inl e \<Rightarrow> Inl (''ffprobe output was not UTF-8: '' @ e) | Inr out \<Rightarrow> Inr out)))"

section \<open>One file\<close>

definition record_failure :: "surroundings \<Rightarrow> file_record \<Rightarrow> string \<Rightarrow> ('b, server_error, unit) process" where
  "record_failure su f reason =
     thenH (write_store su (record_probe_failure_op (fr_id f) (truncate_text reason 500)))
       (failH (V_ProbeFailed (fr_canonical_path f) reason))"

definition probe_one :: "prober \<Rightarrow> surroundings \<Rightarrow> file_record \<Rightarrow> ('b, server_error, unit) process" where
  "probe_one pb su f =
     (case run_ffprobe pb (fr_canonical_path f) of
        Inl e \<Rightarrow> record_failure su f e
      | Inr raw \<Rightarrow> (case parse_ffprobe_json (pb_json pb) raw of
          Inl e \<Rightarrow> record_failure su f (''unparseable ffprobe output: '' @ show_core_error e)
        | Inr parsed \<Rightarrow>
            (let size = of_int (max 0 (fr_size_bytes f));
                 derived = derive_facts parsed size
             in thenH (write_store su (record_probe_op (fr_id f) derived (content_sig (pb_hash pb) derived)
                    (size_bucket_for size (pb_thresholds pb)) raw (pb_ffprobe pb)))
                  (retH ()))))"

section \<open>A library\<close>

fun probe_each :: "prober \<Rightarrow> surroundings \<Rightarrow> file_record list \<Rightarrow> probe_outcome \<Rightarrow> ('b, server_error, probe_outcome) process" where
  "probe_each pb su [] tally = retH tally"
| "probe_each pb su (f # fs) tally =
     bindH (caught (probe_one pb su f)) (\<lambda>r. case r of
       Inl e \<Rightarrow> probe_each pb su fs (tally\<lparr> po_failed := po_failed tally + 1 \<rparr>)
     | Inr u \<Rightarrow> probe_each pb su fs (tally\<lparr> po_probed := po_probed tally + 1 \<rparr>))"

definition probe_batch :: "prober \<Rightarrow> surroundings \<Rightarrow> file_record list \<Rightarrow> probe_outcome \<Rightarrow> ('b, server_error, probe_outcome) process" where
  "probe_batch pb su batch tally = probe_each pb su (pb_order pb batch) tally"

text \<open>\<open>None\<close> when the fuel runs out.\<close>

fun probe_library :: "prober \<Rightarrow> surroundings \<Rightarrow> string \<Rightarrow> nat \<Rightarrow> probe_outcome \<Rightarrow> ('b, server_error, probe_outcome option) process" where
  "probe_library pb su library 0 tally = retH None"
| "probe_library pb su library (Suc n) tally =
     bindH (read_store su (needs_probe library probe_batch_size)) (\<lambda>batch.
     if batch = [] then retH (Some tally)
     else bindH (probe_batch pb su batch tally) (\<lambda>tally'.
       if po_probed tally' + po_failed tally' = po_probed tally + po_failed tally then retH (Some tally')
       else probe_library pb su library n tally'))"

section \<open>Invariant\<close>

lemma probe_ops [simp]: "record_probe_op i fc s b j v \<in> store_ops" "record_probe_failure_op i r \<in> store_ops"
  by simp_all

lemma keeps_probe_one: "keeps (server_ok su) (probe_one pb su f)"
  unfolding probe_one_def record_failure_def Let_def by (intro server_store.step_keeps probe_ops)

lemma keeps_probe_each: "keeps (server_ok su) (probe_each pb su fs tally)"
  by (induction fs arbitrary: tally) (auto intro!: server_store.step_keeps keeps_probe_one)

section \<open>What a batch does\<close>

definition undiscovered :: "string \<Rightarrow> database \<Rightarrow> file_row list" where
  "undiscovered library db = filter (\<lambda>r. ft_library_id r = library \<and> ft_state r = ''Discovered'') (db_files db)"

text \<open>The program runs to its end on this path, succeeds and leaves output that parses.\<close>

definition readable :: "prober \<Rightarrow> string \<Rightarrow> bool" where
  "readable pb p = (case run_ffprobe pb p of
     Inl e \<Rightarrow> False | Inr raw \<Rightarrow> (case parse_ffprobe_json (pb_json pb) raw of Inl e \<Rightarrow> False | Inr parsed \<Rightarrow> True))"

text \<open>A probe moves the file it was for, as the program ended on it, and nothing else.\<close>

definition probed_over :: "prober \<Rightarrow> i64 set \<Rightarrow> database \<Rightarrow> database \<Rightarrow> bool" where
  "probed_over pb ids db db' \<longleftrightarrow> (\<exists>g. db_files db' = map g (db_files db)
     \<and> (\<forall>r \<in> set (db_files db). ft_id (g r) = ft_id r \<and> ft_library_id (g r) = ft_library_id r
          \<and> ft_canonical_path (g r) = ft_canonical_path r
          \<and> (if ft_id r \<in> ids then ft_state (g r) = (if readable pb (ft_canonical_path r) then ''Probed'' else ''ProbeFailed'')
             else g r = r)))"

definition knows :: "database \<Rightarrow> file_record \<Rightarrow> bool" where
  "knows db f \<longleftrightarrow> (\<forall>r \<in> set (db_files db). ft_id r = fr_id f \<longrightarrow> ft_canonical_path r = fr_canonical_path f)"

lemma probed_over_knows: "probed_over pb ids db db' \<Longrightarrow> knows db f \<Longrightarrow> knows db' f"
  by (auto simp: probed_over_def knows_def)

lemma probed_over_refl: "db_files db' = db_files db \<Longrightarrow> probed_over pb {} db db'"
  unfolding probed_over_def by (rule exI[of _ "\<lambda>r. r"]) simp

lemma probed_over_trans:
  assumes "probed_over pb ids db db1" "probed_over pb ids' db1 db2"
  shows "probed_over pb (ids \<union> ids') db db2"
proof -
  let ?to = "\<lambda>r. if readable pb (ft_canonical_path r) then ''Probed'' else ''ProbeFailed''"
  obtain g where g: "db_files db1 = map g (db_files db)" "\<forall>r \<in> set (db_files db). ft_id (g r) = ft_id r \<and> ft_library_id (g r) = ft_library_id r
      \<and> ft_canonical_path (g r) = ft_canonical_path r \<and> (if ft_id r \<in> ids then ft_state (g r) = ?to r else g r = r)"
    using assms(1) unfolding probed_over_def by blast
  obtain h where h: "db_files db2 = map h (db_files db1)" "\<forall>r \<in> set (db_files db1). ft_id (h r) = ft_id r \<and> ft_library_id (h r) = ft_library_id r
      \<and> ft_canonical_path (h r) = ft_canonical_path r \<and> (if ft_id r \<in> ids' then ft_state (h r) = ?to r else h r = r)"
    using assms(2) unfolding probed_over_def by blast
  show ?thesis unfolding probed_over_def
  proof (rule exI[of _ "\<lambda>r. h (g r)"], intro conjI ballI)
    show "db_files db2 = map (\<lambda>r. h (g r)) (db_files db)" by (simp add: h(1) g(1))
    fix r assume r: "r \<in> set (db_files db)"
    have hr: "ft_id (h (g r)) = ft_id (g r) \<and> ft_library_id (h (g r)) = ft_library_id (g r)
      \<and> ft_canonical_path (h (g r)) = ft_canonical_path (g r) \<and> (if ft_id (g r) \<in> ids' then ft_state (h (g r)) = ?to (g r) else h (g r) = g r)"
      using h(2) r by (simp add: g(1))
    have gr: "ft_id (g r) = ft_id r \<and> ft_library_id (g r) = ft_library_id r
      \<and> ft_canonical_path (g r) = ft_canonical_path r \<and> (if ft_id r \<in> ids then ft_state (g r) = ?to r else g r = r)"
      using g(2) r by blast
    show "ft_id (h (g r)) = ft_id r" "ft_library_id (h (g r)) = ft_library_id r" "ft_canonical_path (h (g r)) = ft_canonical_path r"
      using hr gr by simp_all
    show "if ft_id r \<in> ids \<union> ids' then ft_state (h (g r)) = ?to r else h (g r) = r"
      using hr gr by (cases "ft_id r \<in> ids'"; cases "ft_id r \<in> ids") simp_all
  qed
qed

lemma write_update:
  assumes "calm su"
  shows "\<exists>ack t. write_store su (new_op name (\<lambda>now. update_file i (h now))) s = (Reply ack, t)
    \<and> db_files (sv_db t) = map (\<lambda>r. if ft_id r = i then h (su_clock su (sv_calls s)) r else r) (db_files (sv_db s))"
  by (simp add: calm_write_store[OF assms] apply_op_def op_run_new_op update_file_def sql_update_def)

lemma probed_overI:
  assumes "db_files db' = map (\<lambda>r. if ft_id r = fr_id f then h r else r) (db_files db)" "knows db f"
    and "\<And>r. ft_id (h r) = ft_id r \<and> ft_library_id (h r) = ft_library_id r \<and> ft_canonical_path (h r) = ft_canonical_path r
       \<and> ft_state (h r) = (if readable pb (fr_canonical_path f) then ''Probed'' else ''ProbeFailed'')"
  shows "probed_over pb {fr_id f} db db'"
  unfolding probed_over_def using assms(2,3)
  by (intro exI[of _ "\<lambda>r. if ft_id r = fr_id f then h r else r"] conjI[OF assms(1)]) (auto simp: knows_def)

lemma probe_one_effect:
  assumes c: "calm su" and k: "knows (sv_db s) f"
  shows "\<exists>r t. probe_one pb su f s = (r, t) \<and> r \<noteq> Died \<and> probed_over pb {fr_id f} (sv_db s) (sv_db t)"
proof -
  have fail: "\<exists>r t. record_failure su f e s = (r, t) \<and> r \<noteq> Died \<and> probed_over pb {fr_id f} (sv_db s) (sv_db t)"
    if bad: "\<not> readable pb (fr_canonical_path f)" for e
  proof -
    obtain ack t where w: "write_store su (record_probe_failure_op (fr_id f) (truncate_text e 500)) s = (Reply ack, t)"
      "db_files (sv_db t) = map (\<lambda>r. if ft_id r = fr_id f then r\<lparr> ft_state := ''ProbeFailed'', ft_decision_reason := Some (truncate_text e 500) \<rparr> else r) (db_files (sv_db s))"
      unfolding record_probe_failure_op_def
      using write_update[OF c, where s = s and i = "fr_id f" and name = "''file.probe_failed:'' @ show_int (fr_id f)"
          and h = "\<lambda>now r. r\<lparr> ft_state := ''ProbeFailed'', ft_decision_reason := Some (truncate_text e 500) \<rparr>"] by blast
    have "probed_over pb {fr_id f} (sv_db s) (sv_db t)" by (rule probed_overI[OF w(2) k]) (simp add: bad)
    then show ?thesis using w(1) by (simp add: record_failure_def handler_steps)
  qed
  show ?thesis
  proof (cases "run_ffprobe pb (fr_canonical_path f)")
    case (Inl e) then show ?thesis using fail[of e] by (simp add: probe_one_def readable_def)
  next
    case run: (Inr raw)
    show ?thesis
    proof (cases "parse_ffprobe_json (pb_json pb) raw")
      case (Inl e) then show ?thesis using fail[of "''unparseable ffprobe output: '' @ show_core_error e"] run by (simp add: probe_one_def readable_def)
    next
      case (Inr parsed)
      define w where "w = (of_int (max 0 (fr_size_bytes f)) :: u64)"
      define op where "op = record_probe_op (fr_id f) (derive_facts parsed w) (content_sig (pb_hash pb) (derive_facts parsed w))
          (size_bucket_for w (pb_thresholds pb)) raw (pb_ffprobe pb)"
      obtain ack t where t: "write_store su op s = (Reply ack, t)" "probed_over pb {fr_id f} (sv_db s) (sv_db t)"
      proof -
        define h where "h = (\<lambda>now (r :: file_row). r\<lparr> ft_state := ''Probed'', ft_probe := probe_columns_of (derive_facts parsed w),
          ft_content_sig := Some (content_sig (pb_hash pb) (derive_facts parsed w)),
          ft_size_bucket := Some (size_bucket_as_str (size_bucket_for w (pb_thresholds pb))), ft_probe_json := Some raw,
          ft_probe_tool := Some (pb_ffprobe pb), ft_probe_at := Some now \<rparr>)"
        have opq: "op = new_op (''file.record_probe:'' @ show_int (fr_id f)) (\<lambda>now. update_file (fr_id f) (h now))"
          by (simp add: op_def h_def record_probe_op_def)
        obtain ack t where u: "write_store su op s = (Reply ack, t)"
          "db_files (sv_db t) = map (\<lambda>r. if ft_id r = fr_id f then h (su_clock su (sv_calls s)) r else r) (db_files (sv_db s))"
          unfolding opq
          using write_update[OF c, where s = s and i = "fr_id f" and name = "''file.record_probe:'' @ show_int (fr_id f)" and h = h] by blast
        have "probed_over pb {fr_id f} (sv_db s) (sv_db t)" by (rule probed_overI[OF u(2) k]) (simp add: h_def run Inr readable_def)
        then show ?thesis using that u(1) by blast
      qed
      have "probe_one pb su f s = thenH (write_store su op) (retH ()) s"
        using run Inr by (simp add: probe_one_def Let_def op_def w_def)
      then show ?thesis using t by (simp add: handler_steps)
    qed
  qed
qed

lemma probe_each_effect:
  assumes c: "calm su"
  shows "\<forall>f \<in> set fs. knows (sv_db s) f \<Longrightarrow> \<exists>tally' t. probe_each pb su fs tally s = (Reply tally', t)
    \<and> probed_over pb (set (map fr_id fs)) (sv_db s) (sv_db t)
    \<and> po_probed tally' + po_failed tally' = po_probed tally + po_failed tally + int (length fs)"
proof (induction fs arbitrary: s tally)
  case Nil then show ?case by (simp add: retH_def probed_over_refl)
next
  case (Cons f fs)
  obtain r t where 1: "probe_one pb su f s = (r, t)" "r \<noteq> Died" "probed_over pb {fr_id f} (sv_db s) (sv_db t)"
    using probe_one_effect[OF c, of s f pb] Cons.prems by auto
  obtain tally1 where step: "probe_each pb su (f # fs) tally s = probe_each pb su fs tally1 t"
    "po_probed tally1 + po_failed tally1 = po_probed tally + po_failed tally + 1"
    using 1(1,2) by (cases r) (auto simp: handler_steps)
  have "\<forall>f \<in> set fs. knows (sv_db t) f" using Cons.prems probed_over_knows[OF 1(3)] by simp
  from Cons.IH[OF this, of tally1] obtain tally' u where 2: "probe_each pb su fs tally1 t = (Reply tally', u)"
    "probed_over pb (set (map fr_id fs)) (sv_db t) (sv_db u)"
    "po_probed tally' + po_failed tally' = po_probed tally1 + po_failed tally1 + int (length fs)" by blast
  show ?case using probed_over_trans[OF 1(3) 2(2)] 2 step by (intro exI[of _ tally'] exI[of _ u]) simp
qed

lemma file_record_path: "file_from_row r = Inr f \<Longrightarrow> fr_canonical_path f = ft_canonical_path r"
  by (auto simp: file_from_row_def bindR_def split: sum.splits)

lemma needs_probe_rows:
  assumes "files_ok db"
  shows "\<exists>fs. needs_probe library limit db = Inr fs \<and> map fr_id fs = map ft_id (take limit (sort_key ft_id (undiscovered library db)))
    \<and> (\<forall>f \<in> set fs. knows db f)"
proof -
  let ?rs = "take limit (sort_key ft_id (undiscovered library db))"
  have sub: "\<forall>r \<in> set ?rs. r \<in> set (db_files db)" using set_take_subset by (fastforce simp: undiscovered_def)
  then have "\<forall>r \<in> set ?rs. \<exists>f. file_from_row r = Inr f" using assms file_row_parses unfolding files_ok_def by blast
  from collect_total[OF this] obtain fs where fs: "collect (map file_from_row ?rs) = Inr fs" by blast
  have "knows db f" if inn: "f \<in> set fs" for f
  proof -
    obtain r where r: "r \<in> set ?rs" "file_from_row r = Inr f" using bspec[OF conjunct1[OF conjunct2[OF collect_rows[OF fs]]] inn] by (elim bexE)
    have m: "r \<in> set (db_files db)" using sub r(1) by blast
    have inj: "inj_on ft_id (set (db_files db))" using assms unfolding files_ok_def distinct_map by blast
    show ?thesis unfolding knows_def
    proof (intro ballI impI)
      fix q assume "q \<in> set (db_files db)" "ft_id q = fr_id f"
      then have "q = r" using inj_onD[OF inj _ _ m] file_record_row(1)[OF r(2)] by simp
      then show "ft_canonical_path q = fr_canonical_path f" using file_record_path[OF r(2)] by simp
    qed
  qed
  then show ?thesis using fs conjunct1[OF collect_rows[OF fs]] by (simp add: needs_probe_def undiscovered_def)
qed

lemma probed_over_undiscovered:
  assumes "probed_over pb ids db db'"
  shows "map ft_id (undiscovered library db') = map ft_id (filter (\<lambda>r. ft_id r \<notin> ids) (undiscovered library db))"
proof -
  obtain g where g0: "db_files db' = map g (db_files db)" "\<forall>r \<in> set (db_files db). ft_id (g r) = ft_id r \<and> ft_library_id (g r) = ft_library_id r
     \<and> ft_canonical_path (g r) = ft_canonical_path r
     \<and> (if ft_id r \<in> ids then ft_state (g r) = (if readable pb (ft_canonical_path r) then ''Probed'' else ''ProbeFailed'') else g r = r)"
    using assms(1) unfolding probed_over_def by blast
  have g: "db_files db' = map g (db_files db)" "\<forall>r \<in> set (db_files db). ft_id (g r) = ft_id r \<and> ft_library_id (g r) = ft_library_id r
     \<and> (if ft_id r \<in> ids then ft_state (g r) \<in> {''Probed'', ''ProbeFailed''} else g r = r)"
    using g0 by auto
  have "\<forall>r \<in> set rs. ft_id (g r) = ft_id r \<and> ft_library_id (g r) = ft_library_id r
     \<and> (if ft_id r \<in> ids then ft_state (g r) \<in> {''Probed'', ''ProbeFailed''} else g r = r) \<Longrightarrow>
    map ft_id (filter (\<lambda>r. ft_library_id r = library \<and> ft_state r = ''Discovered'') (map g rs))
      = map ft_id (filter (\<lambda>r. ft_id r \<notin> ids) (filter (\<lambda>r. ft_library_id r = library \<and> ft_state r = ''Discovered'') rs))" for rs
  proof (induction rs)
    case (Cons r rs)
    then show ?case by (cases "ft_id r \<in> ids") auto
  qed simp
  then show ?thesis using g by (simp add: undiscovered_def)
qed

lemma length_filter_out:
  assumes "distinct (map ft_id rs)" "S \<subseteq> ft_id ` set rs" "finite S"
  shows "length rs = length (filter (\<lambda>r. ft_id r \<notin> S) rs) + card S"
proof -
  have d: "distinct rs" "inj_on ft_id (set rs)" using assms(1) by (simp_all add: distinct_map)
  have "card S = card (ft_id ` {r \<in> set rs. ft_id r \<in> S})" using assms(2) by (intro arg_cong[of _ _ card]) auto
  also have "\<dots> = card {r \<in> set rs. ft_id r \<in> S}" using d(2) by (intro card_image) (auto simp: inj_on_def)
  also have "\<dots> = length (filter (\<lambda>r. ft_id r \<in> S) rs)" using d(1) by (simp add: distinct_length_filter Int_def conj_commute)
  finally show ?thesis using sum_length_filter_compl[of "\<lambda>r. ft_id r \<notin> S" rs] by simp
qed

lemma probe_library_effect:
  assumes c: "calm su" and fair: "\<And>fs. mset (pb_order pb fs) = mset fs"
  shows "server_ok su s \<Longrightarrow> length (undiscovered library (sv_db s)) < fuel
    \<Longrightarrow> \<exists>out t. probe_library pb su library fuel tally s = (Reply (Some out), t) \<and> undiscovered library (sv_db t) = []
      \<and> po_probed out + po_failed out = po_probed tally + po_failed tally + int (length (undiscovered library (sv_db s)))
      \<and> probed_over pb (ft_id ` set (undiscovered library (sv_db s))) (sv_db s) (sv_db t)"
proof (induction fuel arbitrary: s tally)
  case (Suc k)
  let ?un = "undiscovered library (sv_db s)"
  have ok: "files_ok (sv_db s)" using Suc.prems(1) by (simp add: server_ok_def store_ok_def)
  have dist: "distinct (map ft_id (db_files (sv_db s)))" using ok by (simp add: files_ok_def)
  then have dun: "distinct (map ft_id ?un)" by (simp add: undiscovered_def distinct_map inj_on_def)
  obtain fs where fs: "needs_probe library probe_batch_size (sv_db s) = Inr fs"
    "map fr_id fs = map ft_id (take probe_batch_size (sort_key ft_id ?un))" "\<forall>f \<in> set fs. knows (sv_db s) f"
    using needs_probe_rows[OF ok] by blast
  let ?s1 = "s\<lparr> sv_calls := Suc (sv_calls s) \<rparr>"
  have empty: "fs = [] \<longleftrightarrow> ?un = []"
  proof -
    have "length fs = min (length ?un) probe_batch_size" using arg_cong[OF fs(2), of length] by (simp add: min.commute)
    then show ?thesis by (cases fs; cases ?un) (simp_all add: probe_batch_size_def)
  qed
  show ?case
  proof (cases "fs = []")
    case True
    then have "probe_library pb su library (Suc k) tally s = (Reply (Some tally), ?s1)"
      using fs(1) by (simp add: bindH_def calm_read_store[OF c] retH_def)
    then show ?thesis using empty True by (auto intro: probed_over_refl)
  next
    case False
    let ?ids = "set (map fr_id fs)"
    have perm: "set (pb_order pb fs) = set fs" "length (pb_order pb fs) = length fs"
      using fair[of fs] by (metis mset_eq_setD, metis mset_eq_length)
    obtain tally1 t where 1: "probe_batch pb su fs tally ?s1 = (Reply tally1, t)"
      "probed_over pb (set (map fr_id (pb_order pb fs))) (sv_db ?s1) (sv_db t)"
      "po_probed tally1 + po_failed tally1 = po_probed tally + po_failed tally + int (length (pb_order pb fs))"
      using probe_each_effect[OF c, of "pb_order pb fs" ?s1 pb tally] fs(3) perm(1) unfolding probe_batch_def by auto
    have over: "probed_over pb ?ids (sv_db s) (sv_db t)" using 1(2) perm(1) by simp
    have sub: "?ids \<subseteq> ft_id ` set ?un" unfolding fs(2) using set_take_subset by fastforce
    have ids: "map ft_id (undiscovered library (sv_db t)) = map ft_id (filter (\<lambda>r. ft_id r \<notin> ?ids) ?un)"
      by (rule probed_over_undiscovered[OF over])
    have card: "card ?ids = length fs"
    proof -
      have "distinct (map fr_id fs)" unfolding fs(2) using dun by (simp add: take_map[symmetric]) (metis distinct_map distinct_sort distinct_take inj_on_def set_sort distinct_map)
      then show ?thesis using distinct_card by fastforce
    qed
    have len: "length ?un = length (undiscovered library (sv_db t)) + length fs"
      using length_filter_out[OF dun sub] card arg_cong[OF ids, of length] by simp
    have ok1: "server_ok su t"
    proof -
      have "server_ok su ?s1" using Suc.prems(1) by (simp add: server_ok_def)
      from keepsD[OF keeps_probe_each this, of pb "pb_order pb fs" tally] 1(1) show ?thesis by (simp add: probe_batch_def)
    qed
    have "length (undiscovered library (sv_db t)) < k" using Suc.prems(2) len False by (cases fs) auto
    from Suc.IH[OF ok1 this, of tally1] obtain out u where u: "probe_library pb su library k tally1 t = (Reply (Some out), u)"
      "undiscovered library (sv_db u) = []"
      "po_probed out + po_failed out = po_probed tally1 + po_failed tally1 + int (length (undiscovered library (sv_db t)))"
      "probed_over pb (ft_id ` set (undiscovered library (sv_db t))) (sv_db t) (sv_db u)" by blast
    have "po_probed tally1 + po_failed tally1 \<noteq> po_probed tally + po_failed tally" using 1(3) perm(2) False by simp
    then have "probe_library pb su library (Suc k) tally s = (Reply (Some out), u)"
      using fs(1) False 1(1) u(1) by (simp add: bindH_def calm_read_store[OF c])
    moreover have "?ids \<union> ft_id ` set (undiscovered library (sv_db t)) = ft_id ` set ?un"
    proof -
      have "ft_id ` set (undiscovered library (sv_db t)) = ft_id ` {r \<in> set ?un. ft_id r \<notin> ?ids}"
        using arg_cong[OF ids, of set] by simp
      then show ?thesis using sub by auto
    qed
    moreover have "probed_over pb (?ids \<union> ft_id ` set (undiscovered library (sv_db t))) (sv_db s) (sv_db u)"
      by (rule probed_over_trans[OF over u(4)])
    ultimately show ?thesis using u(2,3) 1(3) perm(2) len by (intro exI[of _ out] exI[of _ u]) simp
  qed
qed simp


section \<open>Properties\<close>

text \<open>
  C37. Ingestion ends, and with an empty queue: with fuel for one batch more than there are discovered
  files, an undisturbed pass over a library handles each of them, in whatever order the threads take
  them, and leaves none discovered; the file of each is then probed or failed according to how the
  program ended on its own path, the tally adds up to their number, and no other row changes.
\<close>

theorem probing_empties_the_queue:
  assumes "calm su" "server_ok su s" "\<And>fs. mset (pb_order pb fs) = mset fs"
    and "length (undiscovered library (sv_db s)) < fuel"
  shows "\<exists>out t. probe_library pb su library fuel nothing_probed s = (Reply (Some out), t)
    \<and> undiscovered library (sv_db t) = []
    \<and> po_probed out + po_failed out = int (length (undiscovered library (sv_db s)))
    \<and> probed_over pb (ft_id ` set (undiscovered library (sv_db s))) (sv_db s) (sv_db t)"
  using probe_library_effect[OF assms(1,3,2,4), of nothing_probed] by (simp add: nothing_probed_def)

definition sample_prober :: prober where
  "sample_prober = \<lparr> pb_timeout_secs = 30, pb_thresholds = default_size_thresholds, pb_ffprobe = ''ffprobe'',
     pb_run = (\<lambda>p. \<lparr> fp_spawn = None, fp_polls = [CP_Running False], fp_collect = None, fp_success = False, fp_code = Some 1,
       fp_stdout = Inr [], fp_stderr = ''no'' \<rparr>),
     pb_json = (\<lambda>raw. Inl raw), pb_hash = (\<lambda>x. x), pb_order = rev \<rparr>"

lemma sample_undiscovered: "undiscovered ''l'' (sv_db sample_server) = [sample_file]"
  by (simp add: undiscovered_def sample_server_files sample_file_def)

lemma probing_empties_the_queue_witness:
  "\<exists>out t. probe_library sample_prober undisturbed ''l'' 2 nothing_probed sample_server = (Reply (Some out), t)
    \<and> po_probed out + po_failed out = 1 \<and> map ft_state (db_files (sv_db t)) = [''ProbeFailed'']"
proof -
  have fair: "mset (pb_order sample_prober fs) = mset fs" for fs by (simp add: sample_prober_def)
  have fuel: "length (undiscovered ''l'' (sv_db sample_server)) < 2" by (simp add: sample_undiscovered)
  obtain out t where r: "probe_library sample_prober undisturbed ''l'' 2 nothing_probed sample_server = (Reply (Some out), t)"
    "po_probed out + po_failed out = 1" "probed_over sample_prober {ft_id sample_file} (sv_db sample_server) (sv_db t)"
    using probing_empties_the_queue[OF sample_server_ok fair fuel] by (auto simp: sample_undiscovered)
  have "\<not> readable sample_prober p" for p
    by (simp add: readable_def run_ffprobe_def sample_prober_def bindR_def)
  then have "map ft_state (db_files (sv_db t)) = [''ProbeFailed'']"
    using r(3) by (auto simp: probed_over_def sample_server_files)
  with r(1,2) show ?thesis by (intro exI conjI)
qed

section \<open>A writer that has stopped\<close>

text \<open>
  The guard against a pass without progress looks at the tally, and a file whose outcome could not be
  written is tallied as failed: when reads succeed and no write does, the pass has no end.
\<close>

definition writer_gone :: surroundings where
  "writer_gone = undisturbed\<lparr> su_fault := (\<lambda>k. if odd k then Some SE_WriterStopped else None) \<rparr>"

lemma gone_read: "even (sv_calls s) \<Longrightarrow> read_store writer_gone f s = (case f (sv_db s) of
    Inl e \<Rightarrow> (Broken (V_Store e), s\<lparr> sv_calls := Suc (sv_calls s) \<rparr>) | Inr a \<Rightarrow> (Reply a, s\<lparr> sv_calls := Suc (sv_calls s) \<rparr>))"
  by (simp add: read_store_def read_db_def others_act_def writer_gone_def undisturbed_def handler_steps split: sum.split)

lemma gone_write: "odd (sv_calls s) \<Longrightarrow> write_store writer_gone op s = (Broken (V_Store SE_WriterStopped), s\<lparr> sv_calls := Suc (sv_calls s) \<rparr>)"
  by (simp add: write_store_def submit_def others_act_def writer_gone_def undisturbed_def handler_steps Let_def)

lemma gone_probe: "odd (sv_calls s) \<Longrightarrow> probe_one pb writer_gone f s = (Broken (V_Store SE_WriterStopped), s\<lparr> sv_calls := Suc (sv_calls s) \<rparr>)"
  by (simp add: probe_one_def record_failure_def Let_def thenH_def bindH_def gone_write split: sum.split)

lemma probing_without_writer_never_ends:
  assumes one: "\<And>f. pb_order pb [f] = [f]" and un: "undiscovered library (sv_db s) = [r]" and ok: "files_ok (sv_db s)"
    and ev: "even (sv_calls s)"
  shows "fst (probe_library pb writer_gone library fuel tally s) = Reply None"
  using un ok ev
proof (induction fuel arbitrary: s tally)
  case (Suc k)
  obtain fs where fs: "needs_probe library probe_batch_size (sv_db s) = Inr fs" "map fr_id fs = [ft_id r]"
    using needs_probe_rows[OF Suc.prems(2), of library probe_batch_size] Suc.prems(1) by (auto simp: probe_batch_size_def)
  obtain f where f: "fs = [f]" using fs(2) by auto
  let ?s2 = "s\<lparr> sv_calls := Suc (Suc (sv_calls s)) \<rparr>"
  have "probe_library pb writer_gone library (Suc k) tally s = probe_library pb writer_gone library k (tally\<lparr> po_failed := po_failed tally + 1 \<rparr>) ?s2"
    using Suc.prems(3) by (simp add: bindH_def gone_read fs(1) f probe_batch_def one caught_def gone_probe retH_def)
  then show ?case using Suc.IH[of ?s2] Suc.prems by simp
qed (simp add: retH_def)

end
