(* ===== verification/Scanner.thy ===== *)
theory Scanner
  imports Paths Server_Steps
begin

text \<open>
  Discovery (\<open>crates/transcodarr-server/src/scanner.rs\<close>): one pass walks a library, records every media
  file under the generation of its run, and marks what it did not see, unless too much went missing at
  once. The directory walker is a package: it is an argument that takes the root, the depth limit and the
  filter and yields its results in order. So are the directory test, the path hash and the stop-watch.
  A submitted write is applied when it is submitted; its acknowledgement is looked at by \<open>drain\<close>.
\<close>

section \<open>Data\<close>

text \<open>A modification time is in nanoseconds from the epoch, negative before it.\<close>

record file_meta =
  fm_len :: u64
  fm_modified :: "int option"
  fm_ino :: u64
  fm_dev :: u64
  fm_nlink :: u64

datatype entry_kind = EK_Dir | EK_File | EK_Other

record walk_entry =
  we_path :: path
  we_depth :: nat
  we_name :: string
  we_kind :: entry_kind
  we_meta :: "string + file_meta"

type_synonym walker = "string \<Rightarrow> nat \<Rightarrow> (walk_entry \<Rightarrow> bool) \<Rightarrow> (string + walk_entry) list"

record scan_options =
  so_media_extensions :: "string list"
  so_excluded_dirs :: "string list"
  so_max_depth :: nat
  so_mass_missing_percent :: f64
  so_mass_missing_floor :: i64

definition default_excluded_dirs :: "string list" where
  "default_excluded_dirs = [''.zfs'', ''work'', ''trash'', ''@eaDir'', ''lost+found'']"

definition default_media_extensions :: "string list" where
  "default_media_extensions = [''mkv'', ''mp4'', ''m4v'', ''avi'', ''mov'', ''ts'', ''m2ts'', ''mts'', ''wmv'', ''flv'',
     ''webm'', ''mpg'', ''mpeg'', ''ogv'', ''divx'']"

definition default_scan_options :: scan_options where
  "default_scan_options = \<lparr> so_media_extensions = default_media_extensions, so_excluded_dirs = default_excluded_dirs,
     so_max_depth = 32, so_mass_missing_percent = 10, so_mass_missing_floor = 25 \<rparr>"

record scan_outcome =
  sc_run_id :: i64
  sc_generation :: i64
  sc_files_seen :: i64
  sc_files_new :: i64
  sc_files_changed :: i64
  sc_files_missing :: i64
  sc_files_too_recent :: i64
  sc_duration_ms :: i64

record walk_counts =
  wc_seen :: i64
  wc_new :: i64
  wc_changed :: i64
  wc_too_recent :: i64

definition no_counts :: walk_counts where
  "no_counts = \<lparr> wc_seen = 0, wc_new = 0, wc_changed = 0, wc_too_recent = 0 \<rparr>"

record scan_host =
  sh_is_dir :: "string \<Rightarrow> bool"
  sh_walker :: walker
  sh_hash :: "string \<Rightarrow> string"
  sh_elapsed :: "nat \<Rightarrow> i64"
  sh_show :: "server_error \<Rightarrow> string"

section \<open>What is discovered\<close>

definition is_own_area :: "library_record \<Rightarrow> path \<Rightarrow> bool" where
  "is_own_area l p \<longleftrightarrow> list_ex (\<lambda>dir. dir \<noteq> [] \<and> (p = path_new dir \<or> prefix (path_new dir) p)) [lr_work_dir l, lr_trash_dir l]"

definition is_excluded_dir :: "scan_options \<Rightarrow> walk_entry \<Rightarrow> bool" where
  "is_excluded_dir opts e \<longleftrightarrow> we_kind e = EK_Dir \<and> we_depth e \<noteq> 0 \<and> list_ex (\<lambda>d. d = we_name e) (so_excluded_dirs opts)"

definition entry_wanted :: "scan_options \<Rightarrow> library_record \<Rightarrow> walk_entry \<Rightarrow> bool" where
  "entry_wanted opts l e \<longleftrightarrow> \<not> is_excluded_dir opts e \<and> \<not> (we_kind e = EK_Dir \<and> is_own_area l (we_path e))"

definition is_media :: "scan_options \<Rightarrow> path \<Rightarrow> bool" where
  "is_media opts p = (case extension p of
     Some ext \<Rightarrow> list_ex (\<lambda>m. m = to_lower ext) (so_media_extensions opts) | None \<Rightarrow> False)"

definition mtime_secs :: "file_meta \<Rightarrow> i64" where
  "mtime_secs m = (case fm_modified m of None \<Rightarrow> 0 | Some t \<Rightarrow> if 0 \<le> t then t div 1000000000 else 0)"

definition mtime_subsec_nanos :: "file_meta \<Rightarrow> i64" where
  "mtime_subsec_nanos m = (case fm_modified m of None \<Rightarrow> 0 | Some t \<Rightarrow> if 0 \<le> t then t mod 1000000000 else 0)"

definition upsert_of :: "scan_host \<Rightarrow> library_record \<Rightarrow> i64 \<Rightarrow> walk_entry \<Rightarrow> file_meta \<Rightarrow> file_upsert" where
  "upsert_of sh l generation e m = \<lparr> fu_library_id = lr_id l, fu_canonical_path = path_display (we_path e),
     fu_path_hash = sh_hash sh (path_display (we_path e)), fu_size_bytes = sint (fm_len m), fu_mtime_unix = mtime_secs m,
     fu_mtime_ns = mtime_subsec_nanos m, fu_inode = Some (sint (fm_ino m)), fu_dev = Some (sint (fm_dev m)),
     fu_nlink = sint (fm_nlink m), fu_scan_generation = generation \<rparr>"

text \<open>A known file is counted new when it was missing, changed when its size or time moved.\<close>

definition count_identity :: "file_upsert \<Rightarrow> file_identity option \<Rightarrow> walk_counts \<Rightarrow> walk_counts" where
  "count_identity u found c =
     (let c = (case found of
          None \<Rightarrow> c\<lparr> wc_new := wc_new c + 1 \<rparr>
        | Some prev \<Rightarrow>
            if fi_state prev = ''Missing'' then c\<lparr> wc_new := wc_new c + 1 \<rparr>
            else if fi_size_bytes prev \<noteq> fu_size_bytes u \<or> fi_mtime_unix prev \<noteq> fu_mtime_unix u \<or> fi_mtime_ns prev \<noteq> fu_mtime_ns u
            then c\<lparr> wc_changed := wc_changed c + 1 \<rparr> else c)
      in c\<lparr> wc_seen := wc_seen c + 1 \<rparr>)"

section \<open>The walk\<close>

definition upsert_batch :: nat where
  "upsert_batch = 500"

text \<open>The first failure among the acknowledgements, after all of them were received.\<close>

definition drain_acks :: "(store_error + write_ack) list \<Rightarrow> ('b, server_error, unit) process" where
  "drain_acks pending = (case List.map_filter (\<lambda>r. case r of Inl e \<Rightarrow> Some e | Inr ack \<Rightarrow> None) pending of
     [] \<Rightarrow> retH () | e # _ \<Rightarrow> failH (V_Store e))"

fun walk_entries :: "scan_host \<Rightarrow> scan_options \<Rightarrow> surroundings \<Rightarrow> library_record \<Rightarrow> i64 \<Rightarrow> i64 \<Rightarrow> (string + walk_entry) list
    \<Rightarrow> walk_counts \<Rightarrow> (store_error + write_ack) list \<Rightarrow> ('b, server_error, walk_counts) process" where
  "walk_entries sh opts su l generation now [] c pending = thenH (drain_acks pending) (retH c)"
| "walk_entries sh opts su l generation now (Inl err # es) c pending = walk_entries sh opts su l generation now es c pending"
| "walk_entries sh opts su l generation now (Inr e # es) c pending =
     (if we_kind e \<noteq> EK_File \<or> \<not> is_media opts (we_path e) then walk_entries sh opts su l generation now es c pending
      else (case we_meta e of
          Inl err \<Rightarrow> walk_entries sh opts su l generation now es c pending
        | Inr m \<Rightarrow>
            if sat_i64 (now - mtime_secs m) < lr_min_mtime_age_s l
            then walk_entries sh opts su l generation now es (c\<lparr> wc_too_recent := wc_too_recent c + 1 \<rparr>) pending
            else (let u = upsert_of sh l generation e m
                  in bindH (read_store su (\<lambda>db. Inr (file_identity_of (lr_id l) (fu_path_hash u) db))) (\<lambda>found.
                     bindH (submit su (upsert_file_op u)) (\<lambda>ack.
                       let pending = pending @ [ack]
                       in if upsert_batch \<le> length pending
                          then thenH (drain_acks pending) (walk_entries sh opts su l generation now es (count_identity u found c) [])
                          else walk_entries sh opts su l generation now es (count_identity u found c) pending)))))"

definition walk :: "scan_host \<Rightarrow> scan_options \<Rightarrow> surroundings \<Rightarrow> library_record \<Rightarrow> i64 \<Rightarrow> ('b, server_error, walk_counts) process" where
  "walk sh opts su l generation =
     bindH (now_unix su) (\<lambda>now.
       walk_entries sh opts su l generation now (sh_walker sh (lr_root_path l) (so_max_depth opts) (entry_wanted opts l)) no_counts [])"

section \<open>The pass\<close>

definition f64_of_i64 :: "i64 \<Rightarrow> f64" where
  "f64_of_i64 i = f64_round (of_int i)"

definition mass_missing_check :: "scan_options \<Rightarrow> library_record \<Rightarrow> i64 \<Rightarrow> i64 \<Rightarrow> server_error option" where
  "mass_missing_check opts l would_be_missing live_before =
     (if live_before \<le> 0 \<or> would_be_missing \<le> so_mass_missing_floor opts then None
      else let percent = f64_mul (f64_div (f64_of_i64 would_be_missing) (f64_of_i64 live_before)) 100
           in if percent \<le> so_mass_missing_percent opts then None
              else Some (V_MassMissing (lr_id l) would_be_missing live_before percent (so_mass_missing_percent opts)))"

definition close_run :: "scan_host \<Rightarrow> surroundings \<Rightarrow> i64 \<Rightarrow> string \<Rightarrow> string option \<Rightarrow> ('b, server_error, unit) process" where
  "close_run sh su run status reason s =
     bindH (submit su (finish_scan_run_op run status reason (sh_elapsed sh (sv_calls s)))) (\<lambda>r. retH ()) s"

text \<open>The row identifier is always reported; its absence would end the process.\<close>

definition begin_run :: "surroundings \<Rightarrow> library_record \<Rightarrow> string \<Rightarrow> ('b, server_error, i64) process" where
  "begin_run su l mode = bindH (write_store su (begin_scan_run_op (lr_id l) mode)) (\<lambda>ack s.
     (case ack_last_id ack of Some i \<Rightarrow> (Reply i, s) | None \<Rightarrow> (Died, s)))"

definition run_generation :: "surroundings \<Rightarrow> library_record \<Rightarrow> i64 \<Rightarrow> ('b, server_error, i64) process" where
  "run_generation su l run =
     bindH (read_store su (\<lambda>db. Inr (last_scan_run (lr_id l) db))) (\<lambda>found. case found of
       Some r \<Rightarrow> if sr_id r = run then retH (sr_scan_generation r)
                 else failH (V_Io (IO_Other ''the scan run just opened could not be read back''))
     | None \<Rightarrow> failH (V_Io (IO_Other ''the scan run just opened could not be read back'')))"

definition record_scan :: "scan_host \<Rightarrow> surroundings \<Rightarrow> library_record \<Rightarrow> i64 \<Rightarrow> i64 \<Rightarrow> walk_counts \<Rightarrow> i64
    \<Rightarrow> ('b, server_error, scan_outcome) process" where
  "record_scan sh su l run generation c would_be_missing =
     thenH (if 0 < would_be_missing then thenH (write_store su (mark_missing_op (lr_id l) generation)) (retH ()) else retH ())
     (bindH (\<lambda>s. (Reply (sh_elapsed sh (sv_calls s)), s)) (\<lambda>duration.
     thenH (write_store su (update_scan_counts_op run (wc_seen c) (wc_new c) (wc_changed c) would_be_missing 0))
     (thenH (close_run sh su run ''ok'' None)
       (retH \<lparr> sc_run_id = run, sc_generation = generation, sc_files_seen = wc_seen c, sc_files_new = wc_new c,
          sc_files_changed = wc_changed c, sc_files_missing = would_be_missing, sc_files_too_recent = wc_too_recent c,
          sc_duration_ms = duration \<rparr>))))"

definition scan_library :: "scan_host \<Rightarrow> scan_options \<Rightarrow> surroundings \<Rightarrow> library_record \<Rightarrow> string
    \<Rightarrow> ('b, server_error, scan_outcome) process" where
  "scan_library sh opts su l mode =
     (if \<not> sh_is_dir sh (lr_root_path l) then failH (V_LibraryRootUnreadable (lr_id l) (lr_root_path l))
      else bindH (read_store su (\<lambda>db. Inr (count_live (lr_id l) db))) (\<lambda>live_before.
        bindH (begin_run su l mode) (\<lambda>run.
        bindH (run_generation su l run) (\<lambda>generation.
        bindH (caught (walk sh opts su l generation)) (\<lambda>walked. case walked of
          Inl e \<Rightarrow> thenH (close_run sh su run ''aborted'' (Some (''walk failed: '' @ sh_show sh e))) (failH e)
        | Inr c \<Rightarrow>
            bindH (read_store su (\<lambda>db. Inr (count_not_seen_in (lr_id l) generation db))) (\<lambda>would_be_missing.
              case mass_missing_check opts l would_be_missing live_before of
                Some err \<Rightarrow> thenH (close_run sh su run ''aborted'' (Some (sh_show sh err))) (failH err)
              | None \<Rightarrow> record_scan sh su l run generation c would_be_missing))))))"

section \<open>Invariant\<close>

lemma scan_ops [simp]: "upsert_file_op u \<in> store_ops" "mark_missing_op i g \<in> store_ops" "begin_scan_run_op i m \<in> store_ops"
  "update_scan_counts_op r a b c d e \<in> store_ops" "finish_scan_run_op r st x y \<in> store_ops"
  by simp_all

lemma keeps_drain: "keeps (server_ok su) (drain_acks pending)"
  unfolding drain_acks_def by (cases "List.map_filter (\<lambda>r. case r of Inl e \<Rightarrow> Some e | Inr ack \<Rightarrow> None) pending")
    (auto intro!: server_store.step_keeps)

lemma keeps_walk_entries: "keeps (server_ok su) (walk_entries sh opts su l generation now es c pending)"
  by (induction sh opts su l generation now es c pending rule: walk_entries.induct)
    (auto intro!: server_store.step_keeps keeps_drain simp: Let_def)

lemma keeps_close_run: "keeps (server_ok su) (close_run sh su run status reason)"
proof (rule specI)
  fix s r t assume s: "server_ok su s" and run: "close_run sh su run status reason s = (r, t)"
  have "keeps (server_ok su) (bindH (submit su (finish_scan_run_op run status reason (sh_elapsed sh (sv_calls s)))) (\<lambda>r. retH ()))"
    by (intro server_store.step_keeps scan_ops)
  from specD[OF this s run[unfolded close_run_def]] show "case r of Reply a \<Rightarrow> server_ok su t | _ \<Rightarrow> server_ok su t" .
qed


section \<open>What the walk leaves in the store\<close>

definition found_one :: "scan_host \<Rightarrow> scan_options \<Rightarrow> library_record \<Rightarrow> i64 \<Rightarrow> i64 \<Rightarrow> string + walk_entry \<Rightarrow> file_upsert option" where
  "found_one sh opts l generation now x = (case x of Inl err \<Rightarrow> None | Inr e \<Rightarrow>
     if we_kind e = EK_File \<and> is_media opts (we_path e)
     then (case we_meta e of Inl err \<Rightarrow> None | Inr m \<Rightarrow>
       if sat_i64 (now - mtime_secs m) < lr_min_mtime_age_s l then None else Some (upsert_of sh l generation e m))
     else None)"

definition found_in :: "scan_host \<Rightarrow> scan_options \<Rightarrow> library_record \<Rightarrow> i64 \<Rightarrow> i64 \<Rightarrow> (string + walk_entry) list \<Rightarrow> file_upsert list" where
  "found_in sh opts l generation now es = List.map_filter (found_one sh opts l generation now) es"

lemma found_in_simps [simp]:
  "found_in sh opts l g now [] = []"
  "found_in sh opts l g now (x # es) = (case found_one sh opts l g now x of None \<Rightarrow> found_in sh opts l g now es
     | Some u \<Rightarrow> u # found_in sh opts l g now es)"
  by (simp_all add: found_in_def List.map_filter_simps split: option.split)

lemma found_one_keys: "found_one sh opts l g now x = Some u \<Longrightarrow> fu_library_id u = lr_id l \<and> fu_scan_generation u = g"
  by (auto simp: found_one_def upsert_of_def split: sum.splits if_splits)

lemma found_keys: "\<forall>u \<in> set (found_in sh opts l g now es). fu_library_id u = lr_id l \<and> fu_scan_generation u = g"
  by (induction es) (auto dest: found_one_keys split: option.split)

lemma seen_counted: "wc_seen (count_identity u found c) = wc_seen c + 1"
  by (auto simp: count_identity_def Let_def split: option.split)

lemma drain_accepted:
  assumes "\<forall>r \<in> set pending. \<exists>ack. r = Inr ack"
  shows "drain_acks pending s = (Reply (), s)"
proof -
  have "List.map_filter (\<lambda>r. case r of Inl e \<Rightarrow> Some e | Inr ack \<Rightarrow> None) pending = []"
    using assms by (induction pending) (auto simp: List.map_filter_simps)
  then show ?thesis by (simp add: drain_acks_def retH_def)
qed

lemma upsert_accepted:
  assumes "fu_library_id u \<in> lt_id ` set (db_libraries db)" "apply_op (upsert_file_op u) now db = (r, db')"
  shows "(\<exists>ack. r = Inr ack) \<and> db_libraries db' = db_libraries db"
  using assms by (auto simp: upsert_file_op_def apply_op_def op_run_new_op_with_id Let_def split: option.splits)

definition walked_over :: "file_upsert list \<Rightarrow> i64 \<Rightarrow> database \<Rightarrow> (server_error, walk_counts) answer \<times> 'b server_scheme \<Rightarrow> bool" where
  "walked_over us n db res \<longleftrightarrow> (\<exists>c t steps. res = (Reply c, t) \<and> wc_seen c = n + int (length us)
     \<and> map snd steps = map upsert_file_op us \<and> sv_db t = run_writes steps db)"

lemma walked_overI:
  assumes "walked_over us (n + 1) (snd (apply_op (upsert_file_op u) now db)) res"
  shows "walked_over (u # us) n db res"
proof -
  obtain c t steps where "res = (Reply c, t)" "wc_seen c = n + 1 + int (length us)" "map snd steps = map upsert_file_op us"
    "sv_db t = run_writes steps (snd (apply_op (upsert_file_op u) now db))" using assms unfolding walked_over_def by blast
  then show ?thesis unfolding walked_over_def
    by (intro exI[of _ c] exI[of _ t] exI[of _ "(now, upsert_file_op u) # steps"]) simp
qed

lemma walk_entries_found:
  assumes c: "calm su"
  shows "lr_id l \<in> lt_id ` set (db_libraries (sv_db s)) \<Longrightarrow> \<forall>r \<in> set pending. \<exists>ack. r = Inr ack \<Longrightarrow>
    walked_over (found_in sh opts l g now es) (wc_seen cnt) (sv_db s) (walk_entries sh opts su l g now es cnt pending s)"
proof (induction es arbitrary: cnt pending s)
  case Nil
  show ?case unfolding walked_over_def
    by (rule exI[of _ cnt], rule exI[of _ s], rule exI[of _ "[]"]) (simp add: thenH_def bindH_def retH_def drain_accepted[OF Nil(2)])
next
  case (Cons x es)
  show ?case
  proof (cases x)
    case (Inl err) then show ?thesis using Cons.IH[OF Cons.prems, where cnt = cnt] Inl by (simp add: found_one_def)
  next
    case x: (Inr e)
    show ?thesis
    proof (cases "we_kind e = EK_File \<and> is_media opts (we_path e)")
      case False then show ?thesis using Cons.IH[OF Cons.prems, where cnt = cnt] x by (auto simp: found_one_def)
    next
      case media: True
      show ?thesis
      proof (cases "we_meta e")
        case (Inl err) then show ?thesis using Cons.IH[OF Cons.prems, where cnt = cnt] x media by (simp add: found_one_def)
      next
        case m: (Inr m)
        show ?thesis
        proof (cases "sat_i64 (now - mtime_secs m) < lr_min_mtime_age_s l")
          case True then show ?thesis using Cons.IH[OF Cons.prems, where cnt = "cnt\<lparr> wc_too_recent := wc_too_recent cnt + 1 \<rparr>"] x media m
            by (simp add: found_one_def)
        next
          case False
          define u where "u = upsert_of sh l g e m"
          have us: "found_in sh opts l g now (x # es) = u # found_in sh opts l g now es"
            using x media m False by (simp add: found_one_def u_def)
          let ?found = "file_identity_of (lr_id l) (fu_path_hash u) (sv_db s)"
          let ?cnt = "count_identity u ?found cnt"
          obtain r db where w: "apply_op (upsert_file_op u) (su_clock su (Suc (sv_calls s))) (sv_db s) = (r, db)"
            by (cases "apply_op (upsert_file_op u) (su_clock su (Suc (sv_calls s))) (sv_db s)")
          define t where "t = s\<lparr> sv_calls := Suc (Suc (sv_calls s)), sv_db := db \<rparr>"
          have step: "walk_entries sh opts su l g now (x # es) cnt pending s =
            (if upsert_batch \<le> Suc (length pending) then thenH (drain_acks (pending @ [r])) (walk_entries sh opts su l g now es ?cnt [])
             else walk_entries sh opts su l g now es ?cnt (pending @ [r])) t"
            using x media m False w
            by (simp add: u_def[symmetric] Let_def bindH_def calm_read_store[OF c] calm_submit[OF c] t_def)
          have acc: "\<exists>ack. r = Inr ack" "db_libraries db = db_libraries (sv_db s)"
            using upsert_accepted[OF _ w] Cons.prems(1) by (simp_all add: u_def upsert_of_def)
          have reg: "lr_id l \<in> lt_id ` set (db_libraries (sv_db t))" using Cons.prems(1) acc(2) by (simp add: t_def)
          have pend: "\<forall>r \<in> set (pending @ [r]). \<exists>ack. r = Inr ack" using Cons.prems(2) acc(1) by auto
          have "walked_over (found_in sh opts l g now es) (wc_seen cnt + 1) db (walk_entries sh opts su l g now (x # es) cnt pending s)"
            using Cons.IH[OF reg pend, where cnt = ?cnt] Cons.IH[OF reg, where pending = "[]" and cnt = ?cnt] drain_accepted[OF pend, of t]
            unfolding step by (simp add: seen_counted t_def thenH_def bindH_def)
          then show ?thesis unfolding us using walked_overI[of _ _ u "su_clock su (Suc (sv_calls s))" "sv_db s"] w by simp
        qed
      qed
    qed
  qed
qed

text \<open>The live rows of a library that the pass has not reached.\<close>

definition unseen :: "string \<Rightarrow> i64 \<Rightarrow> database \<Rightarrow> file_row list" where
  "unseen l g db = filter (\<lambda>r. ft_scan_generation r < g) (live_in l db)"

lemma upsert_unseen:
  assumes "fu_library_id u = l" "fu_scan_generation u = g" "l \<in> lt_id ` set (db_libraries db)"
  shows "unseen l g (snd (apply_op (upsert_file_op u) now db)) = filter (\<lambda>r. ft_path_hash r \<noteq> fu_path_hash u) (unseen l g db)"
    and "\<forall>q \<in> set (db_files (snd (apply_op (upsert_file_op u) now db))). ft_state q = ''Missing'' \<longrightarrow> q \<in> set (db_files db)"
proof -
  let ?P = "by_path l (fu_path_hash u)"
  have keys: "ft_scan_generation (refreshed u now q) = g" "ft_state (refreshed u now q) \<noteq> ''Missing''" for q
    using assms(2) by (simp_all add: refreshed_def Let_def)
  have mapped: "filter (\<lambda>r. ft_scan_generation r < g) (filter (\<lambda>r. ft_library_id r = l \<and> ft_state r \<noteq> ''Missing'')
        (map (\<lambda>q. if ?P q then refreshed u now q else q) rs))
      = filter (\<lambda>r. ft_path_hash r \<noteq> fu_path_hash u) (filter (\<lambda>r. ft_scan_generation r < g)
        (filter (\<lambda>r. ft_library_id r = l \<and> ft_state r \<noteq> ''Missing'') rs))" for rs
    by (induction rs) (use keys in \<open>auto simp: by_path_def\<close>)
  show "unseen l g (snd (apply_op (upsert_file_op u) now db)) = filter (\<lambda>r. ft_path_hash r \<noteq> fu_path_hash u) (unseen l g db)"
  proof (cases "query_row ?P (db_files db)")
    case None
    then have "\<forall>r \<in> set (db_files db). \<not> ?P r" by (auto simp: query_row_def find_None_iff)
    then have "filter (\<lambda>r. ft_path_hash r \<noteq> fu_path_hash u) (unseen l g db) = unseen l g db"
      by (intro filter_True) (auto simp: unseen_def live_in_def by_path_def)
    then show ?thesis using None assms
      by (simp add: upsert_file_op_def apply_op_def op_run_new_op_with_id Let_def unseen_def live_in_def new_file_row_def)
  next
    case (Some r)
    then show ?thesis using assms(1) mapped[of "db_files db"]
      by (simp add: upsert_file_op_def apply_op_def op_run_new_op_with_id unseen_def live_in_def)
  qed
  show "\<forall>q \<in> set (db_files (snd (apply_op (upsert_file_op u) now db))). ft_state q = ''Missing'' \<longrightarrow> q \<in> set (db_files db)"
    using assms keys(2) by (cases "query_row ?P (db_files db)")
      (auto simp: upsert_file_op_def apply_op_def op_run_new_op_with_id Let_def new_file_row_def)
qed

lemma walked_store:
  "map snd steps = map upsert_file_op us \<Longrightarrow> half_scanned l g seen db \<Longrightarrow> \<forall>u \<in> set us. fu_library_id u = l \<and> fu_scan_generation u = g \<Longrightarrow>
   l \<in> lt_id ` set (db_libraries db) \<Longrightarrow>
   half_scanned l g (seen \<union> fu_path_hash ` set us) (run_writes steps db)
   \<and> hashes_of l (run_writes steps db) = hashes_of l db \<union> fu_path_hash ` set us
   \<and> unseen l g (run_writes steps db) = filter (\<lambda>r. ft_path_hash r \<notin> fu_path_hash ` set us) (unseen l g db)
   \<and> (\<forall>q \<in> set (db_files (run_writes steps db)). ft_state q = ''Missing'' \<longrightarrow> q \<in> set (db_files db))"
proof (induction us arbitrary: seen db steps)
  case Nil then show ?case by simp
next
  case (Cons u us)
  obtain now rest where steps: "steps = (now, upsert_file_op u) # rest" "map snd rest = map upsert_file_op us"
    using Cons.prems(1) by (cases steps) auto
  let ?db = "snd (apply_op (upsert_file_op u) now db)"
  have u: "fu_library_id u = l" "fu_scan_generation u = g" using Cons.prems(3) by simp_all
  note step = upsert_step[OF Cons.prems(2) u Cons.prems(4), of now]
  note un = upsert_unseen[OF u Cons.prems(4), of now]
  have "l \<in> lt_id ` set (db_libraries ?db)" using step(2) Cons.prems(4) by simp
  from Cons.IH[OF steps(2) step(1) _ this] Cons.prems(3)
  have ih: "half_scanned l g (insert (fu_path_hash u) seen \<union> fu_path_hash ` set us) (run_writes rest ?db)"
    "hashes_of l (run_writes rest ?db) = hashes_of l ?db \<union> fu_path_hash ` set us"
    "unseen l g (run_writes rest ?db) = filter (\<lambda>r. ft_path_hash r \<notin> fu_path_hash ` set us) (unseen l g ?db)"
    "\<forall>q \<in> set (db_files (run_writes rest ?db)). ft_state q = ''Missing'' \<longrightarrow> q \<in> set (db_files ?db)" by auto
  have "filter (\<lambda>r. ft_path_hash r \<notin> fu_path_hash ` set us) (filter (\<lambda>r. ft_path_hash r \<noteq> fu_path_hash u) (unseen l g db))
      = filter (\<lambda>r. ft_path_hash r \<notin> fu_path_hash ` set (u # us)) (unseen l g db)"
    unfolding filter_filter by (rule filter_cong) auto
  then show ?case using ih step(3) un by (simp add: steps(1))
qed


section \<open>One pass, undisturbed\<close>

lemma newest_first:
  assumes "\<And>r. r \<in> set rs \<Longrightarrow> st_id r < st_id x" "st_library_id x = library"
  shows "\<exists>ys. sort_key (\<lambda>r. - st_id r) (filter (\<lambda>r. st_library_id r = library) (rs @ [x])) = x # ys"
proof -
  have "\<exists>ys. foldr (insort_key (\<lambda>r. - st_id r)) qs [x] = x # ys" if "\<forall>q \<in> set qs. st_id q < st_id x" for qs
    using that
  proof (induction qs)
    case (Cons q qs)
    then obtain ys where "foldr (insort_key (\<lambda>r. - st_id r)) qs [x] = x # ys" by auto
    then show ?case using Cons.prems by simp
  qed simp
  from this[of "filter (\<lambda>r. st_library_id r = library) rs"] assms show ?thesis
    by (auto simp: sort_key_def)
qed

lemma run_opened:
  fixes s :: "'b server_scheme"
  assumes c: "calm su" and ok: "libraries_ok (sv_db s)" and reg: "lr_id l \<in> lt_id ` set (db_libraries (sv_db s))"
  shows "\<exists>row t. begin_run su l mode s = (Reply (st_id row), t) \<and> sv_calls t = Suc (sv_calls s)
    \<and> sv_db t = (sv_db s)\<lparr> db_scans := db_scans (sv_db s) @ [row], db_scan_seq := Suc (db_scan_seq (sv_db s)) \<rparr>
    \<and> st_library_id row = lr_id l \<and> st_status row = ''running'' \<and> st_scan_generation row = next_generation (lr_id l) (sv_db s)
    \<and> (\<forall>r \<in> set (db_scans (sv_db s)). st_id r \<noteq> st_id row)
    \<and> (\<forall>u :: 'b server_scheme. sv_db u = sv_db t \<longrightarrow> run_generation su l (st_id row) u
         = (Reply (next_generation (lr_id l) (sv_db s)), u\<lparr> sv_calls := Suc (sv_calls u) \<rparr>))"
proof -
  let ?i = "int (Suc (db_scan_seq (sv_db s)))" and ?g = "next_generation (lr_id l) (sv_db s)"
  define row where "row = \<lparr> st_id = ?i, st_library_id = lr_id l, st_mode = mode,
                st_started = su_clock su (sv_calls s), st_finished = None, st_status = ''running'', st_files_seen = 0, st_files_new = 0,
                st_files_changed = 0, st_files_missing = 0, st_probe_errors = 0, st_duration_ms = None,
                st_scan_generation = ?g, st_aborted_reason = None \<rparr>"
  define t where "t = s\<lparr> sv_calls := Suc (sv_calls s), sv_db := (sv_db s)\<lparr> db_scans := db_scans (sv_db s) @ [row], db_scan_seq := Suc (db_scan_seq (sv_db s)) \<rparr> \<rparr>"
  have r: "st_id row = ?i" "st_library_id row = lr_id l" "st_scan_generation row = ?g" "st_status row = ''running''"
    by (simp_all add: row_def)
  have run: "begin_run su l mode s = (Reply (st_id row), t)"
    using reg by (simp add: begin_run_def bindH_def calm_write_store[OF c] begin_scan_run_op_def apply_op_def op_run_new_op_with_id Let_def t_def row_def)
  have below: "st_id q < st_id row" if "q \<in> set (db_scans (sv_db s))" for q
    using ok that by (fastforce simp: libraries_ok_def r(1))
  obtain ys where ys: "sort_key (\<lambda>r. - st_id r) (filter (\<lambda>r. st_library_id r = lr_id l) (db_scans (sv_db s) @ [row])) = row # ys"
    using newest_first[OF below r(2)] by blast
  have "last_scan_run (lr_id l) (sv_db t) = Some (scan_from_row row)"
    using ys by (simp add: last_scan_run_def t_def del: filter_append)
  then have "run_generation su l (st_id row) u = (Reply ?g, u\<lparr> sv_calls := Suc (sv_calls u) \<rparr>)" if "sv_db u = sv_db t" for u :: "'b server_scheme"
    using that by (simp add: run_generation_def bindH_def calm_read_store[OF c] scan_from_row_def r retH_def)
  then have "\<forall>u :: 'b server_scheme. sv_db u = sv_db t \<longrightarrow> run_generation su l (st_id row) u = (Reply ?g, u\<lparr> sv_calls := Suc (sv_calls u) \<rparr>)"
    by blast
  moreover have "\<forall>q \<in> set (db_scans (sv_db s)). st_id q \<noteq> st_id row" using below less_irrefl by metis
  ultimately show ?thesis using run r by (intro exI[of _ row] exI[of _ t]) (simp add: t_def)
qed

lemma close_run_files:
  assumes "calm su"
  shows "\<exists>t. close_run sh su run status reason s = (Reply (), t) \<and> db_files (sv_db t) = db_files (sv_db s)
    \<and> db_scans (sv_db t) = map (\<lambda>r. if st_id r = run then r\<lparr> st_finished := Some (su_clock su (sv_calls s)), st_status := status,
           st_aborted_reason := reason, st_duration_ms := Some (sh_elapsed sh (sv_calls s)) \<rparr> else r) (db_scans (sv_db s))"
  by (simp add: close_run_def bindH_def calm_submit[OF assms] finish_scan_run_op_def apply_op_def op_run_new_op sql_update_def retH_def)


lemma walked_scans:
  "map snd steps = map upsert_file_op us \<Longrightarrow> db_scans (run_writes steps db) = db_scans db"
proof (induction us arbitrary: db steps)
  case (Cons u us)
  obtain now rest where steps: "steps = (now, upsert_file_op u) # rest" "map snd rest = map upsert_file_op us"
    using Cons.prems(1) by (cases steps) auto
  have "db_scans (snd (apply_op (upsert_file_op u) now db)) = db_scans db"
    by (simp add: upsert_file_op_def apply_op_def op_run_new_op_with_id Let_def split: option.split)
  then show ?case using Cons.IH[OF steps(2)] steps(1) by simp
qed simp

text \<open>The rows of a library after the unseen ones were marked.\<close>

definition marked :: "string \<Rightarrow> i64 \<Rightarrow> file_row list \<Rightarrow> file_row list" where
  "marked l g rs = map (\<lambda>r. if ft_library_id r = l \<and> ft_scan_generation r < g \<and> ft_state r \<noteq> ''Missing''
     then r\<lparr> ft_state := ''Missing'' \<rparr> else r) rs"

lemma marked_nothing: "unseen l g db = [] \<Longrightarrow> marked l g (db_files db) = db_files db"
  unfolding marked_def by (rule map_idI) (auto simp: unseen_def live_in_def filter_empty_conv)

lemma marked_exact:
  assumes "half_scanned l g seen mid" "db_files db' = marked l g (db_files mid)"
  shows "hashes_of l db' = hashes_of l mid"
    and "\<forall>r \<in> set (db_files db'). ft_library_id r = l \<longrightarrow> (ft_state r = ''Missing'' \<longleftrightarrow> ft_path_hash r \<notin> seen)"
proof -
  have "map (\<lambda>q. (ft_library_id q, ft_path_hash q)) (db_files db') = map (\<lambda>q. (ft_library_id q, ft_path_hash q)) (db_files mid)"
    unfolding assms(2) marked_def by simp
  from arg_cong[OF this, of set] show "hashes_of l db' = hashes_of l mid" unfolding hashes_of_def set_map by simp
  show "\<forall>r \<in> set (db_files db'). ft_library_id r = l \<longrightarrow> (ft_state r = ''Missing'' \<longleftrightarrow> ft_path_hash r \<notin> seen)"
  proof (intro ballI impI)
    fix r assume r: "r \<in> set (db_files db')" "ft_library_id r = l"
    let ?P = "\<lambda>r. ft_library_id r = l \<and> ft_scan_generation r < g \<and> ft_state r \<noteq> ''Missing''"
    obtain q where q: "q \<in> set (db_files mid)" "r = (if ?P q then q\<lparr> ft_state := ''Missing'' \<rparr> else q)"
      using r(1) unfolding assms(2) marked_def set_map by (elim imageE)
    have "ft_library_id q = l" "ft_path_hash r = ft_path_hash q" using q(2) r(2) by (simp_all split: if_splits)
    then have "if ft_path_hash r \<in> seen then ft_scan_generation q = g \<and> ft_state q \<noteq> ''Missing'' else ft_scan_generation q < g"
      using bspec[OF assms(1)[unfolded half_scanned_def] q(1)] by simp
    then show "ft_state r = ''Missing'' \<longleftrightarrow> ft_path_hash r \<notin> seen"
      using q(2) \<open>ft_library_id q = l\<close> by (cases "?P q") (simp_all split: if_splits)
  qed
qed

lemma record_scan_calm:
  assumes c: "calm su" and un: "would = int (length (unseen (lr_id l) g (sv_db s)))"
  shows "\<exists>out t. record_scan sh su l run g cnt would s = (Reply out, t) \<and> sc_files_missing out = would \<and> sc_files_seen out = wc_seen cnt
    \<and> sc_generation out = g \<and> db_files (sv_db t) = marked (lr_id l) g (db_files (sv_db s))"
proof -
  define s1 where "s1 = (if 0 < would then s\<lparr> sv_calls := Suc (sv_calls s),
      sv_db := (sv_db s)\<lparr> db_files := marked (lr_id l) g (db_files (sv_db s)) \<rparr> \<rparr> else s)"
  have mark: "(if 0 < would then thenH (write_store su (mark_missing_op (lr_id l) g)) (retH ()) else retH ()) s = (Reply (), s1)"
  proof (cases "0 < would")
    case True
    have "\<exists>ack. apply_op (mark_missing_op (lr_id l) g) (su_clock su (sv_calls s)) (sv_db s) =
        (Inr ack, (sv_db s)\<lparr> db_files := marked (lr_id l) g (db_files (sv_db s)) \<rparr>)"
      by (simp add: mark_missing_op_def apply_op_def op_run_new_op sql_update_def marked_def)
    then show ?thesis using True by (auto simp: s1_def thenH_def bindH_def calm_write_store[OF c] retH_def)
  next
    case False then show ?thesis by (simp add: s1_def retH_def)
  qed
  have files: "db_files (sv_db s1) = marked (lr_id l) g (db_files (sv_db s))"
    using marked_nothing[of "lr_id l" g "sv_db s"] un by (auto simp: s1_def)
  obtain ack s2 where counts: "write_store su (update_scan_counts_op run (wc_seen cnt) (wc_new cnt) (wc_changed cnt) would 0) s1 = (Reply ack, s2)"
    "db_files (sv_db s2) = db_files (sv_db s1)"
    by (simp add: calm_write_store[OF c] update_scan_counts_op_def apply_op_def op_run_new_op sql_update_def)
  obtain t where t: "close_run sh su run ''ok'' None s2 = (Reply (), t)" "db_files (sv_db t) = db_files (sv_db s2)"
    using close_run_files[OF c] by blast
  show ?thesis unfolding record_scan_def using mark files counts t
    by (simp add: thenH_def bindH_def retH_def)
qed

definition run_aborted :: "string \<Rightarrow> i64 \<Rightarrow> string \<Rightarrow> database \<Rightarrow> bool" where
  "run_aborted l g reason db \<longleftrightarrow> (\<exists>r \<in> set (db_scans db). st_library_id r = l \<and> st_scan_generation r = g
     \<and> st_status r = ''aborted'' \<and> st_aborted_reason r = Some reason)"

definition walk_finds :: "scan_host \<Rightarrow> scan_options \<Rightarrow> surroundings \<Rightarrow> library_record \<Rightarrow> 'b server_scheme \<Rightarrow> file_upsert list" where
  "walk_finds sh opts su l s = found_in sh opts l (next_generation (lr_id l) (sv_db s)) (su_clock su (sv_calls s + 3))
     (sh_walker sh (lr_root_path l) (so_max_depth opts) (entry_wanted opts l))"

definition found_by :: "scan_host \<Rightarrow> scan_options \<Rightarrow> surroundings \<Rightarrow> library_record \<Rightarrow> 'b server_scheme \<Rightarrow> string set" where
  "found_by sh opts su l s = fu_path_hash ` set (walk_finds sh opts su l s)"

definition lost_rows :: "scan_host \<Rightarrow> scan_options \<Rightarrow> surroundings \<Rightarrow> library_record \<Rightarrow> 'b server_scheme \<Rightarrow> file_row list" where
  "lost_rows sh opts su l s = filter (\<lambda>r. ft_path_hash r \<notin> found_by sh opts su l s) (live_in (lr_id l) (sv_db s))"

definition scannable :: "library_record \<Rightarrow> database \<Rightarrow> bool" where
  "scannable l db \<longleftrightarrow> lr_id l \<in> lt_id ` set (db_libraries db)
     \<and> (\<forall>r \<in> set (db_files db). ft_library_id r = lr_id l \<longrightarrow> ft_scan_generation r < next_generation (lr_id l) db)"

lemma scan_pass:
  fixes s :: "'b server_scheme"
  assumes c: "calm su" and ok: "libraries_ok (sv_db s)" and sc: "scannable l (sv_db s)" and dir: "sh_is_dir sh (lr_root_path l)"
    and run: "scan_library sh opts su l mode s = (res, t)"
  defines "n \<equiv> int (length (lost_rows sh opts su l s))" and "g \<equiv> next_generation (lr_id l) (sv_db s)"
  shows "(\<exists>err. mass_missing_check opts l n (count_live (lr_id l) (sv_db s)) = Some err \<and> res = Broken err
        \<and> run_aborted (lr_id l) g (sh_show sh err) (sv_db t)
        \<and> (\<forall>q \<in> set (db_files (sv_db t)). ft_state q = ''Missing'' \<longrightarrow> q \<in> set (db_files (sv_db s))))
    \<or> (mass_missing_check opts l n (count_live (lr_id l) (sv_db s)) = None \<and> (\<exists>out. res = Reply out
        \<and> sc_files_missing out = n \<and> sc_generation out = g \<and> sc_files_seen out = int (length (walk_finds sh opts su l s))
        \<and> hashes_of (lr_id l) (sv_db t) = hashes_of (lr_id l) (sv_db s) \<union> found_by sh opts su l s
        \<and> (\<forall>r \<in> set (db_files (sv_db t)). ft_library_id r = lr_id l \<longrightarrow>
             (ft_state r = ''Missing'' \<longleftrightarrow> ft_path_hash r \<notin> found_by sh opts su l s))))"
proof -
  define s1 where "s1 = s\<lparr> sv_calls := Suc (sv_calls s) \<rparr>"
  have s1: "sv_db s1 = sv_db s" "sv_calls s1 = Suc (sv_calls s)" by (simp_all add: s1_def)
  have reg: "lr_id l \<in> lt_id ` set (db_libraries (sv_db s))" using sc by (simp add: scannable_def)
  obtain row s2 where b: "begin_run su l mode s1 = (Reply (st_id row), s2)" "sv_calls s2 = Suc (sv_calls s1)"
    "sv_db s2 = (sv_db s)\<lparr> db_scans := db_scans (sv_db s) @ [row], db_scan_seq := Suc (db_scan_seq (sv_db s)) \<rparr>"
    "st_library_id row = lr_id l" "st_scan_generation row = g" "\<forall>r \<in> set (db_scans (sv_db s)). st_id r \<noteq> st_id row"
    "run_generation su l (st_id row) s2 = (Reply g, s2\<lparr> sv_calls := Suc (sv_calls s2) \<rparr>)"
    using run_opened[OF c, of s1 l mode] ok reg unfolding s1 g_def by blast
  define s3 where "s3 = s2\<lparr> sv_calls := Suc (sv_calls s2) \<rparr>"
  define us where "us = found_in sh opts l g (su_clock su (sv_calls s + 3)) (sh_walker sh (lr_root_path l) (so_max_depth opts) (entry_wanted opts l))"
  have s3: "sv_db s3 = sv_db s2" "sv_calls s3 = sv_calls s + 3" by (simp_all add: s3_def b(2) s1)
  have fb: "found_by sh opts su l s = fu_path_hash ` set us" by (simp add: found_by_def walk_finds_def us_def g_def)
  have reg2: "lr_id l \<in> lt_id ` set (db_libraries (sv_db s3))" using reg by (simp add: s3 b(3))
  obtain cnt s4 steps where w: "walk sh opts su l g s3 = (Reply cnt, s4)" "wc_seen cnt = int (length us)"
    and steps: "map snd steps = map upsert_file_op us" "sv_db s4 = run_writes steps (sv_db s2)"
    using walk_entries_found[OF c reg2, of "[]" sh opts g "su_clock su (sv_calls s + 3)" "sh_walker sh (lr_root_path l) (so_max_depth opts) (entry_wanted opts l)" no_counts]
    by (auto simp: walk_def bindH_def now_unix_def s3 us_def no_counts_def walked_over_def)
  have seen: "wc_seen cnt = int (length (walk_finds sh opts su l s))"
    using w(2) by (simp add: walk_finds_def us_def g_def)
  have step: "scan_library sh opts su l mode s = bindH (read_store su (\<lambda>db. Inr (count_not_seen_in (lr_id l) g db))) (\<lambda>would_be_missing.
              case mass_missing_check opts l would_be_missing (count_live (lr_id l) (sv_db s)) of
                Some err \<Rightarrow> thenH (close_run sh su (st_id row) ''aborted'' (Some (sh_show sh err))) (failH err)
              | None \<Rightarrow> record_scan sh su l (st_id row) g cnt would_be_missing) s4"
    using dir b(1,7) w(1) by (simp add: scan_library_def bindH_def calm_read_store[OF c] s1_def[symmetric] s3_def[symmetric] caught_def)
    have files2: "db_files (sv_db s2) = db_files (sv_db s)" "db_libraries (sv_db s2) = db_libraries (sv_db s)" by (simp_all add: b(3))
    have half: "half_scanned (lr_id l) g {} (sv_db s2)" using sc by (simp add: half_scanned_def files2 scannable_def g_def)
    have keys: "\<forall>u \<in> set us. fu_library_id u = lr_id l \<and> fu_scan_generation u = g" unfolding us_def by (rule found_keys)
    from walked_store[OF steps(1) half keys reg2[unfolded s3]]
    have mid: "half_scanned (lr_id l) g (fu_path_hash ` set us) (sv_db s4)"
      "hashes_of (lr_id l) (sv_db s4) = hashes_of (lr_id l) (sv_db s) \<union> fu_path_hash ` set us"
      "unseen (lr_id l) g (sv_db s4) = filter (\<lambda>r. ft_path_hash r \<notin> fu_path_hash ` set us) (unseen (lr_id l) g (sv_db s2))"
      "\<forall>q \<in> set (db_files (sv_db s4)). ft_state q = ''Missing'' \<longrightarrow> q \<in> set (db_files (sv_db s))"
      unfolding steps(2) by (simp_all add: hashes_of_def files2)
    have "unseen (lr_id l) g (sv_db s2) = live_in (lr_id l) (sv_db s)"
      using sc unfolding unseen_def live_in_def files2 by (intro filter_True) (auto simp: scannable_def g_def)
    then have lost: "unseen (lr_id l) g (sv_db s4) = lost_rows sh opts su l s" using mid(3) by (simp add: lost_rows_def fb)
    have would: "count_not_seen_in (lr_id l) g (sv_db s4) = n"
      using lost by (simp add: count_not_seen_in_def unseen_def n_def)
    define s5 where "s5 = s4\<lparr> sv_calls := Suc (sv_calls s4) \<rparr>"
    have s5: "sv_db s5 = sv_db s4" by (simp add: s5_def)
    have rest: "(case mass_missing_check opts l n (count_live (lr_id l) (sv_db s)) of
                Some err \<Rightarrow> thenH (close_run sh su (st_id row) ''aborted'' (Some (sh_show sh err))) (failH err)
              | None \<Rightarrow> record_scan sh su l (st_id row) g cnt n) s5 = (res, t)"
      using run unfolding step by (simp add: bindH_def calm_read_store[OF c] would s5_def)
    show ?thesis
    proof (cases "mass_missing_check opts l n (count_live (lr_id l) (sv_db s))")
      case (Some err)
      have scans: "db_scans (sv_db s5) = db_scans (sv_db s) @ [row]" using walked_scans[OF steps(1)] by (simp add: s5 steps(2) b(3))
      obtain t' where t': "close_run sh su (st_id row) ''aborted'' (Some (sh_show sh err)) s5 = (Reply (), t')" "db_files (sv_db t') = db_files (sv_db s5)"
        "db_scans (sv_db t') = map (\<lambda>r. if st_id r = st_id row then r\<lparr> st_finished := Some (su_clock su (sv_calls s5)), st_status := ''aborted'',
           st_aborted_reason := Some (sh_show sh err), st_duration_ms := Some (sh_elapsed sh (sv_calls s5)) \<rparr> else r) (db_scans (sv_db s5))"
        using close_run_files[OF c] by blast
      have "res = Broken err" "t = t'" using rest Some t'(1) by (simp_all add: thenH_def bindH_def failH_def)
      moreover have "run_aborted (lr_id l) g (sh_show sh err) (sv_db t')" unfolding run_aborted_def t'(3) scans by (simp add: b(4,5))
      ultimately show ?thesis using Some mid(4) t'(2) s5 by simp
    next
      case None
      obtain out t' where r: "record_scan sh su l (st_id row) g cnt n s5 = (Reply out, t')" "sc_files_missing out = n" "sc_generation out = g"
        "sc_files_seen out = wc_seen cnt" "db_files (sv_db t') = marked (lr_id l) g (db_files (sv_db s4))"
        using record_scan_calm[OF c, where would = n and l = l and g = g and s = s5 and sh = sh and run = "st_id row" and cnt = cnt]
        by (auto simp: lost s5 n_def)
      have "res = Reply out" "t = t'" using rest None r(1) by simp_all
      then show ?thesis using None r(2-4) seen marked_exact[OF mid(1) r(5)] mid(2) by (simp add: fb)
    qed
qed

section \<open>Properties\<close>

lemma scanned_server: "server_ok su s \<Longrightarrow> libraries_ok (sv_db s)"
  by (simp add: server_ok_def store_ok_def)

lemma scan_needs_root: "scan_library sh opts su l mode s = (res, t) \<Longrightarrow> \<not> sh_is_dir sh (lr_root_path l) \<Longrightarrow>
    res = Broken (V_LibraryRootUnreadable (lr_id l) (lr_root_path l))"
  by (simp add: scan_library_def failH_def)



text \<open>
  What the walker documents: it yields files below the root only, and descends into a directory only
  when the filter wants it.
\<close>

definition walker_prunes :: "walker \<Rightarrow> bool" where
  "walker_prunes w \<longleftrightarrow> (\<forall>root depth want e. Inr e \<in> set (w root depth want) \<and> we_kind e = EK_File \<longrightarrow>
     strict_prefix (path_new root) (we_path e)
     \<and> (\<forall>d. prefix (path_new root) d \<and> strict_prefix d (we_path e) \<longrightarrow> (\<exists>x. we_path x = d \<and> we_kind x = EK_Dir \<and> want x)))"

lemma found_entry:
  "u \<in> set (found_in sh opts l g now es) \<Longrightarrow> \<exists>e. Inr e \<in> set es \<and> we_kind e = EK_File \<and> fu_path_hash u = sh_hash sh (path_display (we_path e))"
proof (induction es)
  case (Cons x es)
  then consider "u \<in> set (found_in sh opts l g now es)" | "found_one sh opts l g now x = Some u" by (auto split: option.splits)
  then show ?case
  proof cases
    case 2 then show ?thesis by (auto simp: found_one_def upsert_of_def split: sum.splits if_splits)
  qed (use Cons.IH in auto)
qed simp



section \<open>A sample pass\<close>

definition sample_scan_server :: server where
  "sample_scan_server = sample_server\<lparr> sv_db := run_writes [(1, begin_scan_run_op ''l'' ''full'')] (sv_db sample_server), sv_calls := 500 \<rparr>"

definition sample_library_record :: library_record where
  "sample_library_record = library_from_row sample_library"

definition sample_entry :: walk_entry where
  "sample_entry = \<lparr> we_path = path_new ''/m/g.mkv'', we_depth = 1, we_name = ''g.mkv'', we_kind = EK_File,
     we_meta = Inr \<lparr> fm_len = 9, fm_modified = None, fm_ino = 8, fm_dev = 1, fm_nlink = 1 \<rparr> \<rparr>"

definition sample_root :: walk_entry where
  "sample_root = \<lparr> we_path = path_new ''/m'', we_depth = 0, we_name = ''m'', we_kind = EK_Dir, we_meta = Inl [] \<rparr>"

definition sample_host :: "(string + walk_entry) list \<Rightarrow> scan_host" where
  "sample_host es = \<lparr> sh_is_dir = (\<lambda>p. True), 
     sh_walker = (\<lambda>root depth want. if root = ''/m'' \<and> want sample_root then es else []), sh_hash = (\<lambda>p. p), sh_elapsed = (\<lambda>k. 0),
     sh_show = (\<lambda>e. ''too much'') \<rparr>"

definition eager_options :: scan_options where
  "eager_options = default_scan_options\<lparr> so_mass_missing_floor := 0 \<rparr>"

lemma sample_scan_ok: "server_ok undisturbed sample_scan_server"
  using sample_server_ok(2) store_writes.apply_kept[of "begin_scan_run_op ''l'' ''full''" "sv_db sample_server" 1]
  by (simp add: server_ok_def sample_scan_server_def)

lemma sample_scans: "db_scans (sv_db sample_server) = []" "db_libraries (sv_db sample_server) = [sample_library]"
  by (simp_all add: sample_server_def sample_ledger_steps_def grant_op_def insert_intent_def intent_checks_def
      new_intent_row_def sample_intent_def run_sample)

lemma sample_scan_facts:
  "db_files (sv_db sample_scan_server) = [sample_file]" "next_generation ''l'' (sv_db sample_scan_server) = 2"
  "scannable sample_library_record (sv_db sample_scan_server)" "live_in ''l'' (sv_db sample_scan_server) = [sample_file]"
proof -
  have l: "lt_id sample_library = ''l''" by (simp add: sample_library_def)
  show f: "db_files (sv_db sample_scan_server) = [sample_file]" and g: "next_generation ''l'' (sv_db sample_scan_server) = 2"
    by (simp_all add: sample_scan_server_def begin_scan_run_op_def apply_op_def op_run_new_op_with_id Let_def sample_scans
        sample_server_files l next_generation_def)
  have "db_libraries (sv_db sample_scan_server) = [sample_library]"
    by (simp add: sample_scan_server_def begin_scan_run_op_def apply_op_def op_run_new_op_with_id Let_def sample_scans l)
  moreover have "lr_id sample_library_record = ''l''" by (simp add: sample_library_record_def library_from_row_def l)
  ultimately show "scannable sample_library_record (sv_db sample_scan_server)"
    using f g by (simp add: scannable_def l sample_file_def)
  show "live_in ''l'' (sv_db sample_scan_server) = [sample_file]" by (simp add: live_in_def f sample_file_def)
qed

lemma sample_lr [simp]: "lr_id sample_library_record = ''l''" "lr_root_path sample_library_record = ''/m''"
  "lr_work_dir sample_library_record = ''/m/w''" "lr_trash_dir sample_library_record = ''/m/t''" "lr_min_mtime_age_s sample_library_record = 300"
  by (simp_all add: sample_library_record_def library_from_row_def sample_library_def)

lemma all_lost: "f64_mul (f64_div (f64_of_i64 1) (f64_of_i64 1)) 100 = 100"
  unfolding f64_of_i64_def f64_mul_def f64_div_def by code_simp


lemma sample_paths: "is_media default_scan_options (path_new ''/m/g.mkv'')" "path_display (path_new ''/m/g.mkv'') = ''/m/g.mkv''"
  "entry_wanted default_scan_options sample_library_record sample_root"
  by code_simp+

lemma sample_finds: "found_by (sample_host [Inr sample_entry]) default_scan_options undisturbed sample_library_record sample_scan_server = {''/m/g.mkv''}"
  using sample_paths
  by (simp add: found_by_def walk_finds_def sample_host_def found_one_def sample_entry_def mtime_secs_def undisturbed_def upsert_of_def
      sample_scan_server_def sat_i64_def i64_max_def i64_min_def)

lemma sample_run:
  "\<exists>out t. scan_library (sample_host [Inr sample_entry]) default_scan_options undisturbed sample_library_record ''full'' sample_scan_server
     = (Reply out, t) \<and> hashes_of ''l'' (sv_db t) = {''h'', ''/m/g.mkv''}"
proof -
  note s = sample_server_ok(1) sample_scan_ok sample_scan_facts(3)
  let ?h = "sample_host [Inr sample_entry]"
  obtain res t where r: "scan_library ?h default_scan_options undisturbed sample_library_record ''full'' sample_scan_server = (res, t)"
    by (cases "scan_library ?h default_scan_options undisturbed sample_library_record ''full'' sample_scan_server")
  have "length (lost_rows ?h default_scan_options undisturbed sample_library_record sample_scan_server) = 1"
    by (simp add: lost_rows_def sample_finds sample_scan_facts(4) sample_file_def)
  moreover have "mass_missing_check default_scan_options sample_library_record 1 n = None" for n
    by (simp add: mass_missing_check_def default_scan_options_def)
  moreover have "hashes_of ''l'' (sv_db sample_scan_server) = {''h''}" by (simp add: hashes_of_def sample_scan_facts(1) sample_file_def)
  ultimately show ?thesis
    using scan_pass[OF s(1) scanned_server[OF s(2)] s(3) _ r] r by (auto simp: sample_host_def sample_finds[unfolded sample_host_def])
qed


lemma sample_prunes: "walker_prunes (sh_walker (sample_host [Inr sample_entry]))"
proof -
  have p: "path_new ''/m/g.mkv'' = path_new ''/m'' @ [last (path_new ''/m/g.mkv'')]" by code_simp
  have d: "d = path_new ''/m''" if "prefix (path_new ''/m'') d" "strict_prefix d (path_new ''/m/g.mkv'')" for d
    using that p by (metis prefix_order.antisym prefix_snoc strict_prefix_def)
  have "strict_prefix (path_new ''/m'') (path_new ''/m/g.mkv'')" by code_simp
  then show ?thesis unfolding walker_prunes_def using d
    by (auto simp: sample_host_def sample_entry_def split: if_splits intro!: exI[of _ sample_root]) (auto simp: sample_root_def)
qed



text \<open>
  A known file that was just modified is skipped by the walk like any other, and so it is marked missing
  although it is there.
\<close>

definition rewritten_entry :: walk_entry where
  "rewritten_entry = sample_entry\<lparr> we_meta := Inr \<lparr> fm_len = 9, fm_modified = Some 450000000000, fm_ino = 7, fm_dev = 1, fm_nlink = 1 \<rparr> \<rparr>"

lemma rewritten_file_goes_missing:
  defines "h \<equiv> (sample_host [Inr rewritten_entry])\<lparr> sh_hash := (\<lambda>p. ''h'') \<rparr>"
  shows "\<exists>out t. scan_library h default_scan_options undisturbed sample_library_record ''full'' sample_scan_server = (Reply out, t)
    \<and> (\<forall>r \<in> set (db_files (sv_db t)). ft_library_id r = ''l'' \<longrightarrow> ft_state r = ''Missing'')"
proof -
  note s = sample_server_ok(1) sample_scan_ok sample_scan_facts(3)
  have none: "found_by h default_scan_options undisturbed sample_library_record sample_scan_server = {}"
    using sample_paths
    by (simp add: h_def found_by_def walk_finds_def sample_host_def found_one_def rewritten_entry_def sample_entry_def mtime_secs_def
        undisturbed_def sample_scan_server_def sat_i64_def i64_max_def i64_min_def)
  have one: "length (lost_rows h default_scan_options undisturbed sample_library_record sample_scan_server) = 1"
    by (simp add: lost_rows_def none sample_scan_facts(4))
  have small: "mass_missing_check default_scan_options sample_library_record 1 n = None" for n
    by (simp add: mass_missing_check_def default_scan_options_def)
  obtain res t where r: "scan_library h default_scan_options undisturbed sample_library_record ''full'' sample_scan_server = (res, t)"
    by (cases "scan_library h default_scan_options undisturbed sample_library_record ''full'' sample_scan_server")
  have dir: "sh_is_dir h (lr_root_path sample_library_record)" by (simp add: h_def sample_host_def)
  from scan_pass[OF s(1) scanned_server[OF s(2)] s(3) dir r] show ?thesis
    using r by (auto simp: one small none)
qed

end
