(* ===== verification/Executor.thy ===== *)
theory Executor
  imports Probe Validate Commit_Ritual
begin

text \<open>
  Running \<open>ffmpeg\<close> and judging what it produced (\<open>crates/transcodarr-agent/src/executor.rs\<close>). The two
  programs are arguments: for a command line and the files there are, how \<open>ffmpeg\<close> starts, what each
  poll finds, how it ends and what it does to the files; and what \<open>ffprobe\<close> prints. The reader of its
  JSON is an argument as well. White space is that of ASCII, which is what both programs write.
\<close>

section \<open>Data\<close>

record executor_config =
  xc_ffmpeg :: string
  xc_ffprobe :: string
  xc_timeout :: "nat option"

definition default_executor_config :: executor_config where
  "default_executor_config = \<lparr> xc_ffmpeg = ''ffmpeg'', xc_ffprobe = ''ffprobe'', xc_timeout = None \<rparr>"

record progress =
  pg_out_time_us :: u64
  pg_frames :: u64
  pg_speed :: "string option"
  pg_total_size :: u64
  pg_done :: bool

definition no_progress :: progress where
  "no_progress = \<lparr> pg_out_time_us = 0, pg_frames = 0, pg_speed = None, pg_total_size = 0, pg_done = False \<rparr>"

text \<open>An exit status; the default of the standard library is a successful one.\<close>

record exit_status =
  es_code :: "int option"
  es_signal :: "int option"

definition default_exit_status :: exit_status where
  "default_exit_status = \<lparr> es_code = Some 0, es_signal = None \<rparr>"

record execution =
  xe_argv :: "string list"
  xe_exit_code :: int
  xe_signal :: "int option"
  xe_stderr_tail :: string
  xe_output_bytes :: u64
  xe_elapsed :: nat
  xe_progress :: progress

type_synonym files = "(path \<times> fs_file) list"

text \<open>A poll that finds \<open>ffmpeg\<close> running: whether the deadline has passed, and the progress file if it can be read.\<close>

datatype encode_poll = EP_Running bool "string option" | EP_Failed string

record ffmpeg_run =
  fx_spawn :: "string option"
  fx_polls :: "encode_poll list"
  fx_status :: exit_status
  fx_stderr :: "string option"
  fx_effect :: "files \<Rightarrow> files"
  fx_progress :: "string option"
  fx_elapsed :: nat

record ffprobe_out =
  fo_error :: "string option"
  fo_status :: exit_status
  fo_stdout :: string
  fo_stderr :: string

record executor =
  xr_config :: executor_config
  xr_ffmpeg :: "string list \<Rightarrow> files \<Rightarrow> ffmpeg_run"
  xr_ffprobe :: "string list \<Rightarrow> files \<Rightarrow> ffprobe_out"
  xr_json :: "string \<Rightarrow> string + raw_probe"

section \<open>Text\<close>

text \<open>\<open>lines()\<close>, \<open>split_once\<close> and \<open>trim()\<close>.\<close>

definition strip_return :: "string \<Rightarrow> string" where
  "strip_return line = (if line \<noteq> [] \<and> last line = CHR 0x0D then butlast line else line)"

fun split_lines :: "string \<Rightarrow> string \<Rightarrow> string list" where
  "split_lines [] line = (if line = [] then [] else [rev line])"
| "split_lines (c # cs) line =
     (if c = CHR 0x0A then strip_return (rev line) # split_lines cs [] else split_lines cs (c # line))"

definition text_lines :: "string \<Rightarrow> string list" where
  "text_lines s = split_lines s []"

definition split_once :: "char \<Rightarrow> string \<Rightarrow> (string \<times> string) option" where
  "split_once c s = (if c \<in> set s then Some (takeWhile (\<lambda>x. x \<noteq> c) s, tl (dropWhile (\<lambda>x. x \<noteq> c) s)) else None)"

definition is_space :: "char \<Rightarrow> bool" where
  "is_space c \<longleftrightarrow> c = CHR '' '' \<or> 9 \<le> (of_char c :: nat) \<and> (of_char c :: nat) \<le> 13"

definition trim :: "string \<Rightarrow> string" where
  "trim s = trim_end_matches is_space (dropWhile is_space s)"

text \<open>The first character that starts no earlier than \<open>start\<close>.\<close>

fun first_start :: "nat \<Rightarrow> nat \<Rightarrow> string \<Rightarrow> nat" where
  "first_start start i [] = 0"
| "first_start start i (c # cs) = (if start \<le> i \<and> \<not> continues_char c then i else first_start start (Suc i) cs)"

definition tail_text :: "string \<Rightarrow> nat \<Rightarrow> string" where
  "tail_text s mx = (if length s \<le> mx then s else drop (first_start (length s - mx) 0 s) s)"

section \<open>Progress\<close>

definition progress_field :: "string \<Rightarrow> string \<Rightarrow> progress \<Rightarrow> progress" where
  "progress_field key v p =
     (if key = ''out_time_us'' \<or> key = ''out_time_ms''
      then (case parse_unsigned (2 ^ 64) v of Some n \<Rightarrow> p\<lparr> pg_out_time_us := of_nat n \<rparr> | None \<Rightarrow> p)
      else if key = ''frame''
      then (case parse_unsigned (2 ^ 64) v of Some n \<Rightarrow> p\<lparr> pg_frames := of_nat n \<rparr> | None \<Rightarrow> p)
      else if key = ''total_size''
      then (case parse_unsigned (2 ^ 64) v of Some n \<Rightarrow> p\<lparr> pg_total_size := of_nat n \<rparr> | None \<Rightarrow> p)
      else if key = ''speed'' then p\<lparr> pg_speed := Some v \<rparr>
      else if key = ''progress'' then p\<lparr> pg_done := (v = ''end'') \<rparr>
      else p)"

definition progress_line :: "progress \<Rightarrow> string \<Rightarrow> progress" where
  "progress_line p line = (case split_once (CHR ''='') line of
     None \<Rightarrow> p | Some (key, v) \<Rightarrow> progress_field (trim key) (trim v) p)"

definition parse_progress :: "string \<Rightarrow> progress" where
  "parse_progress s = foldl progress_line no_progress (text_lines s)"

definition read_progress :: "string option \<Rightarrow> progress" where
  "read_progress s = (case s of None \<Rightarrow> no_progress | Some s \<Rightarrow> parse_progress s)"

section \<open>Running\<close>

definition caughtP :: "'a prog \<Rightarrow> (agent_error + 'a) prog" where
  "caughtP p w = (case p w of
     (Done a, w') \<Rightarrow> (Done (Inr a), w') | (Raised e, w') \<Rightarrow> (Done (Inl e), w') | (Crashed, w') \<Rightarrow> (Crashed, w'))"

text \<open>Whether the run was killed, and the reports handed to the caller on the way.\<close>

fun watch_encode :: "bool \<Rightarrow> encode_poll list \<Rightarrow> progress \<Rightarrow> string + bool \<times> progress list" where
  "watch_encode limited [] prev = Inr (False, [])"
| "watch_encode limited (EP_Failed e # ps) prev = Inl e"
| "watch_encode limited (EP_Running late s # ps) prev =
     (if limited \<and> late then Inr (True, [])
      else let p = read_progress s
           in if p = prev then watch_encode limited ps prev
              else bindR (watch_encode limited ps p) (\<lambda>(killed, reports). Inr (killed, p # reports)))"

definition ffmpeg_argv :: "string list \<Rightarrow> path \<Rightarrow> string list" where
  "ffmpeg_argv argv progress_path = ''-nostdin'' # ''-progress'' # path_display progress_path # argv"

definition act_ffmpeg :: "executor \<Rightarrow> string list \<Rightarrow> world \<Rightarrow> io_error + ffmpeg_run \<times> world" where
  "act_ffmpeg x argv w = (let run = xr_ffmpeg x argv (wd_files w) in
     case fx_spawn run of Some e \<Rightarrow> Inl (IO_Other e) | None \<Rightarrow> Inr (run, w\<lparr> wd_files := fx_effect run (wd_files w) \<rparr>))"

definition run_argv :: "env \<Rightarrow> executor \<Rightarrow> string list \<Rightarrow> path \<Rightarrow> path \<Rightarrow> (execution \<times> progress list) prog" where
  "run_argv env x argv output progress_path =
     thenP (ignoring env (act_remove progress_path))
     (bindP (call_or env (act_ffmpeg x (ffmpeg_argv argv progress_path)) (AE_Execute (xc_ffmpeg (xr_config x)))) (\<lambda>run.
      case watch_encode (xc_timeout (xr_config x) \<noteq> None) (fx_polls run) no_progress of
        Inl e \<Rightarrow> raiseP (AE_Execute (xc_ffmpeg (xr_config x)) (IO_Other e))
      | Inr (killed, reports) \<Rightarrow>
          (let status = (if killed then default_exit_status else fx_status run)
           in bindP (size_or_zero env output) (\<lambda>bytes.
              retP (\<lparr> xe_argv = argv, xe_exit_code = or_default (- 1) (es_code status), xe_signal = es_signal status,
                 xe_stderr_tail = tail_text (or_default [] (fx_stderr run)) 4000, xe_output_bytes = bytes,
                 xe_elapsed = fx_elapsed run, xe_progress = read_progress (fx_progress run) \<rparr>, reports)))))"

definition argv_for :: "encode_plan \<Rightarrow> job_paths \<Rightarrow> string list" where
  "argv_for plan paths = build_ffmpeg_argv plan paths"

definition run_encode :: "env \<Rightarrow> executor \<Rightarrow> encode_plan \<Rightarrow> job_paths \<Rightarrow> path \<Rightarrow> (execution \<times> progress list) prog" where
  "run_encode env x plan paths progress_path =
     run_argv env x (argv_for plan paths) (path_new (jp_output paths)) progress_path"

section \<open>Judging\<close>

definition run_probe :: "env \<Rightarrow> executor \<Rightarrow> string list \<Rightarrow> path \<Rightarrow> string option \<Rightarrow> string prog" where
  "run_probe env x args p extra =
     bindP (call_or env (\<lambda>w. let out = xr_ffprobe x (args @ (case extra of None \<Rightarrow> [] | Some e \<Rightarrow> [e]) @ [path_display p]) (wd_files w)
                            in case fo_error out of Some e \<Rightarrow> Inl (IO_Other e) | None \<Rightarrow> Inr (out, w))
              (AE_Execute (xc_ffprobe (xr_config x)))) (\<lambda>out.
       if es_code (fo_status out) \<noteq> Some 0
       then raiseP (AE_Probe p (''ffprobe exited '' @ show_int (or_default (- 1) (es_code (fo_status out))) @ '': ''
              @ tail_text (fo_stderr out) 300))
       else retP (fo_stdout out))"

definition header_duration_s :: "env \<Rightarrow> executor \<Rightarrow> path \<Rightarrow> float_value option prog" where
  "header_duration_s env x p =
     bindP (caughtP (run_probe env x [''-v'', ''error'', ''-show_entries'', ''format=duration'', ''-of'', ''csv=p=0''] p None)) (\<lambda>r.
       retP (case r of Inl e \<Rightarrow> None | Inr raw \<Rightarrow> parse_f64 (trim raw)))"

text \<open>\<open>(header_s - 60.0).max(0.0)\<close>, printed with three decimals; \<open>max\<close> drops what is not a number.\<close>

definition seek_from :: "float_value option \<Rightarrow> string" where
  "seek_from h = (case h of
     None \<Rightarrow> show_fixed 3 0
   | Some (Finite s) \<Rightarrow> show_fixed 3 (max 0 (f64_sub s 60))
   | Some (Infinite neg) \<Rightarrow> if neg then show_fixed 3 0 else ''inf''
   | Some NotANumber \<Rightarrow> show_fixed 3 0)"

fun float_max :: "float_value \<Rightarrow> float_value \<Rightarrow> float_value" where
  "float_max NotANumber v = v"
| "float_max u NotANumber = u"
| "float_max (Infinite neg) v = (if neg then v else Infinite neg)"
| "float_max u (Infinite neg) = (if neg then u else Infinite neg)"
| "float_max (Finite a) (Finite b) = Finite (max a b)"

text \<open>\<open>(s * 1_000_000.0) as u64\<close>\<close>

fun whole_micros :: "float_value \<Rightarrow> u64" where
  "whole_micros (Finite s) = u64_of_f64 (f64_mul s 1000000)"
| "whole_micros (Infinite neg) = (if neg then 0 else - 1)"
| "whole_micros NotANumber = 0"

definition packet_times :: "string \<Rightarrow> float_value list" where
  "packet_times raw = List.map_filter (\<lambda>line. parse_f64 (trim_end_matches (\<lambda>c. c = CHR '','') (trim line))) (text_lines raw)"

definition last_time :: "float_value list \<Rightarrow> float_value option" where
  "last_time vs = foldl (\<lambda>acc v. Some (case acc of None \<Rightarrow> v | Some a \<Rightarrow> float_max a v)) None vs"

definition last_packet_pts_us :: "env \<Rightarrow> executor \<Rightarrow> path \<Rightarrow> u64 option prog" where
  "last_packet_pts_us env x p =
     bindP (header_duration_s env x p) (\<lambda>h.
     bindP (run_probe env x [''-v'', ''error'', ''-select_streams'', ''v:0'', ''-show_entries'', ''packet=pts_time'', ''-of'',
              ''csv=p=0'', ''-read_intervals''] p (Some (seek_from h @ ''%+#100000''))) (\<lambda>raw.
       retP (map_option whole_micros (last_time (packet_times raw)))))"

definition probe_output :: "env \<Rightarrow> executor \<Rightarrow> path \<Rightarrow> media_probe prog" where
  "probe_output env x p =
     bindP (run_probe env x [''-v'', ''error'', ''-print_format'', ''json'', ''-show_format'', ''-show_streams''] p None) (\<lambda>raw.
       case parse_ffprobe_json (xr_json x) raw of
         Inl e \<Rightarrow> raiseP (AE_Probe p (show_core_error e))
       | Inr parsed \<Rightarrow> bindP (last_packet_pts_us env x p) (\<lambda>pts.
           retP (parsed\<lparr> mp_duration_us := (case pts of Some t \<Rightarrow> Some t | None \<Rightarrow> mp_duration_us parsed) \<rparr>)))"

definition empty_probe :: media_probe where
  "empty_probe = \<lparr> mp_container = [], mp_duration_us = None, mp_bit_rate_bps = None, mp_size_bytes = None, mp_streams = [] \<rparr>"

definition validate_file :: "env \<Rightarrow> executor \<Rightarrow> validation_spec \<Rightarrow> path \<Rightarrow> int \<Rightarrow> validation_report prog" where
  "validate_file env x spec output exit_code =
     bindP (size_or_zero env output) (\<lambda>bytes.
     bindP (caughtP (probe_output env x output)) (\<lambda>r.
       retP (validate_output spec (case r of Inl e \<Rightarrow> empty_probe | Inr parsed \<Rightarrow> parsed) exit_code bytes)))"


section \<open>What the programs leave alone\<close>

definition encoder_keeps :: "(files \<Rightarrow> bool) \<Rightarrow> executor \<Rightarrow> string list \<Rightarrow> path \<Rightarrow> bool" where
  "encoder_keeps F x argv progress_path \<longleftrightarrow>
     (\<forall>fs. F fs \<longrightarrow> F (fx_effect (xr_ffmpeg x (ffmpeg_argv argv progress_path) fs) fs))"

lemma triple_caught: "triple P p (\<lambda>_. I) I \<Longrightarrow> triple P (caughtP p) (\<lambda>_. I) I"
  by (fastforce simp: triple_def caughtP_def split: prod.splits outcome.splits)

lemma triple_same_option:
  "(x = None \<Longrightarrow> triple P q Q I) \<Longrightarrow> (\<And>a. x = Some a \<Longrightarrow> triple P (g a) Q I)
   \<Longrightarrow> triple P (case x of None \<Rightarrow> q | Some a \<Rightarrow> g a) Q I"
  by (cases x) simp_all

lemma triple_run_argv:
  assumes "encoder_keeps F x argv pp" "\<And>fs. F fs \<Longrightarrow> F (AList.delete pp fs)"
  shows "triple (on_files F fin tra) (run_argv env x argv out pp) (\<lambda>_. on_files F fin tra) (on_files F fin tra)"
proof -
  let ?P = "on_files F fin tra"
  have ff: "triple ?P (call_or env (act_ffmpeg x (ffmpeg_argv argv pp)) wrap) (\<lambda>_. ?P) ?P" for wrap
  proof (rule triple_quiet_call)
    fix w a w' assume "?P w" "act_ffmpeg x (ffmpeg_argv argv pp) w = Inr (a, w')"
    then show "?P w'" using assms(1)
      by (auto simp: act_ffmpeg_def Let_def on_files_def encoder_keeps_def journal_ok_def split: option.splits)
  qed
  show ?thesis unfolding run_argv_def Let_def
    by (intro same_then same_bind triple_remove ff triple_case_sum same_triples triple_raise triple_ret assms(2))
      (auto intro!: same_bind same_triples triple_ret split: prod.split)
qed

lemma triple_run_probe: "triple (on_files F fin tra) (run_probe env x args p extra) (\<lambda>_. on_files F fin tra) (on_files F fin tra)"
  unfolding run_probe_def Let_def
  by (intro same_bind triple_quiet_call triple_if triple_raise triple_ret) (auto split: option.splits)

lemma triple_last_pts: "triple (on_files F fin tra) (last_packet_pts_us env x p) (\<lambda>_. on_files F fin tra) (on_files F fin tra)"
  unfolding last_packet_pts_us_def header_duration_s_def
  by (intro same_bind triple_caught triple_run_probe triple_ret) auto

lemma triple_probe_output: "triple (on_files F fin tra) (probe_output env x p) (\<lambda>_. on_files F fin tra) (on_files F fin tra)"
  unfolding probe_output_def
  by (intro same_bind triple_run_probe triple_case_sum triple_raise triple_last_pts triple_ret) auto

lemma triple_validate_file: "triple (on_files F fin tra) (validate_file env x spec out code) (\<lambda>_. on_files F fin tra) (on_files F fin tra)"
  unfolding validate_file_def
  by (intro same_bind triple_size triple_caught triple_probe_output triple_ret) auto

section \<open>Where the code departs from its comments\<close>

text \<open>A run killed at its deadline is given the default status, which is that of success.\<close>

lemma timed_out_run_exits_zero:
  assumes "xc_timeout (xr_config x) \<noteq> None" "xr_ffmpeg x = (\<lambda>argv fs. run)" "fx_spawn run = None" "fx_polls run = EP_Running True s # ps"
  shows "\<exists>e t. run_argv quiet x argv out pp w = (Done (e, []), t) \<and> xe_exit_code e = 0"
  using assms
  by (cases "act_remove pp w"; cases "file_at out (tick (tick (snd (projr (act_remove pp w)))))")
    (auto simp: run_argv_def thenP_def ignoring_def bindP_def call_or_def call_def quiet_def act_ffmpeg_def Let_def retP_def
      size_or_zero_def act_stat_def default_exit_status_def split: outcome.splits prod.splits sum.splits option.splits)

text \<open>An output none of whose packets can be read is judged by the duration in its header.\<close>

lemma unreadable_packets_keep_header:
  assumes "run_probe env x [''-v'', ''error'', ''-print_format'', ''json'', ''-show_format'', ''-show_streams''] p None w = (Done raw, w1)"
    and "parse_ffprobe_json (xr_json x) raw = Inr parsed" "last_packet_pts_us env x p w1 = (Done None, w2)"
  shows "probe_output env x p w = (Done parsed, w2)"
  using assms by (simp add: probe_output_def bindP_def retP_def)

end
