(* ===== verification/Spec2Isabelle.thy ===== *)
theory Spec2Isabelle
  imports Policy Preset Dispatch Hardening Reconcile Schedule Writer Crash_Recovery Push Orchestrator Evaluator Prober Scanner Executor
begin

text \<open>
  A verification development for transcodarr, which replaces the media files of a library by smaller
  encodes of them: a server decides what to encode and where, agents encode, install and report.

  What is modelled, theory by theory (paths under \<open>src/crates/\<close>).

  The decisions about one file, \<open>transcodarr-core\<close>. \<open>Failure\<close>: failure classes and the table that assigns
  them (\<open>failure.rs\<close>). \<open>Paths\<close>: lexical paths as component lists, output and trash paths (\<open>paths.rs\<close>).
  \<open>Plan\<close>: the ffmpeg argument vector and its printed form (\<open>plan.rs\<close>). \<open>Probe\<close>, \<open>Facts\<close>: what ffprobe
  reports and the facts derived from it, with the content signature (\<open>probe.rs\<close>, \<open>facts.rs\<close>).
  \<open>Validate\<close>: the gates an output passes (\<open>validate.rs\<close>). \<open>Capability\<close>: what an agent can do and what a
  job requires (\<open>capability.rs\<close>). \<open>Job\<close>: job and file states with the legal transitions (\<open>job.rs\<close>).
  \<open>Policy\<close>, \<open>Preset\<close>: the rule language, its evaluation and the job that follows from it (\<open>policy.rs\<close>,
  \<open>presets.rs\<close>).

  The server, \<open>transcodarr-server\<close>. \<open>Capacity\<close>: the slot ledger (\<open>capacity.rs\<close>). \<open>Dispatch\<close>: placing
  queued jobs on agents with its eligibility cache (\<open>dispatch.rs\<close>). \<open>Hardening\<close>: retries and agent
  quarantine (\<open>hardening.rs\<close>). \<open>Reconcile\<close>: what becomes of jobs whose agent is gone (\<open>reconcile.rs\<close>).
  \<open>Schedule\<close>: maintenance windows and overrides (\<open>schedule.rs\<close>).

  The store, \<open>transcodarr-store\<close>. \<open>Database\<close>: tables as lists of rows with the constraints of the
  migrations, one write operation as a transaction (\<open>writer.rs\<close>). \<open>Job_Store\<close>, \<open>Commit_Intent\<close>,
  \<open>Trash\<close>: the repositories (\<open>repo/job.rs\<close>, \<open>repo/commit_intent.rs\<close>, \<open>repo/trash.rs\<close>). \<open>Writer\<close>: the
  writer's loop, batches, lanes and poison list (\<open>writer.rs\<close>).

  The agent, \<open>transcodarr-agent\<close>. \<open>Agent_Fs\<close>: files, journal files and an environment that lets a
  system call proceed, fails it or ends the process, with a small logic for programs of such calls.
  \<open>Journal\<close>: the intent journal and the work area (\<open>journal.rs\<close>, \<open>workarea.rs\<close>). \<open>Commit_Ritual\<close>:
  install and recovery (\<open>commit.rs\<close>). \<open>Crash_Recovery\<close>: what an interrupted install is recovered to.

  Interfaces. \<open>canonical_spelling\<close> (Prelude) is what every enumeration with a database spelling
  promises; \<open>slot_ledger\<close> (Capacity) what the dispatcher relies on when it acquires a slot;
  \<open>guarded_writes\<close> (Database) an invariant that every write operation of a repository keeps, from
  which \<open>Writer\<close> derives once that it survives any run of the writer. Each is interpreted on the
  code's own definitions, in the theory of the component that provides it.

  Groups of lemmas. Every component has its invariant, the lemmas that its operations keep it, the
  behaviour of each operation on its branches, and the properties stated at the end of its theory;
  the properties that span components are in Dispatch (capacity, capability), Policy (facts, plans,
  validation), Writer (store) and Crash_Recovery (journal, ritual, recovery).

  Data. Machine integers are words where the code can wrap or saturates at their width (sizes,
  durations, slot counts), and integers where the code only compares them or saturates explicitly.
  Strings are lists of bytes. A hash is a parameter, assumed injective where the code relies on it.
  Time, the rendering of SQLite errors and the outcome of opening a savepoint are parameters. No
  definition runs out of fuel: all recursion is structural or has a termination proof.

  Not modelled: network sessions, gRPC conversion, ffmpeg and ffprobe processes, SQLite itself beyond
  the statements the repositories issue and the constraints of their tables, metrics and rendering.
\<close>

end
